(* ===== verification/Rust_Prelude.thy ===== *)
theory Rust_Prelude
  imports Main "HOL-Library.AList" "HOL-Library.Word" "HOL-Library.Char_ord"
    "HOL-Library.List_Lexorder" "HOL-Library.Product_Lexorder" "HOL-Library.Multiset"
begin

text \<open>
  Shared vocabulary of the development: what the Rust sources use of the language and of its
  standard library, and the generic lemmas the component theories share.

  \<^item> \<open>Result<T, E>\<close> is the sum type \<open>'e + 'a\<close>, with \<open>Inl\<close> for \<open>Err\<close> and \<open>Inr\<close> for \<open>Ok\<close>;
    \<open>and_then\<close> is the \<open>?\<close> operator.
  \<^item> \<open>u64\<close> values are \<open>nat\<close> with the operations that can leave the range written out
    (\<open>wrapping_add_u64\<close>, \<open>saturating_add_u64\<close>); subtraction on \<open>nat\<close> is \<open>saturating_sub\<close>.
    Bytes and 32-bit length fields are words.
  \<^item> \<open>String\<close> is \<open>string\<close>, the list of its UTF-8 bytes: \<open>len\<close> is \<open>length\<close>, and the order of
    \<open>HOL-Library.List_Lexorder\<close> over \<open>HOL-Library.Char_ord\<close> is Rust's byte order.
  \<^item> \<open>HashMap\<close> is an association list with distinct keys, in one of the iteration orders the
    hash map may have; \<open>HashSet\<close> is a set. Results that could depend on the iteration order are
    stated so that they do not.
  \<^item> \<open>slice::sort_by\<close> is the stable insertion sort \<open>sort_by\<close>, and \<open>Iterator::min_by\<close> is
    \<open>min_by\<close>, which keeps the first of several minimal elements.
\<close>

named_theorems store_simps \<open>projections of the stateful components after an update\<close>

subsection \<open>Types\<close>

type_synonym u8 = "8 word"
type_synonym u32 = "32 word"
type_synonym bytes = "u8 list"

subsection \<open>Runs\<close>

text \<open>A component whose operations, as far as they are permitted, keep an invariant; so does every run of them.\<close>

locale guarded_steps =
  fixes step :: "'x \<Rightarrow> 's \<Rightarrow> 's" and permitted :: "'x \<Rightarrow> bool" and inv :: "'s \<Rightarrow> bool"
  assumes step_inv: "inv s \<Longrightarrow> permitted x \<Longrightarrow> inv (step x s)"
begin

lemma run_inv: "inv s \<Longrightarrow> \<forall>x \<in> set xs. permitted x \<Longrightarrow> inv (fold step xs s)"
  by (induction xs arbitrary: s) (auto simp: step_inv)

end

subsection \<open>Results\<close>

definition and_then :: "'e + 'a \<Rightarrow> ('a \<Rightarrow> 'e + 'b) \<Rightarrow> 'e + 'b" where
  "and_then r f = (case r of Inl e \<Rightarrow> Inl e | Inr x \<Rightarrow> f x)"

definition ok_or :: "'a option \<Rightarrow> 'e \<Rightarrow> 'e + 'a" where
  "ok_or v e = (case v of None \<Rightarrow> Inl e | Some x \<Rightarrow> Inr x)"

definition unwrap_or :: "'a \<Rightarrow> 'a option \<Rightarrow> 'a" where
  "unwrap_or d v = (case v of None \<Rightarrow> d | Some x \<Rightarrow> x)"

lemma and_then_simps [simp]:
  "and_then (Inl e) f = Inl e"
  "and_then (Inr x) f = f x"
  by (simp_all add: and_then_def)

lemma and_then_Inr_iff: "and_then r f = Inr y \<longleftrightarrow> (\<exists>x. r = Inr x \<and> f x = Inr y)"
  by (cases r) auto

lemma and_then_Inl_iff: "and_then r f = Inl e \<longleftrightarrow> r = Inl e \<or> (\<exists>x. r = Inr x \<and> f x = Inl e)"
  by (cases r) auto

lemma ok_or_simps [simp]:
  "ok_or None e = Inl e"
  "ok_or (Some x) e = Inr x"
  by (simp_all add: ok_or_def)

lemma ok_or_Inr_iff: "ok_or v e = Inr x \<longleftrightarrow> v = Some x"
  by (cases v) auto

lemma unwrap_or_simps [simp]:
  "unwrap_or d None = d"
  "unwrap_or d (Some x) = x"
  by (simp_all add: unwrap_or_def)

subsection \<open>64-bit integers\<close>

definition u64_max :: nat where
  "u64_max = 2 ^ 64 - 1"

definition wrapping_add_u64 :: "nat \<Rightarrow> nat \<Rightarrow> nat" where
  "wrapping_add_u64 a b = (a + b) mod 2 ^ 64"

definition saturating_add_u64 :: "nat \<Rightarrow> nat \<Rightarrow> nat" where
  "saturating_add_u64 a b = min (a + b) u64_max"

definition saturating_mul_u64 :: "nat \<Rightarrow> nat \<Rightarrow> nat" where
  "saturating_mul_u64 a b = min (a * b) u64_max"

text \<open>Arithmetic on \<open>i64\<close> wraps around.\<close>

definition wrap_i64 :: "int \<Rightarrow> int" where
  "wrap_i64 n = (n + 2 ^ 63) mod 2 ^ 64 - 2 ^ 63"

text \<open>The cast \<open>n as i64\<close> of an unsigned value: two's complement.\<close>

definition u64_as_i64 :: "nat \<Rightarrow> int" where
  "u64_as_i64 n = (let m = n mod 2 ^ 64 in if m < 2 ^ 63 then int m else int m - 2 ^ 64)"

lemma wrap_i64_small: "- (2 ^ 63) \<le> n \<Longrightarrow> n < 2 ^ 63 \<Longrightarrow> wrap_i64 n = n"
  by (simp add: wrap_i64_def)

lemma wrapping_add_u64_small: "a + b < 2 ^ 64 \<Longrightarrow> wrapping_add_u64 a b = a + b"
  by (simp add: wrapping_add_u64_def)

lemma u64_as_i64_small: "n < 2 ^ 63 \<Longrightarrow> u64_as_i64 n = int n"
  by (simp add: u64_as_i64_def Let_def)

lemma unat_less_exp: "unat (w :: 'a::len word) < 2 ^ LENGTH('a)"
  by (rule unsigned_less)

subsection \<open>Iterators\<close>

text \<open>\<open>Iterator::min_by\<close>: the first element that no other is less than.\<close>

fun min_by :: "('a \<Rightarrow> 'a \<Rightarrow> bool) \<Rightarrow> 'a list \<Rightarrow> 'a option" where
  "min_by lt [] = None"
| "min_by lt (x # xs) = Some (fold (\<lambda>b a. if lt b a then b else a) xs x)"

text \<open>\<open>std::cmp::Ordering\<close>, \<open>Ord::cmp\<close> and \<open>Ordering::then_with\<close>.\<close>

datatype ordering = OrdLess | OrdEqual | OrdGreater

definition cmp :: "'a::linorder \<Rightarrow> 'a \<Rightarrow> ordering" where
  "cmp a b = (if a < b then OrdLess else if a = b then OrdEqual else OrdGreater)"

definition then_with :: "ordering \<Rightarrow> ordering \<Rightarrow> ordering" where
  "then_with a b = (if a = OrdEqual then b else a)"

lemma cmp_simps [simp]:
  "cmp a b = OrdLess \<longleftrightarrow> a < b"
  "cmp a b = OrdEqual \<longleftrightarrow> a = b"
  by (auto simp: cmp_def)

lemma then_with_less [simp]: "then_with a b = OrdLess \<longleftrightarrow> a = OrdLess \<or> a = OrdEqual \<and> b = OrdLess"
  by (auto simp: then_with_def)

lemma then_with_equal [simp]: "then_with a b = OrdEqual \<longleftrightarrow> a = OrdEqual \<and> b = OrdEqual"
  by (auto simp: then_with_def)

text \<open>\<open>slice::sort_by\<close>: a stable sort, as insertion before the first strictly greater element.\<close>

fun insert_by :: "('a \<Rightarrow> 'a \<Rightarrow> bool) \<Rightarrow> 'a \<Rightarrow> 'a list \<Rightarrow> 'a list" where
  "insert_by lt x [] = [x]"
| "insert_by lt x (y # ys) = (if lt y x then y # insert_by lt x ys else x # y # ys)"

definition sort_by :: "('a \<Rightarrow> 'a \<Rightarrow> bool) \<Rightarrow> 'a list \<Rightarrow> 'a list" where
  "sort_by lt xs = foldr (insert_by lt) xs []"

lemma min_by_None_iff [simp]: "min_by lt xs = None \<longleftrightarrow> xs = []"
  by (cases xs) auto

lemma min_fold_mem: "fold (\<lambda>b a. if lt b a then b else a) xs x \<in> insert x (set xs)"
  by (induction xs arbitrary: x) force+

lemma min_by_mem: "min_by lt xs = Some m \<Longrightarrow> m \<in> set xs"
  using min_fold_mem [of lt "tl xs" "hd xs"] by (cases xs) auto

lemma min_fold_le_start:
  fixes f :: "'a \<Rightarrow> 'b::linorder"
  shows "f (fold (\<lambda>b a. if f b < f a then b else a) xs x) \<le> f x"
proof (induction xs arbitrary: x)
  case (Cons z zs)
  have "f (if f z < f x then z else x) \<le> f x" by auto
  with Cons show ?case by (metis (no_types, lifting) fold_simps(2) order_trans)
qed simp

lemma min_fold_least:
  fixes f :: "'a \<Rightarrow> 'b::linorder"
  shows "y \<in> set xs \<Longrightarrow> f (fold (\<lambda>b a. if f b < f a then b else a) xs x) \<le> f y"
proof (induction xs arbitrary: x)
  case (Cons z zs)
  let ?a = "if f z < f x then z else x"
  show ?case
  proof (cases "y = z")
    case True
    have "f (fold (\<lambda>b a. if f b < f a then b else a) zs ?a) \<le> f ?a"
      by (rule min_fold_le_start)
    also have "f ?a \<le> f z" by auto
    finally show ?thesis using True by simp
  next
    case False
    with Cons.prems have "y \<in> set zs" by simp
    from Cons.IH [OF this, of ?a] show ?thesis by simp
  qed
qed simp

lemma min_by_least:
  fixes f :: "'a \<Rightarrow> 'b::linorder"
  assumes "min_by (\<lambda>a b. f a < f b) xs = Some m" and "y \<in> set xs"
  shows "f m \<le> f y"
  using assms min_fold_least [of y "tl xs" f "hd xs"] min_fold_le_start [of f "tl xs" "hd xs"]
  by (cases xs) auto

lemma mset_insert_by [simp]: "mset (insert_by lt x xs) = add_mset x (mset xs)"
  by (induction xs) auto

lemma mset_sort_by [simp]: "mset (sort_by lt xs) = mset xs"
  by (induction xs) (auto simp: sort_by_def)

lemma set_sort_by [simp]: "set (sort_by lt xs) = set xs"
  by (metis mset_sort_by set_mset_mset)

lemma length_sort_by [simp]: "length (sort_by lt xs) = length xs"
  by (metis mset_sort_by size_mset)

lemma distinct_sort_by [simp]: "distinct (sort_by lt xs) = distinct xs"
  by (metis mset_sort_by distinct_count_atmost_1 set_sort_by)

lemma set_insert_by [simp]: "set (insert_by lt x xs) = insert x (set xs)"
  by (metis mset_insert_by set_mset_add_mset_insert set_mset_mset)

lemma sorted_insert_by:
  fixes f :: "'a \<Rightarrow> 'b::linorder"
  assumes "sorted (map f xs)"
  shows "sorted (map f (insert_by (\<lambda>a b. f a < f b) x xs))"
  using assms by (induction xs) (auto simp: not_less intro: less_imp_le)

lemma sorted_sort_by:
  fixes f :: "'a \<Rightarrow> 'b::linorder"
  shows "sorted (map f (sort_by (\<lambda>a b. f a < f b) xs))"
  by (induction xs) (auto simp: sort_by_def sorted_insert_by)

text \<open>
  When the sort key tells the elements apart, the result depends on the multiset of elements
  only: this is what makes the output of a sort over a hash map's values deterministic.
\<close>

lemma sort_by_cong_mset:
  fixes f :: "'a \<Rightarrow> 'b::linorder"
  assumes "mset xs = mset ys" and "inj_on f (set xs)"
  shows "sort_by (\<lambda>a b. f a < f b) xs = sort_by (\<lambda>a b. f a < f b) ys"
proof -
  let ?s = "sort_by (\<lambda>a b. f a < f b)"
  have set_eq: "set ys = set xs"
    using assms(1) by (metis set_mset_mset)
  have "mset (map f (?s xs)) = mset (map f (?s ys))"
    using assms(1) by simp
  then have "map f (?s xs) = map f (?s ys)"
    using properties_for_sort [OF _ sorted_sort_by, of f xs]
      properties_for_sort [OF _ sorted_sort_by, of f ys] by metis
  then show ?thesis
    by (rule map_inj_on) (simp add: assms(2) set_eq)
qed

lemma length_filter_filter_le: "length (filter Q (filter R xs)) \<le> length (filter Q xs)"
  by (induction xs) auto

lemma sorted_take_drop:
  assumes "sorted (map f xs)" and "p \<in> set (take n xs)" and "q \<in> set (drop n xs)"
  shows "f p \<le> f q"
proof -
  have "sorted (map f (take n xs) @ map f (drop n xs))"
    using assms(1) by (simp flip: map_append)
  with assms(2,3) show ?thesis by (auto simp: sorted_append)
qed

subsection \<open>Association lists as hash maps\<close>

lemma distinct_map_fst_update [simp]:
  "distinct (map fst (AList.update k v m)) = distinct (map fst m)"
proof (induction m)
  case (Cons p m)
  then show ?case by (cases p) (auto simp: dom_update image_iff)
qed simp

lemma distinct_map_fst_delete [simp]:
  "distinct (map fst m) \<Longrightarrow> distinct (map fst (AList.delete k m))"
  by (simp add: distinct_delete)

lemma set_delete_distinct:
  "set (AList.delete k m) = {p \<in> set m. fst p \<noteq> k}"
  by (auto simp: AList.delete_eq)

lemma length_delete_less: "k \<in> fst ` set m \<Longrightarrow> length (AList.delete k m) < length m"
  by (auto simp: AList.delete_eq intro!: length_filter_less)

lemma length_update_mem: "k \<in> fst ` set m \<Longrightarrow> length (AList.update k v m) = length m"
  by (induction m) auto

lemma update_notin_append: "k \<notin> fst ` set m \<Longrightarrow> AList.update k v m = m @ [(k, v)]"
  by (induction m) auto

lemma update_split:
  assumes "distinct (map fst m)" and "(k, w) \<in> set m"
  shows "\<exists>m1 m2. m = m1 @ (k, w) # m2 \<and> AList.update k v m = m1 @ (k, v) # m2"
  using assms
proof (induction m)
  case Nil
  then show ?case by simp
next
  case (Cons p m)
  obtain k' w' where p: "p = (k', w')" by (cases p)
  show ?case
  proof (cases "k' = k")
    case True
    with Cons.prems p have "w' = w" by (auto simp: rev_image_eqI)
    with True p show ?thesis
      by (intro exI [of _ "[]"] exI [of _ m]) simp
  next
    case False
    with Cons p obtain m1 m2 where "m = m1 @ (k, w) # m2"
      and "AList.update k v m = m1 @ (k, v) # m2" by auto
    with False p show ?thesis
      by (intro exI [of _ "p # m1"] exI [of _ m2]) simp
  qed
qed

end
