(* ===== verification/Rust_Str.thy ===== *)
theory Rust_Str
  imports Rust_Prelude
begin

text \<open>
  What the sources use of Rust's \<open>str\<close>. A string is the list of its UTF-8 bytes.
  \<open>utf8_chars\<close> is \<open>chars()\<close>, with each Unicode scalar value kept as its group of bytes (a lead
  byte and its continuation bytes) and \<open>code_point\<close> giving the value; \<open>str_wf\<close> is the part of
  UTF-8 validity, which the type \<open>str\<close> guarantees, that the lemmas need. The theory also has the
  decimal printer and parser of unsigned integers with their round trip.
\<close>

subsection \<open>Characters of a UTF-8 string\<close>

abbreviation byte_of :: "char \<Rightarrow> nat" where
  "byte_of c \<equiv> of_char c"

definition is_cont :: "char \<Rightarrow> bool" where
  "is_cont c \<longleftrightarrow> 0x80 \<le> byte_of c \<and> byte_of c < 0xC0"

definition str_wf :: "string \<Rightarrow> bool" where
  "str_wf s \<longleftrightarrow> (case s of [] \<Rightarrow> True | c # _ \<Rightarrow> \<not> is_cont c)"

function utf8_chars :: "string \<Rightarrow> string list" where
  "utf8_chars [] = []"
| "utf8_chars (b # bs) = (b # takeWhile is_cont bs) # utf8_chars (dropWhile is_cont bs)"
  by pat_completeness auto
termination
  by (relation "measure length") (auto simp: length_dropWhile_le less_Suc_eq_le)

definition lead_bits :: "char \<Rightarrow> nat" where
  "lead_bits c = (let b = byte_of c in
     if b < 0x80 then b else if b < 0xE0 then b mod 32 else if b < 0xF0 then b mod 16 else b mod 8)"

definition code_point :: "string \<Rightarrow> nat" where
  "code_point cs = (case cs of [] \<Rightarrow> 0
     | c # rest \<Rightarrow> foldl (\<lambda>acc b. acc * 64 + byte_of b mod 64) (lead_bits c) rest)"

text \<open>\<open>char::is_control\<close>, the general category Cc.\<close>

definition is_control :: "string \<Rightarrow> bool" where
  "is_control cs \<longleftrightarrow> (let p = code_point cs in p < 0x20 \<or> 0x7F \<le> p \<and> p \<le> 0x9F)"

text \<open>\<open>char::is_whitespace\<close>, the property White_Space.\<close>

definition is_whitespace :: "string \<Rightarrow> bool" where
  "is_whitespace cs \<longleftrightarrow> (let p = code_point cs in
     0x9 \<le> p \<and> p \<le> 0xD \<or> p = 0x20 \<or> p = 0x85 \<or> p = 0xA0 \<or> p = 0x1680 \<or>
     0x2000 \<le> p \<and> p \<le> 0x200A \<or> p = 0x2028 \<or> p = 0x2029 \<or> p = 0x202F \<or> p = 0x205F \<or> p = 0x3000)"

definition trim :: "string \<Rightarrow> string" where
  "trim s = concat (rev (dropWhile is_whitespace (rev (dropWhile is_whitespace (utf8_chars s)))))"

definition to_ascii_lowercase :: "string \<Rightarrow> string" where
  "to_ascii_lowercase = map (\<lambda>c. if CHR ''A'' \<le> c \<and> c \<le> CHR ''Z'' then char_of (byte_of c + 32 :: nat) else c)"

fun starts_with :: "string \<Rightarrow> string \<Rightarrow> bool" where
  "starts_with s [] = True"
| "starts_with [] (p # ps) = False"
| "starts_with (c # s) (p # ps) = (c = p \<and> starts_with s ps)"

lemma concat_utf8_chars [simp]: "concat (utf8_chars s) = s"
  by (induction s rule: utf8_chars.induct) auto

lemma str_wf_dropWhile: "str_wf (dropWhile is_cont bs)"
  by (induction bs) (auto simp: str_wf_def)

lemma utf8_chars_shape:
  "str_wf s \<Longrightarrow> cs \<in> set (utf8_chars s) \<Longrightarrow>
     \<exists>b bs. cs = b # bs \<and> \<not> is_cont b \<and> (\<forall>c \<in> set bs. is_cont c)"
proof (induction s rule: utf8_chars.induct)
  case (2 b bs)
  have "\<forall>c \<in> set (takeWhile is_cont bs). is_cont c" by (auto dest: set_takeWhileD)
  with 2 str_wf_dropWhile [of bs] show ?case by (auto simp: str_wf_def)
qed simp

lemma utf8_chars_append_group:
  assumes "\<forall>c \<in> set bs. is_cont c" and "str_wf rest"
  shows "utf8_chars ((b # bs) @ rest) = (b # bs) # utf8_chars rest"
proof -
  have "takeWhile is_cont (bs @ rest) = bs" "dropWhile is_cont (bs @ rest) = rest"
    using assms by (cases rest; simp add: str_wf_def takeWhile_append dropWhile_append)+
  then show ?thesis by simp
qed

lemma utf8_chars_concat_groups:
  assumes "\<And>cs. cs \<in> set gs \<Longrightarrow> \<exists>b bs. cs = b # bs \<and> \<not> is_cont b \<and> (\<forall>c \<in> set bs. is_cont c)"
  shows "utf8_chars (concat gs) = gs \<and> str_wf (concat gs)"
  using assms
proof (induction gs)
  case Nil
  then show ?case by (simp add: str_wf_def)
next
  case (Cons g gs)
  then obtain b bs where g: "g = b # bs" "\<not> is_cont b" "\<forall>c \<in> set bs. is_cont c"
    by (metis list.set_intros(1))
  from Cons have "utf8_chars (concat gs) = gs" "str_wf (concat gs)" by auto
  with g utf8_chars_append_group [of bs "concat gs" b] show ?case
    by (simp add: str_wf_def)
qed

lemma utf8_chars_filter:
  assumes "str_wf s"
  shows "utf8_chars (concat (filter P (utf8_chars s))) = filter P (utf8_chars s)"
    and "str_wf (concat (filter P (utf8_chars s)))"
  using utf8_chars_concat_groups [of "filter P (utf8_chars s)"] utf8_chars_shape [OF assms]
  by auto

lemma length_concat_filter_le: "length (concat (filter P xss)) \<le> length (concat xss)"
  by (induction xss) auto

lemma utf8_chars_ascii:
  assumes "\<forall>c \<in> set s. byte_of c < 0x80"
  shows "utf8_chars s = map (\<lambda>c. [c]) s"
  using assms
proof (induction s)
  case (Cons a s)
  have "takeWhile is_cont s = []" "dropWhile is_cont s = s"
    using Cons.prems by (cases s; simp add: is_cont_def)+
  with Cons show ?case by simp
qed simp

lemma starts_with_iff: "starts_with s p \<longleftrightarrow> (\<exists>r. s = p @ r)"
  by (induction s p rule: starts_with.induct) auto

subsection \<open>Decimal integers\<close>

definition is_ascii_digit :: "char \<Rightarrow> bool" where
  "is_ascii_digit c \<longleftrightarrow> CHR ''0'' \<le> c \<and> c \<le> CHR ''9''"

definition digit_char :: "nat \<Rightarrow> char" where
  "digit_char d = char_of (48 + d)"

definition digit_value :: "char \<Rightarrow> nat" where
  "digit_value c = byte_of c - 48"

text \<open>\<open>u64::to_string\<close>.\<close>

fun show_nat :: "nat \<Rightarrow> string" where
  "show_nat n = (if n < 10 then [digit_char n] else show_nat (n div 10) @ [digit_char (n mod 10)])"

declare show_nat.simps [simp del]

definition digits_value :: "string \<Rightarrow> nat" where
  "digits_value s = foldl (\<lambda>a c. 10 * a + digit_value c) 0 s"

text \<open>\<open>str::parse::<u64>()\<close>: an optional sign \<open>+\<close>, digits only, no overflow.\<close>

definition parse_uint :: "nat \<Rightarrow> string \<Rightarrow> nat option" where
  "parse_uint hi s = (let ds = (case s of c # r \<Rightarrow> if c = CHR ''+'' \<and> r \<noteq> [] then r else s | [] \<Rightarrow> [])
     in if ds = [] \<or> \<not> list_all is_ascii_digit ds then None
        else if digits_value ds \<le> hi then Some (digits_value ds) else None)"

lemma is_ascii_digit_iff: "is_ascii_digit c \<longleftrightarrow> 48 \<le> byte_of c \<and> byte_of c \<le> (57 :: nat)"
  by (simp add: is_ascii_digit_def less_eq_char_def)

lemma digit_char_props [simp]:
  assumes "d < 10"
  shows "is_ascii_digit (digit_char d)" "digit_value (digit_char d) = d"
  using assms by (auto simp: is_ascii_digit_iff digit_char_def digit_value_def)

lemma show_nat_digits: "list_all is_ascii_digit (show_nat n)"
  by (induction n rule: show_nat.induct) (subst show_nat.simps, simp)

lemma show_nat_nonempty [simp]: "show_nat n \<noteq> []"
  by (subst show_nat.simps) simp

lemma digits_value_snoc: "digits_value (s @ [c]) = 10 * digits_value s + digit_value c"
  by (simp add: digits_value_def)

lemma digits_value_show [simp]: "digits_value (show_nat n) = n"
proof (induction n rule: show_nat.induct)
  case (1 n)
  show ?case
  proof (cases "n < 10")
    case True
    then show ?thesis by (subst show_nat.simps) (simp add: digits_value_def)
  next
    case False
    with 1 show ?thesis by (subst show_nat.simps) (simp add: digits_value_snoc)
  qed
qed

lemma digit_not_plus: "is_ascii_digit c \<Longrightarrow> c \<noteq> CHR ''+''"
  by (auto simp: is_ascii_digit_iff)

lemma parse_uint_digits:
  assumes "list_all is_ascii_digit s" and "s \<noteq> []"
  shows "parse_uint hi s = (if digits_value s \<le> hi then Some (digits_value s) else None)"
proof -
  obtain c r where s: "s = c # r" using assms(2) by (cases s) auto
  with assms(1) have "c \<noteq> CHR ''+''" using digit_not_plus by auto
  then have "(case s of c # r \<Rightarrow> if c = CHR ''+'' \<and> r \<noteq> [] then r else s | [] \<Rightarrow> []) = s"
    using s by simp
  with assms show ?thesis by (simp add: parse_uint_def)
qed

lemma parse_uint_show: "n \<le> hi \<Longrightarrow> parse_uint hi (show_nat n) = Some n"
  by (simp add: parse_uint_digits show_nat_digits)

lemma parse_uint_le: "parse_uint hi s = Some n \<Longrightarrow> n \<le> hi"
  by (auto simp: parse_uint_def Let_def split: if_splits)

definition ascii_lower :: "char \<Rightarrow> char" where
  "ascii_lower c = (if CHR ''A'' \<le> c \<and> c \<le> CHR ''Z'' then char_of (byte_of c + 32 :: nat) else c)"

lemma to_ascii_lowercase_map: "to_ascii_lowercase s = map ascii_lower s"
  by (simp add: to_ascii_lowercase_def ascii_lower_def)

lemma byte_lower: "byte_of (ascii_lower c) = (if 65 \<le> byte_of c \<and> byte_of c \<le> (90 :: nat) then byte_of c + 32 else (byte_of c :: nat))"
  by (auto simp: ascii_lower_def less_eq_char_def)

lemma digits_value_less: "list_all is_ascii_digit ds \<Longrightarrow> digits_value ds < 10 ^ length ds"
proof (induction ds rule: rev_induct)
  case (snoc c ds)
  then have "digit_value c \<le> 9" by (auto simp: digit_value_def is_ascii_digit_iff)
  with snoc show ?case by (simp add: digits_value_snoc)
qed (simp add: digits_value_def)

text \<open>\<open>str::split\<close> at a character.\<close>

fun split_at :: "char \<Rightarrow> string \<Rightarrow> string list" where
  "split_at c [] = [[]]"
| "split_at c (x # xs) = (if x = c then [] # split_at c xs
     else case split_at c xs of [] \<Rightarrow> [[x]] | l # ls \<Rightarrow> (x # l) # ls)"

lemma split_at_members: "c \<in> set s \<Longrightarrow> c = d \<or> (\<exists>l \<in> set (split_at d s). c \<in> set l)"
  by (induction s) (auto split: list.splits)

lemma split_at_nonempty [simp]: "split_at d s \<noteq> []"
  by (cases s) (auto split: list.splits)

lemma split_at_last: "\<exists>l ls. split_at d (s @ [d]) = l # ls @ [[]]"
  by (induction s) auto

end
