(* ===== verification/Time_Windows.thy ===== *)
theory Time_Windows
  imports Rust_Prelude
begin

text \<open>
  Interfaces of the components that act on time windows, stated once as locales and interpreted
  where a component provides them.

  \<^item> \<open>suppression\<close>: a component that acts on a key, opens a window for it and stays silent about
    that key until the window is over. The security log (full entries per category and source),
    the duplicate cache (first sight of an event identifier), the dials of unverified peers and the
    keepalive pings are instances. Whatever the calls, two actions on the same key are at least a
    window apart.
  \<^item> \<open>fixed_window_limiter\<close>: a counter that restarts when its window is over and refuses calls
    beyond its maximum. The limiters of gossip sessions, for messages and for bytes, and of PCP
    sessions are instances. Within one window no more than the maximum is admitted.
\<close>

subsection \<open>Suppression windows\<close>

fun fire_times :: "('c \<Rightarrow> 's \<Rightarrow> 's) \<Rightarrow> ('c \<Rightarrow> 's \<Rightarrow> bool) \<Rightarrow> ('c \<Rightarrow> 't) \<Rightarrow> 'c list \<Rightarrow> 's \<Rightarrow> 't list" where
  "fire_times step fired time [] s = []"
| "fire_times step fired time (c # cs) s =
     (if fired c s then [time c] else []) @ fire_times step fired time cs (step c s)"

lemma set_fire_times: "set (fire_times step fired time cs s) \<subseteq> time ` set cs"
  by (induction cs arbitrary: s) auto

locale suppression =
  fixes step :: "'c \<Rightarrow> 's \<Rightarrow> 's"
    and time :: "'c \<Rightarrow> 't::{linorder, plus}"
    and fired :: "'k \<Rightarrow> 'c \<Rightarrow> 's \<Rightarrow> bool"
    and opened :: "'k \<Rightarrow> 's \<Rightarrow> 't option"
    and width :: "'s \<Rightarrow> 't"
    and inv :: "'s \<Rightarrow> bool"
  assumes inv_step: "inv s \<Longrightarrow> inv (step c s)"
    and width_step: "width (step c s) = width s"
    and idle: "inv s \<Longrightarrow> \<not> fired k c s \<Longrightarrow> opened k (step c s) = opened k s \<or>
      opened k (step c s) = None \<and> (\<exists>t. opened k s = Some t \<and> t + width s \<le> time c)"
    and fire: "inv s \<Longrightarrow> fired k c s \<Longrightarrow> opened k (step c s) = Some (time c) \<and>
      (\<forall>t. opened k s = Some t \<longrightarrow> t + width s \<le> time c)"
begin

lemma spacing_from:
  assumes "inv s" and "sorted (map time cs)"
  shows "sorted_wrt (\<lambda>a b. a + width s \<le> b) (fire_times step (fired k) time cs s) \<and>
    (\<forall>u t. opened k s = Some u \<longrightarrow> t \<in> set (fire_times step (fired k) time cs s) \<longrightarrow> u + width s \<le> t)"
  using assms
proof (induction cs arbitrary: s)
  case (Cons c cs)
  let ?s = "step c s" and ?later = "fire_times step (fired k) time cs (step c s)"
  have later: "time c \<le> t" if "t \<in> set ?later" for t
    using that Cons.prems(2) set_fire_times [of step "fired k" time cs ?s] by auto
  from Cons.prems have "sorted (map time cs)" by simp
  note IH = Cons.IH [OF inv_step [OF Cons.prems(1)] this, unfolded width_step]
  show ?case
  proof (cases "fired k c s")
    case True
    note f = fire [OF Cons.prems(1) True]
    from f IH have sp: "\<And>t. t \<in> set ?later \<Longrightarrow> time c + width s \<le> t" by blast
    have "u + width s \<le> t" if "opened k s = Some u" "t = time c \<or> t \<in> set ?later" for u t
    proof -
      have "u + width s \<le> time c" using f that(1) by blast
      also have "time c \<le> t" using that(2) later by auto
      finally show ?thesis .
    qed
    with True IH sp show ?thesis by simp
  next
    case False
    from idle [OF Cons.prems(1) False] show ?thesis
    proof
      assume "opened k ?s = opened k s"
      with False IH show ?thesis by auto
    next
      assume u: "opened k ?s = None \<and> (\<exists>t. opened k s = Some t \<and> t + width s \<le> time c)"
      have "w + width s \<le> t" if "opened k s = Some w" "t \<in> set ?later" for w t
      proof -
        have "w + width s \<le> time c" using u that(1) by auto
        also have "time c \<le> t" using that(2) by (rule later)
        finally show ?thesis .
      qed
      with False IH show ?thesis by auto
    qed
  qed
qed simp

lemma spacing:
  "inv s \<Longrightarrow> sorted (map time cs) \<Longrightarrow>
     sorted_wrt (\<lambda>a b. a + width s \<le> b) (fire_times step (fired k) time cs s)"
  using spacing_from by blast

text \<open>An open window keeps the key silent until it is over.\<close>

lemma silent_while_open:
  assumes "inv s" and "sorted (map time cs)" and "opened k s = Some u"
    and "\<forall>c \<in> set cs. time c < u + width s"
  shows "fire_times step (fired k) time cs s = []"
proof (rule ccontr)
  assume "fire_times step (fired k) time cs s \<noteq> []"
  then obtain t where t: "t \<in> set (fire_times step (fired k) time cs s)" by (meson list.set_sel(1))
  with spacing_from [OF assms(1,2), of k] assms(3) have "u + width s \<le> t" by blast
  moreover have "t < u + width s" using t set_fire_times assms(4) by fastforce
  ultimately show False by simp
qed

end

subsection \<open>Fixed-window limiters\<close>

text \<open>The total weight of the calls admitted in a run, and whether a run stays in one window.\<close>

fun admitted_weight :: "('c \<Rightarrow> 's \<Rightarrow> 's \<times> bool) \<Rightarrow> ('c \<Rightarrow> nat) \<Rightarrow> 'c list \<Rightarrow> 's \<Rightarrow> nat" where
  "admitted_weight charge weight [] s = 0"
| "admitted_weight charge weight (c # cs) s =
     (if snd (charge c s) then weight c else 0) + admitted_weight charge weight cs (fst (charge c s))"

fun same_window :: "('c \<Rightarrow> 's \<Rightarrow> 's \<times> bool) \<Rightarrow> ('c \<Rightarrow> 's \<Rightarrow> bool) \<Rightarrow> 'c list \<Rightarrow> 's \<Rightarrow> bool" where
  "same_window charge restarts [] s = True"
| "same_window charge restarts (c # cs) s =
     (\<not> restarts c s \<and> same_window charge restarts cs (fst (charge c s)))"

locale fixed_window_limiter =
  fixes charge :: "'c \<Rightarrow> 's \<Rightarrow> 's \<times> bool"
    and restarts :: "'c \<Rightarrow> 's \<Rightarrow> bool"
    and weight :: "'c \<Rightarrow> nat"
    and used :: "'s \<Rightarrow> nat"
    and limit :: "'s \<Rightarrow> nat"
  assumes limit_charge: "limit (fst (charge c s)) = limit s"
    and used_restart: "restarts c s \<Longrightarrow> snd (charge c s) \<Longrightarrow> used (fst (charge c s)) = weight c"
    and used_admitted: "\<not> restarts c s \<Longrightarrow> snd (charge c s) \<Longrightarrow> used (fst (charge c s)) = used s + weight c"
    and used_refused: "\<not> restarts c s \<Longrightarrow> \<not> snd (charge c s) \<Longrightarrow> used s \<le> used (fst (charge c s))"
    and admitted_within: "snd (charge c s) \<Longrightarrow> used (fst (charge c s)) \<le> limit s"
begin

lemma window_rest:
  "same_window charge restarts cs s \<Longrightarrow>
     admitted_weight charge weight cs s = 0 \<or> used s + admitted_weight charge weight cs s \<le> limit s"
proof (induction cs arbitrary: s)
  case (Cons c cs)
  from Cons.prems have IH: "admitted_weight charge weight cs (fst (charge c s)) = 0 \<or>
      used (fst (charge c s)) + admitted_weight charge weight cs (fst (charge c s)) \<le> limit s"
    using Cons.IH [of "fst (charge c s)"] by (simp add: limit_charge)
  from Cons.prems have "\<not> restarts c s" by simp
  with IH show ?case
    using used_admitted [of c s] used_refused [of c s] admitted_within [of c s]
    by (cases "snd (charge c s)") auto
qed simp

text \<open>What is admitted from the call that opens a window to the last call of that window.\<close>

lemma window_bound:
  assumes "restarts c s" and "same_window charge restarts cs (fst (charge c s))"
  shows "admitted_weight charge weight (c # cs) s \<le> limit s"
  using window_rest [OF assms(2)] used_restart [OF assms(1)] admitted_within [of c s]
  by (auto simp: limit_charge)

end

end
