(* ===== verification/Yp_Security.thy ===== *)
theory Yp_Security
  imports Rust_Str Time_Windows
begin

text \<open>
  The common security module (\<open>src/security/mod.rs\<close>): the categories of security events, the
  input-validation helpers every component calls, the size-rotated log file and the security
  log with its ten-second aggregation windows.

  The file system is the part of it the log uses: the lines of each generation of the log file,
  a map from the generation index. Serialisation of a log entry (\<open>serde_json\<close>) is the
  parameter \<open>json\<close>. Whether opening and appending succeed is the argument \<open>io_ok\<close>. Every
  operation of the log also returns the entries it emitted, which is what the conservation
  property of the aggregation speaks of.
\<close>

subsection \<open>Categories\<close>

datatype security_category =
  PcpReject | P2pInvalidFrame | P2pOversize | P2pRateLimited | EventOversize | EventInvalidSig
| EventInvalidFormat | EventTimeSkew | EventPowInsufficient | PexRejected | HttpRateLimited
| UrlWarning | KeyPermissionFixed | KeyPermissionUnfixable | IndexTxtLanExposed

definition all_categories :: "security_category list" where
  "all_categories = [PcpReject, P2pInvalidFrame, P2pOversize, P2pRateLimited, EventOversize,
     EventInvalidSig, EventInvalidFormat, EventTimeSkew, EventPowInsufficient, PexRejected,
     HttpRateLimited, UrlWarning, KeyPermissionFixed, KeyPermissionUnfixable, IndexTxtLanExposed]"

fun category_as_str :: "security_category \<Rightarrow> string" where
  "category_as_str PcpReject = ''pcp_reject''"
| "category_as_str P2pInvalidFrame = ''p2p_invalid_frame''"
| "category_as_str P2pOversize = ''p2p_oversize''"
| "category_as_str P2pRateLimited = ''p2p_rate_limited''"
| "category_as_str EventOversize = ''event_oversize''"
| "category_as_str EventInvalidSig = ''event_invalid_sig''"
| "category_as_str EventInvalidFormat = ''event_invalid_format''"
| "category_as_str EventTimeSkew = ''event_time_skew''"
| "category_as_str EventPowInsufficient = ''event_pow_insufficient''"
| "category_as_str PexRejected = ''pex_rejected''"
| "category_as_str HttpRateLimited = ''http_rate_limited''"
| "category_as_str UrlWarning = ''url_warning''"
| "category_as_str KeyPermissionFixed = ''key_permission_fixed''"
| "category_as_str KeyPermissionUnfixable = ''key_permission_unfixable''"
| "category_as_str IndexTxtLanExposed = ''index_txt_lan_exposed''"

subsection \<open>Input validation helpers\<close>

definition exceeds_bytes :: "string \<Rightarrow> nat \<Rightarrow> bool" where
  "exceeds_bytes s n \<longleftrightarrow> length s > n"

definition strip_control_chars :: "string \<Rightarrow> string" where
  "strip_control_chars s = concat (filter (\<lambda>c. \<not> is_control c) (utf8_chars s))"

definition contains_control_chars :: "string \<Rightarrow> bool" where
  "contains_control_chars s \<longleftrightarrow> list_ex is_control (utf8_chars s)"

definition url_needs_warning :: "string \<Rightarrow> bool" where
  "url_needs_warning url = (let trimmed = trim url in
     if trimmed = [] then False
     else let lower = to_ascii_lowercase trimmed in
       \<not> (starts_with lower ''http://'' \<or> starts_with lower ''https://''))"

definition is_lower_hex_char :: "char \<Rightarrow> bool" where
  "is_lower_hex_char b \<longleftrightarrow> is_ascii_digit b \<or> CHR ''a'' \<le> b \<and> b \<le> CHR ''f''"

definition is_lower_hex :: "string \<Rightarrow> nat \<Rightarrow> bool" where
  "is_lower_hex s n \<longleftrightarrow> length s = n \<and> list_all is_lower_hex_char s"

lemma length_strip_control_chars: "length (strip_control_chars s) \<le> length s"
  using length_concat_filter_le [of _ "utf8_chars s"] by (simp add: strip_control_chars_def)

lemma strip_control_chars_clean:
  "str_wf s \<Longrightarrow> \<not> contains_control_chars (strip_control_chars s)"
  by (simp add: strip_control_chars_def contains_control_chars_def utf8_chars_filter list_ex_iff)

lemma strip_control_chars_id:
  "\<not> contains_control_chars s \<Longrightarrow> strip_control_chars s = s"
  by (simp add: strip_control_chars_def contains_control_chars_def list_ex_iff)

lemma str_wf_strip: "str_wf s \<Longrightarrow> str_wf (strip_control_chars s)"
  by (simp add: strip_control_chars_def utf8_chars_filter)

lemma printable_no_control:
  assumes "list_all (\<lambda>c. 32 \<le> byte_of c \<and> byte_of c < (127 :: nat)) s"
  shows "\<not> contains_control_chars s"
proof -
  have "utf8_chars s = map (\<lambda>c. [c]) s"
    using assms by (intro utf8_chars_ascii) (auto simp: list_all_iff)
  with assms show ?thesis
    by (auto simp: contains_control_chars_def list_ex_iff is_control_def code_point_def
        lead_bits_def list_all_iff Let_def)
qed

lemma digits_no_control: "list_all is_ascii_digit s \<Longrightarrow> \<not> contains_control_chars s"
  by (rule printable_no_control) (auto simp: list_all_iff is_ascii_digit_iff)

subsection \<open>Rotating file\<close>

definition DEFAULT_MAX_BYTES :: nat where
  "DEFAULT_MAX_BYTES = 10 * 1024 * 1024"

definition DEFAULT_GENERATIONS :: nat where
  "DEFAULT_GENERATIONS = 5"

definition AGGREGATION_WINDOW_SECS :: nat where
  "AGGREGATION_WINDOW_SECS = 10"

type_synonym log_fs = "nat \<rightharpoonup> string list"

record rotating_file =
  fs :: log_fs
  max_bytes :: nat
  generations :: nat
  current_len :: nat

definition file_len :: "string list \<Rightarrow> nat" where
  "file_len ls = sum_list (map (\<lambda>l. length l + 1) ls)"

definition rotating_file_new :: "log_fs \<Rightarrow> nat \<Rightarrow> nat \<Rightarrow> rotating_file" where
  "rotating_file_new files maxb gens =
     \<lparr>fs = files, max_bytes = maxb, generations = gens,
      current_len = (case files 0 of None \<Rightarrow> 0 | Some ls \<Rightarrow> file_len ls)\<rparr>"

text \<open>One step of the rename loop: generation \<open>i - 1\<close>, when it exists, becomes generation \<open>i\<close>.\<close>

definition rename_gen :: "nat \<Rightarrow> log_fs \<Rightarrow> log_fs" where
  "rename_gen i files = (case files (i - 1) of None \<Rightarrow> files
     | Some ls \<Rightarrow> files(i - 1 := None, i := Some ls))"

definition rotate_log :: "rotating_file \<Rightarrow> rotating_file" where
  "rotate_log f = (let files = (fs f)(generations f - 1 := None) in
     f\<lparr>fs := fold rename_gen (rev [1..<generations f]) files, current_len := 0\<rparr>)"

definition write_line :: "bool \<Rightarrow> string \<Rightarrow> rotating_file \<Rightarrow> rotating_file \<times> bool" where
  "write_line io_ok line f =
     (let bytes = length line + 1;
          f = (if current_len f > 0 \<and> current_len f + bytes > max_bytes f then rotate_log f else f)
      in if \<not> io_ok then (f, False)
         else (f\<lparr>fs := (fs f)(0 \<mapsto> (case fs f 0 of None \<Rightarrow> [] | Some ls \<Rightarrow> ls) @ [line]),
                 current_len := current_len f + bytes\<rparr>, True))"

subsection \<open>Security log\<close>

record aggregation_window =
  started_at :: nat
  suppressed :: nat

datatype log_entry =
  EventEntry nat security_category string string
| AggregatedEntry nat security_category string nat

type_synonym window_key = "security_category \<times> string"

record log_inner =
  log_file :: rotating_file
  windows :: "(window_key \<times> aggregation_window) list"

definition security_log_with_options :: "log_fs \<Rightarrow> nat \<Rightarrow> nat \<Rightarrow> log_inner" where
  "security_log_with_options files maxb gens =
     \<lparr>log_file = rotating_file_new files maxb (max gens 1), windows = []\<rparr>"

definition security_log_new :: "log_fs \<Rightarrow> log_inner" where
  "security_log_new files = security_log_with_options files DEFAULT_MAX_BYTES DEFAULT_GENERATIONS"

definition window_expired :: "nat \<Rightarrow> aggregation_window \<Rightarrow> bool" where
  "window_expired now w \<longleftrightarrow> now - started_at w \<ge> AGGREGATION_WINDOW_SECS"

definition flush_one ::
  "(log_entry \<Rightarrow> string) \<Rightarrow> bool \<Rightarrow> nat \<Rightarrow> window_key \<times> nat \<Rightarrow> log_inner \<times> log_entry list \<Rightarrow> log_inner \<times> log_entry list" where
  "flush_one json io_ok now e st = (case e of ((category, source), n) \<Rightarrow>
     case st of (inner, out) \<Rightarrow>
     let inner = inner\<lparr>windows := AList.delete (category, source) (windows inner)\<rparr> in
     if n > 0 then
       let entry = AggregatedEntry now category source n in
       (inner\<lparr>log_file := fst (write_line io_ok (json entry) (log_file inner))\<rparr>, out @ [entry])
     else (inner, out))"

definition flush_expired ::
  "(log_entry \<Rightarrow> string) \<Rightarrow> bool \<Rightarrow> nat \<Rightarrow> log_inner \<Rightarrow> log_inner \<times> log_entry list" where
  "flush_expired json io_ok now inner =
     fold (flush_one json io_ok now)
       (map (\<lambda>(k, w). (k, suppressed w)) (filter (\<lambda>(k, w). window_expired now w) (windows inner)))
       (inner, [])"

definition security_log ::
  "(log_entry \<Rightarrow> string) \<Rightarrow> bool \<Rightarrow> nat \<Rightarrow> security_category \<Rightarrow> string \<Rightarrow> string \<Rightarrow> log_inner \<Rightarrow>
     log_inner \<times> log_entry list" where
  "security_log json io_ok now category source detail inner0 =
     (case flush_expired json io_ok now inner0 of (inner, out) \<Rightarrow>
      let key = (category, source);
          write = (let entry = EventEntry now category source detail in
            (inner\<lparr>log_file := fst (write_line io_ok (json entry) (log_file inner)),
                   windows := AList.update key \<lparr>started_at = now, suppressed = 0\<rparr> (windows inner)\<rparr>,
             out @ [entry]))
      in (case map_of (windows inner) key of
            Some w \<Rightarrow> if now - started_at w < AGGREGATION_WINDOW_SECS
              then (inner\<lparr>windows := AList.update key (w\<lparr>suppressed := suppressed w + 1\<rparr>) (windows inner)\<rparr>, out)
              else write
          | None \<Rightarrow> write))"

definition security_log_flush ::
  "(log_entry \<Rightarrow> string) \<Rightarrow> bool \<Rightarrow> nat \<Rightarrow> log_inner \<Rightarrow> log_inner \<times> log_entry list" where
  "security_log_flush json io_ok now inner = flush_expired json io_ok now inner"

subsection \<open>Rotation: bounded files, bounded generations\<close>

definition rot_inv :: "rotating_file \<Rightarrow> bool" where
  "rot_inv f \<longleftrightarrow> 0 < generations f \<and> (\<forall>i \<ge> generations f. fs f i = None) \<and>
     current_len f = (case fs f 0 of None \<Rightarrow> 0 | Some ls \<Rightarrow> file_len ls) \<and>
     (\<forall>i ls. fs f i = Some ls \<longrightarrow> file_len ls \<le> max_bytes f \<or> length ls \<le> 1)"

lemma rename_gens:
  "files n = None \<Longrightarrow> fold rename_gen (rev [1..<Suc n]) files =
     (\<lambda>i. if i = 0 then None else if i \<le> n then files (i - 1) else files i)"
proof (induction n arbitrary: files)
  case 0
  then show ?case by (auto simp: fun_eq_iff)
next
  case (Suc n)
  have step: "rename_gen (Suc n) files = files(Suc n := files n, n := None)"
    using Suc.prems by (cases "files n") (auto simp: rename_gen_def fun_eq_iff)
  have "fold rename_gen (rev [1..<Suc (Suc n)]) files =
      fold rename_gen (rev [1..<Suc n]) (rename_gen (Suc n) files)"
    by simp
  also have "\<dots> = (\<lambda>i. if i = 0 then None else if i \<le> n then (rename_gen (Suc n) files) (i - 1)
      else (rename_gen (Suc n) files) i)"
    by (rule Suc.IH) (simp add: step)
  also have "\<dots> = (\<lambda>i. if i = 0 then None else if i \<le> Suc n then files (i - 1) else files i)"
    unfolding step by (rule ext) auto
  finally show ?case .
qed

lemma rotate_log_fs:
  assumes "0 < generations f"
  shows "fs (rotate_log f) = (\<lambda>i. if i = 0 then None else if i < generations f then fs f (i - 1) else fs f i)"
proof -
  obtain n where n: "generations f = Suc n" using assms by (cases "generations f") auto
  show ?thesis
    using rename_gens [of "(fs f)(n := None)" n] by (auto simp: rotate_log_def n fun_eq_iff Let_def)
qed

lemma rotate_log_other [simp]:
  "max_bytes (rotate_log f) = max_bytes f" "generations (rotate_log f) = generations f"
  "current_len (rotate_log f) = 0"
  by (simp_all add: rotate_log_def Let_def)

lemma rot_inv_rotate: "rot_inv f \<Longrightarrow> rot_inv (rotate_log f)"
  by (auto simp: rot_inv_def rotate_log_fs)

lemma rot_inv_append:
  assumes "rot_inv f" and "current_len f = 0 \<or> current_len f + (length line + 1) \<le> max_bytes f"
  shows "rot_inv (f\<lparr>fs := (fs f)(0 \<mapsto> (case fs f 0 of None \<Rightarrow> [] | Some ls \<Rightarrow> ls) @ [line]),
                    current_len := current_len f + (length line + 1)\<rparr>)"
proof (cases "fs f 0")
  case None
  with assms show ?thesis by (auto simp: rot_inv_def file_len_def)
next
  case (Some ls)
  have "ls = []" if "file_len ls = 0" using that by (cases ls) (auto simp: file_len_def)
  with Some assms show ?thesis by (auto simp: rot_inv_def file_len_def)
qed

lemma rot_inv_write_line: "rot_inv f \<Longrightarrow> rot_inv (fst (write_line io_ok line f))"
  using rot_inv_append [of "rotate_log f" line] rot_inv_append [of f line] rot_inv_rotate [of f]
  by (auto simp: write_line_def Let_def not_less)

lemma write_line_limits [simp]:
  "max_bytes (fst (write_line io_ok line f)) = max_bytes f"
  "generations (fst (write_line io_ok line f)) = generations f"
  by (simp_all add: write_line_def Let_def)

subsection \<open>Aggregation: nothing lost, at most one full entry per window\<close>

text \<open>What one flush writes and leaves, in closed form.\<close>

definition flush_entries :: "nat \<Rightarrow> (window_key \<times> nat) list \<Rightarrow> log_entry list" where
  "flush_entries now es = map (\<lambda>((c, src), n). AggregatedEntry now c src n) (filter (\<lambda>(k, n). n > 0) es)"

definition write_entries ::
  "(log_entry \<Rightarrow> string) \<Rightarrow> bool \<Rightarrow> log_entry list \<Rightarrow> rotating_file \<Rightarrow> rotating_file" where
  "write_entries json io_ok es f = fold (\<lambda>e f. fst (write_line io_ok (json e) f)) es f"

lemma flush_one_pair:
  "flush_one json io_ok now ((c, src), n) (inner, out) =
     (if n > 0 then (inner\<lparr>windows := AList.delete (c, src) (windows inner),
          log_file := fst (write_line io_ok (json (AggregatedEntry now c src n)) (log_file inner))\<rparr>,
          out @ [AggregatedEntry now c src n])
      else (inner\<lparr>windows := AList.delete (c, src) (windows inner)\<rparr>, out))"
  by (simp add: flush_one_def Let_def)

lemma fold_flush_one:
  "fold (flush_one json io_ok now) es (inner, out) =
     (inner\<lparr>windows := filter (\<lambda>(k, w). k \<notin> fst ` set es) (windows inner),
            log_file := write_entries json io_ok (flush_entries now es) (log_file inner)\<rparr>,
      out @ flush_entries now es)"
proof (induction es arbitrary: inner out)
  case Nil
  then show ?case by (simp add: flush_entries_def write_entries_def case_prod_unfold)
next
  case (Cons e es)
  obtain c src n where e: "e = ((c, src), n)" by (metis surj_pair)
  have "filter (\<lambda>(k, w). k \<notin> fst ` set es) (AList.delete (c, src) (windows inner)) =
      filter (\<lambda>(k, w). k \<notin> fst ` set (e # es)) (windows inner)"
    unfolding AList.delete_eq filter_filter by (rule filter_cong) (auto simp: e)
  then show ?case
    by (cases "n > 0")
      (simp_all add: Cons e flush_one_pair flush_entries_def write_entries_def case_prod_unfold)
qed

lemma filter_key_expired:
  assumes "distinct (map fst ws)"
  shows "filter (\<lambda>(k, w). k \<notin> fst ` set (map (\<lambda>(k, w). (k, g w)) (filter (\<lambda>(k, w). P w) ws))) ws =
    filter (\<lambda>(k, w). \<not> P w) ws"
proof (rule filter_cong)
  fix x assume x: "x \<in> set ws"
  obtain k w where xk: "x = (k, w)" by (cases x)
  have "P w" if "(k, w') \<in> set ws" "P w'" for w'
    using that x xk assms by (metis map_of_eq_Some_iff option.inject)
  with x xk show "(case x of (k, w) \<Rightarrow> k \<notin> fst ` set (map (\<lambda>(k, w). (k, g w)) (filter (\<lambda>(k, w). P w) ws)))
      = (case x of (k, w) \<Rightarrow> \<not> P w)"
    by force
qed simp

lemma flush_expired_eq:
  assumes "distinct (map fst (windows inner))"
  shows "flush_expired json io_ok now inner =
    (let es = flush_entries now (map (\<lambda>(k, w). (k, suppressed w))
                (filter (\<lambda>(k, w). window_expired now w) (windows inner))) in
     (inner\<lparr>windows := filter (\<lambda>(k, w). \<not> window_expired now w) (windows inner),
            log_file := write_entries json io_ok es (log_file inner)\<rparr>, es))"
  unfolding flush_expired_def fold_flush_one Let_def
    filter_key_expired [OF assms, where P = "window_expired now"] by simp

fun entry_count :: "window_key \<Rightarrow> log_entry \<Rightarrow> nat" where
  "entry_count k (EventEntry ts c src d) = (if k = (c, src) then 1 else 0)"
| "entry_count k (AggregatedEntry ts c src n) = (if k = (c, src) then n else 0)"

definition reported :: "window_key \<Rightarrow> log_entry list \<Rightarrow> nat" where
  "reported k es = sum_list (map (entry_count k) es)"

definition pending :: "window_key \<Rightarrow> log_inner \<Rightarrow> nat" where
  "pending k inner = (case map_of (windows inner) k of None \<Rightarrow> 0 | Some w \<Rightarrow> suppressed w)"

datatype log_call = LogCall bool nat security_category string string | FlushCall bool nat

fun log_step :: "(log_entry \<Rightarrow> string) \<Rightarrow> log_call \<Rightarrow> log_inner \<Rightarrow> log_inner \<times> log_entry list" where
  "log_step json (LogCall io_ok now c src d) inner = security_log json io_ok now c src d inner"
| "log_step json (FlushCall io_ok now) inner = security_log_flush json io_ok now inner"

fun run_log :: "(log_entry \<Rightarrow> string) \<Rightarrow> log_call list \<Rightarrow> log_inner \<Rightarrow> log_inner \<times> log_entry list" where
  "run_log json [] inner = (inner, [])"
| "run_log json (c # cs) inner =
     (let (inner1, out1) = log_step json c inner; (inner2, out2) = run_log json cs inner1
      in (inner2, out1 @ out2))"

fun call_time :: "log_call \<Rightarrow> nat" where
  "call_time (LogCall io_ok now c src d) = now"
| "call_time (FlushCall io_ok now) = now"

definition calls_for :: "window_key \<Rightarrow> log_call list \<Rightarrow> nat" where
  "calls_for k cs = length (filter (\<lambda>c. case c of LogCall io_ok now c src d \<Rightarrow> k = (c, src) | _ \<Rightarrow> False) cs)"

lemma reported_append [simp]: "reported k (xs @ ys) = reported k xs + reported k ys"
  and reported_Nil [simp]: "reported k [] = 0"
  and reported_Cons [simp]: "reported k (x # xs) = entry_count k x + reported k xs"
  by (simp_all add: reported_def)

lemma reported_flush_entries:
  "reported k (flush_entries now es) = sum_list (map snd (filter (\<lambda>(k', n). k' = k) es))"
  by (induction es) (auto simp: flush_entries_def)

lemma expired_sum:
  assumes "distinct (map fst ws)"
  shows "sum_list (map snd (filter (\<lambda>(k', n). k' = k)
      (map (\<lambda>(k, w). (k, g w)) (filter (\<lambda>(k, w). P w) ws)))) =
    (case map_of ws k of None \<Rightarrow> 0 | Some w \<Rightarrow> if P w then g w else (0::nat))"
  using assms
proof (induction ws)
  case (Cons x ws)
  obtain k' w where x: "x = (k', w)" by (cases x)
  have "map_of ws k' = None" using Cons.prems x by (simp add: map_of_eq_None_iff)
  with Cons x show ?case by (auto split: option.splits)
qed simp

lemma map_of_filter_value:
  "distinct (map fst ws) \<Longrightarrow> map_of (filter (\<lambda>(k, w). P w) ws) k =
     (case map_of ws k of None \<Rightarrow> None | Some w \<Rightarrow> if P w then Some w else None)"
proof (induction ws)
  case (Cons x ws)
  obtain k' w where x: "x = (k', w)" by (cases x)
  have "map_of ws k' = None" using Cons.prems x by (simp add: map_of_eq_None_iff)
  with Cons x show ?case by (auto split: option.splits)
qed simp

lemma distinct_filter_fst:
  "distinct (map fst ws) \<Longrightarrow> distinct (map fst (filter P ws))"
  by (metis distinct_map_filter)

lemma map_of_flushed:
  assumes "distinct (map fst (windows inner))"
  shows "map_of (windows (fst (flush_expired json io_ok now inner))) k =
     (case map_of (windows inner) k of None \<Rightarrow> None
      | Some w \<Rightarrow> if window_expired now w then None else Some w)"
  using assms by (simp add: flush_expired_eq Let_def map_of_filter_value split: option.splits)

lemma flush_expired_distinct:
  "distinct (map fst (windows inner)) \<Longrightarrow>
     distinct (map fst (windows (fst (flush_expired json io_ok now inner))))"
  by (simp add: flush_expired_eq Let_def distinct_filter_fst)

lemma flush_expired_count:
  assumes "distinct (map fst (windows inner))"
  shows "reported k (snd (flush_expired json io_ok now inner)) +
         pending k (fst (flush_expired json io_ok now inner)) = pending k inner"
proof -
  have "reported k (snd (flush_expired json io_ok now inner)) =
      (case map_of (windows inner) k of None \<Rightarrow> 0 | Some w \<Rightarrow> if window_expired now w then suppressed w else 0)"
    using assms by (simp add: flush_expired_eq Let_def reported_flush_entries expired_sum)
  then show ?thesis
    by (simp add: pending_def map_of_flushed [OF assms] split: option.splits)
qed

lemmas flush_expired_props = flush_expired_distinct flush_expired_count

lemma security_log_cases:
  assumes d: "distinct (map fst (windows inner))"
    and fl: "flush_expired json io_ok now inner = (fi, fo)"
  obtains (suppressed) w where "map_of (windows inner) (c, src) = Some w"
      "map_of (windows fi) (c, src) = Some w" "now - started_at w < AGGREGATION_WINDOW_SECS"
      "security_log json io_ok now c src dt inner =
        (fi\<lparr>windows := AList.update (c, src) (w\<lparr>suppressed := suppressed w + 1\<rparr>) (windows fi)\<rparr>, fo)"
  | (written) "map_of (windows fi) (c, src) = None"
      "security_log json io_ok now c src dt inner =
        (fi\<lparr>log_file := fst (write_line io_ok (json (EventEntry now c src dt)) (log_file fi)),
           windows := AList.update (c, src) \<lparr>started_at = now, suppressed = 0\<rparr> (windows fi)\<rparr>,
         fo @ [EventEntry now c src dt])"
proof (cases "map_of (windows fi) (c, src)")
  case None
  then show ?thesis
    by (intro written) (auto simp: security_log_def fl Let_def)
next
  case (Some w)
  then have w: "map_of (windows inner) (c, src) = Some w" "\<not> window_expired now w"
    using map_of_flushed [OF d, of json io_ok now "(c, src)"]
    by (auto simp: fl split: option.splits if_splits)
  from w(2) have "now - started_at w < AGGREGATION_WINDOW_SECS"
    by (simp add: window_expired_def)
  with w Some show ?thesis
    by (intro suppressed [of w]) (auto simp: security_log_def fl Let_def)
qed

lemma log_step_props:
  assumes d: "distinct (map fst (windows inner))" and step: "log_step json call inner = (inner', out)"
  shows "distinct (map fst (windows inner'))"
    and "reported k out + pending k inner' = pending k inner + calls_for k [call]"
proof -
  have "distinct (map fst (windows inner')) \<and>
    reported k out + pending k inner' = pending k inner + calls_for k [call]"
  proof (cases call)
    case (LogCall io_ok now c src dt)
    obtain fi fo where fl: "flush_expired json io_ok now inner = (fi, fo)" by fastforce
    note props = flush_expired_props [OF d, where json = json and io_ok = io_ok and now = now, unfolded fl fst_conv snd_conv]
    from step LogCall have log: "security_log json io_ok now c src dt inner = (inner', out)" by simp
    show ?thesis
    proof (cases rule: security_log_cases [OF d fl, where c = c and src = src and dt = dt])
      case (1 w)
      from 1 log have "inner' = fi\<lparr>windows := AList.update (c, src) (w\<lparr>suppressed := suppressed w + 1\<rparr>) (windows fi)\<rparr>"
        "out = fo" by simp_all
      with props(1) props(2) [of k] 1(1,2) LogCall show ?thesis
        by (cases "k = (c, src)") (simp_all add: pending_def update_conv' calls_for_def)
    next
      case 2
      from 2 log have "windows inner' = AList.update (c, src) \<lparr>started_at = now, suppressed = 0\<rparr> (windows fi)"
        "out = fo @ [EventEntry now c src dt]" by auto
      with props(1) props(2) [of k] 2(1) LogCall show ?thesis
        by (cases "k = (c, src)") (simp_all add: pending_def update_conv' calls_for_def)
    qed
  next
    case (FlushCall io_ok now)
    with flush_expired_props [OF d, where json = json and io_ok = io_ok and now = now] step show ?thesis
      by (auto simp: security_log_flush_def calls_for_def)
  qed
  then show "distinct (map fst (windows inner'))"
    "reported k out + pending k inner' = pending k inner + calls_for k [call]" by auto
qed

lemma run_log_props:
  assumes "distinct (map fst (windows inner))" and "run_log json cs inner = (inner', out)"
  shows "reported k out + pending k inner' = pending k inner + calls_for k cs"
  using assms
proof (induction cs arbitrary: inner inner' out)
  case (Cons c cs)
  obtain i1 o1 where step: "log_step json c inner = (i1, o1)" by fastforce
  obtain i2 o2 where run: "run_log json cs i1 = (i2, o2)" by fastforce
  note s = log_step_props [OF Cons.prems(1) step]
  have "reported k o2 + pending k i2 = pending k i1 + calls_for k cs"
    by (rule Cons.IH [OF s(1) run])
  with s(2) [of k] Cons.prems(2) step run show ?case
    by (auto simp: calls_for_def)
qed (simp add: calls_for_def)

subsection \<open>Spacing of the full entries\<close>

definition full_times :: "window_key \<Rightarrow> log_entry list \<Rightarrow> nat list" where
  "full_times k es = List.map_filter (\<lambda>e. case e of
     EventEntry ts c src d \<Rightarrow> if k = (c, src) then Some ts else None
   | AggregatedEntry ts c src n \<Rightarrow> None) es"

lemma full_times_simps [simp]:
  "full_times k [] = []"
  "full_times k (xs @ ys) = full_times k xs @ full_times k ys"
  "full_times k [EventEntry ts c src d] = (if k = (c, src) then [ts] else [])"
  by (simp_all add: full_times_def List.map_filter_def)

lemma full_times_flush:
  assumes "distinct (map fst (windows inner))"
  shows "full_times k (snd (flush_expired json io_ok now inner)) = []"
  using assms by (auto simp: flush_expired_eq Let_def full_times_def List.map_filter_def
      flush_entries_def filter_empty_conv)

definition open_window :: "window_key \<Rightarrow> log_inner \<Rightarrow> nat option" where
  "open_window k inner = map_option started_at (map_of (windows inner) k)"

text \<open>How one call moves the window of a key and what it writes for that key.\<close>

lemma log_step_window:
  assumes d: "distinct (map fst (windows inner))" and step: "log_step json call inner = (inner', out)"
  shows "full_times k out = [] \<and> open_window k inner' = open_window k inner \<or>
    full_times k out = [] \<and> open_window k inner' = None \<and>
      (\<exists>t. open_window k inner = Some t \<and> t + AGGREGATION_WINDOW_SECS \<le> call_time call) \<or>
    full_times k out = [call_time call] \<and> open_window k inner' = Some (call_time call) \<and>
      (\<forall>t. open_window k inner = Some t \<longrightarrow> t + AGGREGATION_WINDOW_SECS \<le> call_time call)"
proof -
  have fw: "open_window k (fst (flush_expired json io_ok now inner)) =
     (case open_window k inner of None \<Rightarrow> None
      | Some t \<Rightarrow> if now - t \<ge> AGGREGATION_WINDOW_SECS then None else Some t)" for io_ok now
    by (simp add: open_window_def map_of_flushed [OF d] window_expired_def split: option.splits)
  have pos: "0 < AGGREGATION_WINDOW_SECS" by (simp add: AGGREGATION_WINDOW_SECS_def)
  show ?thesis
  proof (cases call)
    case (LogCall io_ok now c src dt)
    obtain fi fo where fl: "flush_expired json io_ok now inner = (fi, fo)" by fastforce
    from step LogCall have log: "security_log json io_ok now c src dt inner = (inner', out)" by simp
    have fo: "full_times k fo = []" using full_times_flush [OF d, of k json io_ok now] fl by simp
    show ?thesis
    proof (cases rule: security_log_cases [OF d fl, where c = c and src = src and dt = dt])
      case (1 w)
      from 1 log have "out = fo" "open_window k inner' = open_window k fi"
        by (auto simp: open_window_def update_conv')
      with fo fw [of io_ok now] fl LogCall pos show ?thesis by (auto split: option.splits if_splits)
    next
      case 2
      from 2 log have "out = fo @ [EventEntry now c src dt]"
        "open_window k inner' = (if k = (c, src) then Some now else open_window k fi)"
        "k = (c, src) \<longrightarrow> open_window k fi = None"
        by (auto simp: open_window_def update_conv')
      with fo fw [of io_ok now] fl LogCall pos show ?thesis by (auto split: option.splits if_splits)
    qed
  next
    case (FlushCall io_ok now)
    with step fw [of io_ok now] full_times_flush [OF d, of k json io_ok now] pos show ?thesis
      by (auto simp: security_log_flush_def split: option.splits if_splits)
  qed
qed

text \<open>The log provides the suppression interface: the window of a category and source is the
  period during which only counts are kept.\<close>

interpretation log_windows: suppression
  "\<lambda>c inner. fst (log_step json c inner)" call_time
  "\<lambda>k c inner. full_times k (snd (log_step json c inner)) \<noteq> []"
  open_window "\<lambda>_. AGGREGATION_WINDOW_SECS" "\<lambda>inner. distinct (map fst (windows inner))"
  for json
proof
  fix k :: window_key and c :: log_call and s :: log_inner
  assume d: "distinct (map fst (windows s))"
  obtain s' out where step: "log_step json c s = (s', out)" by fastforce
  show "distinct (map fst (windows (fst (log_step json c s))))"
    using log_step_props(1) [OF d step] step by simp
  note w = log_step_window [OF d step, of k]
  show "open_window k (fst (log_step json c s)) = open_window k s \<or>
      open_window k (fst (log_step json c s)) = None \<and>
      (\<exists>t. open_window k s = Some t \<and> t + AGGREGATION_WINDOW_SECS \<le> call_time c)"
    if "\<not> full_times k (snd (log_step json c s)) \<noteq> []"
    using that w step by auto
  show "open_window k (fst (log_step json c s)) = Some (call_time c) \<and>
      (\<forall>t. open_window k s = Some t \<longrightarrow> t + AGGREGATION_WINDOW_SECS \<le> call_time c)"
    if "full_times k (snd (log_step json c s)) \<noteq> []"
    using that w step by auto
qed simp

lemma run_log_full_times:
  assumes "distinct (map fst (windows inner))" and "run_log json cs inner = (inner', out)"
  shows "full_times k out = fire_times (\<lambda>c inner. fst (log_step json c inner))
    (\<lambda>c inner. full_times k (snd (log_step json c inner)) \<noteq> []) call_time cs inner"
  using assms
proof (induction cs arbitrary: inner inner' out)
  case (Cons c cs)
  obtain i1 o1 where step: "log_step json c inner = (i1, o1)" by fastforce
  obtain i2 o2 where run: "run_log json cs i1 = (i2, o2)" by fastforce
  have "full_times k o1 = (if full_times k o1 \<noteq> [] then [call_time c] else [])"
    using log_step_window [OF Cons.prems(1) step, of k] by auto
  moreover have "out = o1 @ o2" using Cons.prems(2) step run by simp
  ultimately show ?case
    using Cons.IH [OF log_step_props(1) [OF Cons.prems(1) step] run] step by simp
qed simp

subsection \<open>Properties of the log\<close>

lemma log_step_file:
  "rot_inv (log_file inner) \<Longrightarrow> distinct (map fst (windows inner)) \<Longrightarrow>
     log_step json call inner = (inner', out) \<Longrightarrow>
     rot_inv (log_file inner') \<and> max_bytes (log_file inner') = max_bytes (log_file inner) \<and>
     generations (log_file inner') = generations (log_file inner)"
proof -
  assume r: "rot_inv (log_file inner)" and d: "distinct (map fst (windows inner))"
    and step: "log_step json call inner = (inner', out)"
  have w: "rot_inv f \<Longrightarrow> rot_inv (write_entries json io_ok es f) \<and>
      max_bytes (write_entries json io_ok es f) = max_bytes f \<and>
      generations (write_entries json io_ok es f) = generations f" for io_ok es f
    by (induction es arbitrary: f) (auto simp: write_entries_def rot_inv_write_line)
  have fl: "rot_inv (log_file fi) \<and> max_bytes (log_file fi) = max_bytes (log_file inner) \<and>
      generations (log_file fi) = generations (log_file inner)"
    if "flush_expired json io_ok now inner = (fi, fo)" for io_ok now fi fo
    using that w [OF r] by (auto simp: flush_expired_eq [OF d] Let_def)
  show ?thesis
  proof (cases call)
    case (LogCall io_ok now c src dt)
    obtain fi fo where f: "flush_expired json io_ok now inner = (fi, fo)" by fastforce
    show ?thesis
      by (cases rule: security_log_cases [OF d f, where c = c and src = src and dt = dt])
        (use fl [OF f] step LogCall in \<open>auto simp: rot_inv_write_line\<close>)
  next
    case (FlushCall io_ok now)
    with step fl show ?thesis by (simp add: security_log_flush_def)
  qed
qed

lemma run_log_file:
  assumes "rot_inv (log_file inner)" and "distinct (map fst (windows inner))"
    and "run_log json cs inner = (inner', out)"
  shows "rot_inv (log_file inner') \<and> max_bytes (log_file inner') = max_bytes (log_file inner) \<and>
     generations (log_file inner') = generations (log_file inner)"
  using assms
proof (induction cs arbitrary: inner out)
  case (Cons c cs)
  obtain i1 o1 where step: "log_step json c inner = (i1, o1)" by fastforce
  with Cons.prems obtain o2 where run: "run_log json cs i1 = (inner', o2)"
    by (auto split: prod.splits)
  note f = log_step_file [OF Cons.prems(1,2) step]
  from f have "rot_inv (log_file i1)" by simp
  from Cons.IH [OF this log_step_props(1) [OF Cons.prems(2) step] run] f show ?case by simp
qed simp



text \<open>The log cannot fill the disk with one source's events. Whatever the calls, with a clock
  that does not go back, two full entries of the same category and source are at least the
  aggregation window (ten seconds) apart; in between only counts are kept.\<close>

theorem security_log_spacing:
  assumes "run_log json cs (security_log_with_options files maxb gens) = (inner, out)"
    and "sorted (map call_time cs)"
  shows "sorted_wrt (\<lambda>a b. a + AGGREGATION_WINDOW_SECS \<le> b) (full_times k out)"
proof -
  have d: "distinct (map fst (windows (security_log_with_options files maxb gens)))"
    by (simp add: security_log_with_options_def)
  show ?thesis
    using log_windows.spacing [OF d assms(2)] by (simp add: run_log_full_times [OF d assms(1)])
qed

theorem security_log_spacing_witness:
  "let cs = [LogCall True 100 PcpReject ''a'' ''x'', LogCall True 104 PcpReject ''a'' ''y'',
             LogCall True 115 PcpReject ''a'' ''z'']
   in case run_log (\<lambda>e. ''line'') cs (security_log_with_options Map.empty 1000 5) of (inner, out) \<Rightarrow>
     sorted_wrt (\<lambda>a b. a + AGGREGATION_WINDOW_SECS \<le> b) (full_times (PcpReject, ''a'') out)"
proof -
  define cs where "cs = [LogCall True 100 PcpReject ''a'' ''x'', LogCall True 104 PcpReject ''a'' ''y'',
             LogCall True 115 PcpReject ''a'' ''z'']"
  obtain inner out where run: "run_log (\<lambda>e. ''line'') cs (security_log_with_options Map.empty 1000 5) = (inner, out)"
    by fastforce
  have "sorted (map call_time cs)" by (simp add: cs_def)
  from security_log_spacing [OF run this, of "(PcpReject, ''a'')"] run show ?thesis
    unfolding Let_def cs_def [symmetric] by simp
qed

text \<open>The log's disk use is bounded. Starting without log files, after any calls only
  generations below the configured number exist, and each of them is within the size limit
  unless it consists of a single line that alone exceeds it.\<close>

theorem security_log_disk_bounded:
  assumes "run_log json cs (security_log_with_options Map.empty maxb gens) = (inner, out)"
    and "fs (log_file inner) i = Some ls"
  shows "i < max gens 1 \<and> (file_len ls \<le> maxb \<or> length ls \<le> 1)"
proof -
  have "rot_inv (rotating_file_new Map.empty maxb (max gens 1))"
    by (simp add: rot_inv_def rotating_file_new_def)
  then have "rot_inv (log_file inner) \<and> max_bytes (log_file inner) = maxb \<and>
      generations (log_file inner) = max gens 1"
    using run_log_file [OF _ _ assms(1)]
    by (simp add: security_log_with_options_def rotating_file_new_def)
  with assms(2) show ?thesis
    by (metis rot_inv_def not_le option.distinct(1))
qed

theorem security_log_disk_bounded_witness:
  "case run_log (\<lambda>e. ''line'') [LogCall True 100 PcpReject ''a'' ''x'', LogCall True 100 UrlWarning ''a'' ''y'',
        LogCall True 115 PcpReject ''a'' ''z''] (security_log_with_options Map.empty 10 2) of (inner, out) \<Rightarrow>
     fs (log_file inner) 1 = Some [''line'', ''line''] \<and>
     file_len [''line'', ''line''] \<le> 10"
proof -
  define cs where "cs = [LogCall True 100 PcpReject ''a'' ''x'', LogCall True 100 UrlWarning ''a'' ''y'',
             LogCall True 115 PcpReject ''a'' ''z'']"
  obtain inner out where run: "run_log (\<lambda>e. ''line'') cs (security_log_with_options Map.empty 10 2) = (inner, out)"
    by fastforce
  have f: "fs (log_file inner) 1 = Some [''line'', ''line'']"
    using run by (auto simp: cs_def security_log_with_options_def security_log_def flush_expired_def
        flush_one_def window_expired_def AGGREGATION_WINDOW_SECS_def Let_def rotating_file_new_def
        write_line_def rotate_log_def rename_gen_def upt_rec)
  with security_log_disk_bounded [OF run f] run show ?thesis
    by (simp add: cs_def)
qed

end
