(* ===== verification/P2p_Frame.thy ===== *)
theory P2p_Frame
  imports Yp_Security
begin

text \<open>
  The framing of the gossip wire protocol (\<open>src/p2p/frame.rs\<close>): a four-byte big-endian length and
  a JSON payload. The reader is the sequence of results its \<open>read\<close> calls can draw on: chunks of
  bytes, in the sizes in which they arrive, or a failure; the end of the sequence is the end of the
  stream. \<open>serde_json\<close> is a parameter (\<open>to_vec\<close>, \<open>from_slice\<close>), and the type of an event's JSON
  value is a type variable.

  The lemmas show that reading does not depend on how the bytes are split into chunks, that an
  oversized frame is refused before its payload is read, and that encoded messages are read back
  in order. The locale \<open>stream_codec\<close> is the contract of an encoder and a decoder on a byte stream;
  it is interpreted here for frames and in \<open>Pcp_Atom\<close> for atoms.
\<close>

subsection \<open>Codecs on byte streams\<close>

fun decode_all :: "nat \<Rightarrow> (bytes \<Rightarrow> ('m \<times> bytes) option) \<Rightarrow> bytes \<Rightarrow> 'm list" where
  "decode_all 0 dec bs = []"
| "decode_all (Suc n) dec bs = (case dec bs of None \<Rightarrow> [] | Some (m, rest) \<Rightarrow> m # decode_all n dec rest)"

locale stream_codec =
  fixes enc :: "'m \<Rightarrow> bytes option"
    and dec :: "bytes \<Rightarrow> ('m \<times> bytes) option"
    and ok :: "'m \<Rightarrow> bool"
  assumes dec_enc: "ok m \<Longrightarrow> enc m = Some b \<Longrightarrow> dec (b @ rest) = Some (m, rest)"
begin

lemma decode_sequence:
  assumes "list_all2 (\<lambda>m b. ok m \<and> enc m = Some b) ms bs"
  shows "decode_all (length ms) dec (concat bs @ rest) = ms"
  using assms by (induction rule: list_all2_induct) (auto simp: dec_enc)

lemma enc_prefix_free:
  assumes "ok m" and "ok m'" and "enc m = Some b" and "enc m' = Some (b @ c)"
  shows "m = m' \<and> c = []"
  using dec_enc [OF assms(1,3), of c] dec_enc [OF assms(2,4), of "[]"] by simp

end

subsection \<open>Messages\<close>

definition MAX_FRAME_PAYLOAD :: nat where
  "MAX_FRAME_PAYLOAD = 64 * 1024"

record hello =
  he_version :: nat
  he_listen_port :: nat
  he_features :: "string list"
  he_nonce :: nat
  he_ts :: int

datatype 'v message =
  Hello hello | HelloAck hello | EventMsg 'v | SyncReq int | SyncDone nat | GetPeers
| PeersMsg "string list" | Ping nat | Pong nat | Close string

definition INCOMPATIBLE :: string where
  "INCOMPATIBLE = ''incompatible''"

definition INVALID_FRAME :: string where
  "INVALID_FRAME = ''invalid_frame''"

definition OVERSIZE :: string where
  "OVERSIZE = ''oversize''"

definition RATE_LIMITED :: string where
  "RATE_LIMITED = ''rate_limited''"

definition SELF_CONNECT :: string where
  "SELF_CONNECT = ''self_connect''"

definition GOING_AWAY :: string where
  "GOING_AWAY = ''going_away''"

record 'v incoming_frame =
  in_message :: "'v message"
  in_wire_len :: nat

datatype frame_error = FrameClosed | Truncated | FrameOversize | InvalidFrame | FrameIo

fun frame_error_security :: "frame_error \<Rightarrow> (security_category \<times> string) option" where
  "frame_error_security FrameOversize = Some (P2pOversize, OVERSIZE)"
| "frame_error_security InvalidFrame = Some (P2pInvalidFrame, INVALID_FRAME)"
| "frame_error_security FrameClosed = None"
| "frame_error_security Truncated = None"
| "frame_error_security FrameIo = None"

subsection \<open>Reading\<close>

datatype read_result = Data bytes | Failed

type_synonym reader = "read_result list"

text \<open>\<open>AsyncRead::read\<close> into a buffer of \<open>n\<close> bytes: what one call yields.\<close>

fun read_some :: "nat \<Rightarrow> reader \<Rightarrow> (frame_error + bytes) \<times> reader" where
  "read_some n [] = (Inr [], [])"
| "read_some n (Failed # r) = (Inl FrameIo, r)"
| "read_some n (Data b # r) = (Inr (take n b), if n < length b then Data (drop n b) # r else r)"

lemma read_some_length: "read_some n r = (Inr b, r') \<Longrightarrow> length b \<le> n"
  by (cases r rule: list.exhaust; cases "hd r") auto

text \<open>The loop of \<open>read_exact_or_eof\<close>: \<open>want\<close> bytes are still missing, \<open>got\<close> have been read.\<close>

function fill :: "nat \<Rightarrow> bytes \<Rightarrow> reader \<Rightarrow> (frame_error + bytes option) \<times> reader" where
  "fill want got r = (if want = 0 then (Inr (Some got), r) else
     case read_some want r of
       (Inl e, r') \<Rightarrow> (Inl e, r')
     | (Inr b, r') \<Rightarrow> if b = [] then (if got = [] then (Inr None, r') else (Inl Truncated, r'))
                     else fill (want - length b) (got @ b) r')"
  by pat_completeness auto
termination
  by (relation "measure (\<lambda>(want, got, r). want)") auto

declare fill.simps [simp del]

definition read_exact_or_eof :: "nat \<Rightarrow> reader \<Rightarrow> (frame_error + bytes option) \<times> reader" where
  "read_exact_or_eof n r = fill n [] r"

definition u32_from_be :: "bytes \<Rightarrow> nat" where
  "u32_from_be bs = foldl (\<lambda>a b. a * 256 + unat b) 0 bs"

definition u32_to_be :: "nat \<Rightarrow> bytes" where
  "u32_to_be n = map (\<lambda>i. word_of_nat (n div 256 ^ i)) [3, 2, 1, 0]"

definition decode_payload :: "(bytes \<Rightarrow> 'v message option) \<Rightarrow> bytes \<Rightarrow> frame_error + 'v message" where
  "decode_payload from_slice payload = ok_or (from_slice payload) InvalidFrame"

definition read_frame ::
  "(bytes \<Rightarrow> 'v message option) \<Rightarrow> reader \<Rightarrow> (frame_error + 'v incoming_frame option) \<times> reader" where
  "read_frame from_slice r = (case read_exact_or_eof 4 r of
     (Inl e, r1) \<Rightarrow> (Inl e, r1)
   | (Inr None, r1) \<Rightarrow> (Inr None, r1)
   | (Inr (Some len_buf), r1) \<Rightarrow>
       let len = u32_from_be len_buf in
       if len > MAX_FRAME_PAYLOAD then (Inl FrameOversize, r1)
       else case read_exact_or_eof len r1 of
         (Inl e, r2) \<Rightarrow> (Inl e, r2)
       | (Inr None, r2) \<Rightarrow> (Inl Truncated, r2)
       | (Inr (Some payload), r2) \<Rightarrow>
           (and_then (decode_payload from_slice payload)
              (\<lambda>m. Inr (Some \<lparr>in_message = m, in_wire_len = 4 + len\<rparr>)), r2))"

definition encode_frame :: "('v message \<Rightarrow> bytes option) \<Rightarrow> 'v message \<Rightarrow> frame_error + bytes" where
  "encode_frame to_vec m = and_then (ok_or (to_vec m) InvalidFrame) (\<lambda>payload.
     if length payload > MAX_FRAME_PAYLOAD then Inl FrameOversize
     else Inr (u32_to_be (length payload) @ payload))"

text \<open>Writing appends the frame to the peer's input; \<open>io_ok\<close> tells whether the transport accepts it.\<close>

definition write_frame ::
  "('v message \<Rightarrow> bytes option) \<Rightarrow> bool \<Rightarrow> 'v message \<Rightarrow> bytes \<Rightarrow> (frame_error + unit) \<times> bytes" where
  "write_frame to_vec io_ok m wire = (case encode_frame to_vec m of
     Inl e \<Rightarrow> (Inl e, wire)
   | Inr b \<Rightarrow> if io_ok then (Inr (), wire @ b) else (Inl FrameIo, wire))"

subsection \<open>Reading is independent of the chunks\<close>

fun chunk_bytes :: "reader \<Rightarrow> bytes" where
  "chunk_bytes [] = []"
| "chunk_bytes (Data b # r) = b @ chunk_bytes r"
| "chunk_bytes (Failed # r) = []"

definition clean_reader :: "reader \<Rightarrow> bool" where
  "clean_reader r \<longleftrightarrow> (\<forall>x \<in> set r. \<exists>b. x = Data b \<and> b \<noteq> [])"

lemma clean_reader_simps [simp]:
  "clean_reader []"
  "clean_reader (Data b # r) \<longleftrightarrow> b \<noteq> [] \<and> clean_reader r"
  "\<not> clean_reader (Failed # r)"
  by (auto simp: clean_reader_def)

lemma read_some_clean:
  assumes "clean_reader r" and "0 < n"
  obtains b r' where "read_some n r = (Inr b, r')" "clean_reader r'" "chunk_bytes r = b @ chunk_bytes r'"
    "length b \<le> n" "b = [] \<longleftrightarrow> r = []"
proof (cases r)
  case Nil
  then show ?thesis by (intro that [of "[]" "[]"]) auto
next
  case (Cons x xs)
  with assms obtain b where x: "x = Data b" "b \<noteq> []" by (cases x) auto
  with assms Cons show ?thesis
    by (intro that [of "take n b" "if n < length b then Data (drop n b) # xs else xs"])
      (auto simp flip: append_assoc)
qed

lemma chunk_bytes_Nil [simp]: "clean_reader r \<Longrightarrow> chunk_bytes r = [] \<longleftrightarrow> r = []"
  by (cases r rule: chunk_bytes.cases) auto

lemma fill_clean:
  "clean_reader r \<Longrightarrow> \<exists>r'. fill want got r =
     (if want \<le> length (chunk_bytes r) then Inr (Some (got @ take want (chunk_bytes r)))
      else if got = [] \<and> r = [] then Inr None else Inl Truncated, r') \<and> clean_reader r' \<and>
      chunk_bytes r' = drop want (chunk_bytes r)"
proof (induction want got r rule: fill.induct)
  case (1 want got r)
  show ?case
  proof (cases "want = 0")
    case True
    then show ?thesis using 1(2) by (subst fill.simps) auto
  next
    case False
    then obtain b r' where rs: "read_some want r = (Inr b, r')" "clean_reader r'"
      "chunk_bytes r = b @ chunk_bytes r'" "length b \<le> want" "b = [] \<longleftrightarrow> r = []"
      using read_some_clean [OF 1(2), of want] by blast
    show ?thesis
    proof (cases "b = []")
      case True
      with rs have "r' = []" "r = []" by auto
      with True False rs show ?thesis by (subst fill.simps) auto
    next
      case b: False
      from 1(1) [OF False rs(1) [symmetric] refl b rs(2)] obtain r'' where IH:
        "fill (want - length b) (got @ b) r' =
          (if want - length b \<le> length (chunk_bytes r') then Inr (Some ((got @ b) @ take (want - length b) (chunk_bytes r')))
           else if got @ b = [] \<and> r' = [] then Inr None else Inl Truncated, r'')"
        "clean_reader r''" "chunk_bytes r'' = drop (want - length b) (chunk_bytes r')" by blast
      have "fill want got r = fill (want - length b) (got @ b) r'"
        using False b rs(1) by (subst fill.simps) simp
      with IH rs b show ?thesis by (intro exI [of _ r'']) auto
    qed
  qed
qed

text \<open>The frame reader on the flat byte sequence.\<close>

definition parse_frame :: "(bytes \<Rightarrow> 'v message option) \<Rightarrow> bytes \<Rightarrow> frame_error + 'v incoming_frame option" where
  "parse_frame from_slice bs =
     (if bs = [] then Inr None
      else if length bs < 4 then Inl Truncated
      else let len = u32_from_be (take 4 bs) in
        if len > MAX_FRAME_PAYLOAD then Inl FrameOversize
        else if length (drop 4 bs) < len then Inl Truncated
        else and_then (decode_payload from_slice (take len (drop 4 bs)))
          (\<lambda>m. Inr (Some \<lparr>in_message = m, in_wire_len = 4 + len\<rparr>)))"

lemma read_frame_clean:
  assumes "clean_reader r"
  shows "\<exists>r'. read_frame from_slice r = (parse_frame from_slice (chunk_bytes r), r') \<and> clean_reader r' \<and>
    (\<forall>f. parse_frame from_slice (chunk_bytes r) = Inr (Some f) \<longrightarrow>
       chunk_bytes r' = drop (in_wire_len f) (chunk_bytes r))"
proof -
  from fill_clean [OF assms, of 4 "[]"] obtain r1 where r1: "read_exact_or_eof 4 r =
     (if 4 \<le> length (chunk_bytes r) then Inr (Some (take 4 (chunk_bytes r)))
      else if r = [] then Inr None else Inl Truncated, r1)" "clean_reader r1"
      "chunk_bytes r1 = drop 4 (chunk_bytes r)"
    by (auto simp: read_exact_or_eof_def)
  let ?len = "u32_from_be (take 4 (chunk_bytes r))"
  from fill_clean [OF r1(2), of ?len "[]"] obtain r2 where r2: "read_exact_or_eof ?len r1 =
     (if ?len \<le> length (chunk_bytes r1) then Inr (Some (take ?len (chunk_bytes r1)))
      else if r1 = [] then Inr None else Inl Truncated, r2)" "clean_reader r2"
      "chunk_bytes r2 = drop ?len (chunk_bytes r1)"
    by (auto simp: read_exact_or_eof_def)
  show ?thesis
  proof (cases "4 \<le> length (chunk_bytes r)")
    case False
    with r1 chunk_bytes_Nil [OF assms] show ?thesis
      by (auto simp: read_frame_def parse_frame_def)
  next
    case True
    then have "chunk_bytes r \<noteq> []" by auto
    with True r1 r2 show ?thesis
      by (auto simp: read_frame_def parse_frame_def Let_def and_then_def add.commute split: sum.splits)
  qed
qed

subsection \<open>Encoding and decoding\<close>

lemma length_u32_to_be [simp]: "length (u32_to_be n) = 4"
  by (simp add: u32_to_be_def)

lemma u32_from_to_be: "n < 2 ^ 32 \<Longrightarrow> u32_from_be (u32_to_be n) = n"
proof -
  assume n: "n < 2 ^ 32"
  have "unat (word_of_nat m :: u8) = m mod 256" for m by (simp add: unat_of_nat)
  then have "u32_from_be (u32_to_be n) =
      ((n div 256 ^ 3 mod 256 * 256 + n div 256 ^ 2 mod 256) * 256 + n div 256 mod 256) * 256 + n mod 256"
    by (simp add: u32_from_be_def u32_to_be_def)
  also have "\<dots> = n"
  proof -
    have e: "n div 256 ^ 3 = n div 256 div 256 div 256" "n div 256 ^ 2 = n div 256 div 256"
      by (simp_all flip: div_mult2_eq)
    have "n div 256 div 256 div 256 < 256" using n by (simp add: less_mult_imp_div_less)
    then have "n div 256 div 256 div 256 mod 256 = n div 256 div 256 div 256" by simp
    then show ?thesis unfolding e by (simp only: div_mult_mod_eq)
  qed
  finally show ?thesis .
qed

definition frame_enc :: "('v message \<Rightarrow> bytes option) \<Rightarrow> 'v message \<Rightarrow> bytes option" where
  "frame_enc to_vec m = (case encode_frame to_vec m of Inl e \<Rightarrow> None | Inr b \<Rightarrow> Some b)"

definition frame_dec :: "(bytes \<Rightarrow> 'v message option) \<Rightarrow> bytes \<Rightarrow> ('v message \<times> bytes) option" where
  "frame_dec from_slice bs = (case parse_frame from_slice bs of
     Inr (Some f) \<Rightarrow> Some (in_message f, drop (in_wire_len f) bs) | _ \<Rightarrow> None)"

lemma parse_encoded_frame:
  assumes "encode_frame to_vec m = Inr b" and "\<And>p. to_vec m = Some p \<Longrightarrow> from_slice p = Some m"
  shows "parse_frame from_slice (b @ rest) = Inr (Some \<lparr>in_message = m, in_wire_len = length b\<rparr>)"
proof -
  from assms(1) obtain p where p: "to_vec m = Some p" "length p \<le> MAX_FRAME_PAYLOAD"
    "b = u32_to_be (length p) @ p"
    by (auto simp: encode_frame_def and_then_Inr_iff ok_or_Inr_iff split: if_splits)
  have len: "u32_from_be (u32_to_be (length p)) = length p"
    using p(2) by (intro u32_from_to_be) (simp add: MAX_FRAME_PAYLOAD_def)
  have "u32_to_be (length p) \<noteq> []" using length_u32_to_be by (metis list.size(3) zero_neq_numeral)
  with p assms(2) len show ?thesis
    by (simp add: parse_frame_def decode_payload_def)
qed

interpretation frames: stream_codec "frame_enc to_vec" "frame_dec from_slice"
  "\<lambda>m. \<forall>p. to_vec m = Some p \<longrightarrow> from_slice p = Some m"
  for to_vec :: "'v message \<Rightarrow> bytes option" and from_slice
  by unfold_locales
    (auto simp: frame_enc_def frame_dec_def parse_encoded_frame split: sum.splits)

text \<open>Reading as many frames as a stream has, with the wire length each one is charged with.\<close>

fun read_frames :: "nat \<Rightarrow> (bytes \<Rightarrow> 'v message option) \<Rightarrow> reader \<Rightarrow> 'v message list" where
  "read_frames 0 from_slice r = []"
| "read_frames (Suc n) from_slice r = (case read_frame from_slice r of
     (Inr (Some f), r') \<Rightarrow> in_message f # read_frames n from_slice r' | _ \<Rightarrow> [])"

lemma read_frames_decode_all:
  "clean_reader r \<Longrightarrow> read_frames n from_slice r = decode_all n (frame_dec from_slice) (chunk_bytes r)"
proof (induction n arbitrary: r)
  case (Suc n)
  from read_frame_clean [OF Suc.prems, of from_slice] obtain r' where r':
    "read_frame from_slice r = (parse_frame from_slice (chunk_bytes r), r')" "clean_reader r'"
    "\<And>f. parse_frame from_slice (chunk_bytes r) = Inr (Some f) \<Longrightarrow>
       chunk_bytes r' = drop (in_wire_len f) (chunk_bytes r)" by blast
  with Suc.IH [OF r'(2)] show ?case
    by (auto simp: frame_dec_def split: sum.splits option.splits)
qed simp

text \<open>C26: messages survive the wire. Frames written one after the other and received in chunks of
  any sizes are read as the same messages in the same order, whatever follows them, provided the
  JSON library reads back what it wrote.\<close>

theorem frames_roundtrip:
  assumes "list_all2 (\<lambda>m b. encode_frame to_vec m = Inr b) ms bs"
    and "\<forall>m p. to_vec m = Some p \<longrightarrow> from_slice p = Some m"
    and "clean_reader r" and "chunk_bytes r = concat bs @ rest"
  shows "read_frames (length ms) from_slice r = ms"
proof -
  have "list_all2 (\<lambda>m b. (\<forall>p. to_vec m = Some p \<longrightarrow> from_slice p = Some m) \<and> frame_enc to_vec m = Some b) ms bs"
    using assms(1) by (rule list_all2_mono) (use assms(2) in \<open>auto simp: frame_enc_def\<close>)
  from frames.decode_sequence [OF this, of rest] show ?thesis
    using assms(3,4) by (simp add: read_frames_decode_all)
qed

definition demo_to_vec :: "unit message \<Rightarrow> bytes option" where
  "demo_to_vec m = (case m of Ping n \<Rightarrow> Some (replicate n 1) | _ \<Rightarrow> None)"

definition demo_from_slice :: "bytes \<Rightarrow> unit message option" where
  "demo_from_slice p = (if p = replicate (length p) 1 then Some (Ping (length p)) else None)"

theorem frames_roundtrip_witness:
  "read_frames 2 demo_from_slice [Data [0, 0], Data [0, 2, 1], Data [1, 0, 0, 0, 1, 1, 9]] = [Ping 2, Ping 1]"
proof -
  have "list_all2 (\<lambda>m b. encode_frame demo_to_vec m = Inr b) [Ping 2, Ping 1] [[0, 0, 0, 2, 1, 1], [0, 0, 0, 1, 1]]"
    by (simp add: encode_frame_def demo_to_vec_def MAX_FRAME_PAYLOAD_def u32_to_be_def numeral_2_eq_2)
  moreover have "\<forall>m p. demo_to_vec m = Some p \<longrightarrow> demo_from_slice p = Some m"
    by (auto simp: demo_to_vec_def demo_from_slice_def split: message.splits)
  ultimately show ?thesis
    using frames_roundtrip [of demo_to_vec "[Ping 2, Ping 1]" "[[0, 0, 0, 2, 1, 1], [0, 0, 0, 1, 1]]" demo_from_slice
        "[Data [0, 0], Data [0, 2, 1], Data [1, 0, 0, 0, 1, 1, 9]]" "[9]"]
    by (simp add: numeral_2_eq_2)
qed

text \<open>Reading a frame does not depend on how the network split the bytes. Two readers that
  deliver the same bytes give the same result, and after a frame the same bytes remain.\<close>

theorem read_frame_chunking:
  assumes "clean_reader r" and "clean_reader q" and "chunk_bytes r = chunk_bytes q"
    and "read_frame from_slice r = (x, r')" and "read_frame from_slice q = (y, q')"
  shows "x = y \<and> (case x of Inr (Some f) \<Rightarrow> chunk_bytes r' = chunk_bytes q' | _ \<Rightarrow> True)"
  using read_frame_clean [OF assms(1), of from_slice] read_frame_clean [OF assms(2), of from_slice] assms(3-5)
  by (auto split: sum.splits option.splits)

theorem read_frame_chunking_witness:
  "fst (read_frame demo_from_slice [Data [0, 0, 0, 1], Data [1, 7]]) =
   fst (read_frame demo_from_slice [Data [0], Data [0, 0, 1, 1, 7]])"
proof -
  obtain x r' where x: "read_frame demo_from_slice [Data [0, 0, 0, 1], Data [1, 7]] = (x, r')" by fastforce
  obtain y q' where y: "read_frame demo_from_slice [Data [0], Data [0, 0, 1, 1, 7]] = (y, q')" by fastforce
  show ?thesis using read_frame_chunking [OF _ _ _ x y] x y by simp
qed

text \<open>An oversized frame is refused before its payload is read: the reader reports the oversize
  as soon as the four length bytes are in, whatever follows, and leaves everything after them
  unread.\<close>

theorem oversize_refused_unread:
  assumes "MAX_FRAME_PAYLOAD < len" and "len < 2 ^ 32" and "clean_reader r"
  shows "read_frame from_slice (Data (u32_to_be len) # r) = (Inl FrameOversize, r)"
proof -
  have ne: "u32_to_be len \<noteq> []" using length_u32_to_be by (metis list.size(3) zero_neq_numeral)
  have "read_exact_or_eof 4 (Data (u32_to_be len) # r) = (Inr (Some (u32_to_be len)), r)"
    unfolding read_exact_or_eof_def by (subst fill.simps) (simp add: ne fill.simps)
  with assms show ?thesis by (simp add: read_frame_def u32_from_to_be Let_def)
qed

theorem oversize_refused_unread_witness:
  "read_frame demo_from_slice (Data (u32_to_be 65537) # [Data [1, 2]]) = (Inl FrameOversize, [Data [1, 2]])"
  by (rule oversize_refused_unread) (simp_all add: MAX_FRAME_PAYLOAD_def)

end
