(* ===== verification/Pcp_Atom.thy ===== *)
theory Pcp_Atom
  imports P2p_Frame
begin

unbundle bit_operations_syntax

text \<open>
  The codec of PCP atoms (\<open>src/pcp/atom.rs\<close>): a four-byte name, a 32-bit little-endian length field
  whose top bit marks a parent, and a payload or the child atoms. The decoder works on the bytes
  received so far and answers \<open>Inr None\<close> while the atom is incomplete.

  The lemmas show that decoding inverts encoding exactly, that every decoded atom respects the
  bounds on nesting, children and payload, that more input never changes an answer already given,
  and that an incomplete atom is always waited for. The interpretation \<open>atoms\<close> of \<open>stream_codec\<close>
  gives the round trip of sequences.
\<close>

definition MAX_ATOM_PAYLOAD :: nat where
  "MAX_ATOM_PAYLOAD = 64 * 1024"

definition MAX_NEST_DEPTH :: nat where
  "MAX_NEST_DEPTH = 8"

definition MAX_CHILDREN :: nat where
  "MAX_CHILDREN = 1024"

definition PARENT_FLAG :: u32 where
  "PARENT_FLAG = 0x80000000"

subsection \<open>Atoms\<close>

datatype atom_id = AtomId u8 u8 u8 u8

definition str_bytes :: "string \<Rightarrow> bytes" where
  "str_bytes s = map (\<lambda>c. word_of_nat (of_char c)) s"

definition bytes_str :: "bytes \<Rightarrow> string" where
  "bytes_str bs = map (\<lambda>b. char_of (unat b)) bs"

definition atom_id_from_name :: "string \<Rightarrow> atom_id" where
  "atom_id_from_name name = (let b = (\<lambda>i. if i < length name then str_bytes name ! i else 0)
     in AtomId (b 0) (b 1) (b 2) (b 3))"

fun atom_id_as_bytes :: "atom_id \<Rightarrow> bytes" where
  "atom_id_as_bytes (AtomId a b c d) = [a, b, c, d]"

definition atom_id_matches :: "atom_id \<Rightarrow> string \<Rightarrow> bool" where
  "atom_id_matches i name \<longleftrightarrow> i = atom_id_from_name name"

datatype atom = ParentAtom atom_id "atom list" | DataAtom atom_id bytes

datatype atom_error = NestTooDeep | PayloadTooLarge | TooManyChildren

fun atom_error_reason :: "atom_error \<Rightarrow> string" where
  "atom_error_reason NestTooDeep = ''atom nesting too deep''"
| "atom_error_reason PayloadTooLarge = ''atom payload too large''"
| "atom_error_reason TooManyChildren = ''too many child atoms''"

subsection \<open>Integers in little-endian order\<close>

definition u32_to_le :: "u32 \<Rightarrow> bytes" where
  "u32_to_le w = map (\<lambda>i. word_of_nat (unat w div 256 ^ i)) [0, 1, 2, 3]"

definition nat_from_le :: "bytes \<Rightarrow> nat" where
  "nat_from_le bs = foldr (\<lambda>b a. unat b + 256 * a) bs 0"

definition u32_from_le :: "bytes \<Rightarrow> u32" where
  "u32_from_le bs = word_of_nat (nat_from_le bs)"

definition i32_to_le :: "int \<Rightarrow> bytes" where
  "i32_to_le v = u32_to_le (word_of_int v)"

definition i16_to_le :: "int \<Rightarrow> bytes" where
  "i16_to_le v = take 2 (u32_to_le (word_of_int v))"

subsection \<open>Constructors and accessors\<close>

definition atom_parent :: "string \<Rightarrow> atom list \<Rightarrow> atom" where
  "atom_parent name cs = ParentAtom (atom_id_from_name name) cs"

definition atom_data :: "string \<Rightarrow> bytes \<Rightarrow> atom" where
  "atom_data name p = DataAtom (atom_id_from_name name) p"

definition atom_bytes :: "string \<Rightarrow> bytes \<Rightarrow> atom" where
  "atom_bytes name p = DataAtom (atom_id_from_name name) p"

definition atom_str :: "string \<Rightarrow> string \<Rightarrow> atom" where
  "atom_str name s = DataAtom (atom_id_from_name name) (str_bytes s @ [0])"

definition atom_i32 :: "string \<Rightarrow> int \<Rightarrow> atom" where
  "atom_i32 name v = DataAtom (atom_id_from_name name) (i32_to_le v)"

definition atom_i16 :: "string \<Rightarrow> int \<Rightarrow> atom" where
  "atom_i16 name v = DataAtom (atom_id_from_name name) (i16_to_le v)"

definition atom_u16v :: "string \<Rightarrow> nat \<Rightarrow> atom" where
  "atom_u16v name v = DataAtom (atom_id_from_name name) (take 2 (u32_to_le (word_of_nat v)))"

definition atom_u8v :: "string \<Rightarrow> u8 \<Rightarrow> atom" where
  "atom_u8v name v = DataAtom (atom_id_from_name name) [v]"

fun atom_id_of :: "atom \<Rightarrow> atom_id" where
  "atom_id_of (ParentAtom i _) = i"
| "atom_id_of (DataAtom i _) = i"

fun atom_children :: "atom \<Rightarrow> atom list option" where
  "atom_children (ParentAtom _ c) = Some c"
| "atom_children (DataAtom _ _) = None"

fun atom_payload :: "atom \<Rightarrow> bytes option" where
  "atom_payload (DataAtom _ p) = Some p"
| "atom_payload (ParentAtom _ _) = None"

definition atom_find :: "string \<Rightarrow> atom \<Rightarrow> atom option" where
  "atom_find name a = Option.bind (atom_children a) (find (\<lambda>c. atom_id_of c = atom_id_from_name name))"

definition atom_as_i32 :: "atom \<Rightarrow> int option" where
  "atom_as_i32 a = Option.bind (atom_payload a) (\<lambda>p.
     if length p = 1 then Some (uint (p ! 0))
     else if length p = 2 then Some (int (nat_from_le p))
     else if length p = 4 then Some (sint (u32_from_le p))
     else None)"

text \<open>\<open>String::from_utf8_lossy\<close>: each maximal prefix of an ill-formed sequence becomes U+FFFD. The
  result of a step is the number of bytes it takes and whether they form a character.\<close>

definition is_tail :: "string \<Rightarrow> nat \<Rightarrow> bool" where
  "is_tail s i \<longleftrightarrow> i < length s \<and> is_cont (s ! i)"

definition second_ok :: "char \<Rightarrow> string \<Rightarrow> bool" where
  "second_ok lead s \<longleftrightarrow> 1 < length s \<and> (let b = byte_of lead; c = byte_of (s ! 1) in
     if b = 0xE0 then 0xA0 \<le> c \<and> c \<le> 0xBF
     else if b = 0xED then 0x80 \<le> c \<and> c \<le> 0x9F
     else if b = 0xF0 then 0x90 \<le> c \<and> c \<le> 0xBF
     else if b = 0xF4 then 0x80 \<le> c \<and> c \<le> 0x8F
     else 0x80 \<le> c \<and> c \<le> 0xBF)"

definition utf8_step :: "char \<Rightarrow> string \<Rightarrow> nat \<times> bool" where
  "utf8_step lead s = (let b = byte_of lead :: nat in
     if b < 0x80 then (1, True)
     else if 0xC2 \<le> b \<and> b \<le> 0xDF then (if second_ok lead s then (2, True) else (1, False))
     else if 0xE0 \<le> b \<and> b \<le> 0xEF then
       (if \<not> second_ok lead s then (1, False) else if \<not> is_tail s 2 then (2, False) else (3, True))
     else if 0xF0 \<le> b \<and> b \<le> 0xF4 then
       (if \<not> second_ok lead s then (1, False) else if \<not> is_tail s 2 then (2, False)
        else if \<not> is_tail s 3 then (3, False) else (4, True))
     else (1, False))"

definition replacement_char :: string where
  "replacement_char = map char_of [0xEF, 0xBF, 0xBD :: nat]"

function from_utf8_lossy :: "string \<Rightarrow> string" where
  "from_utf8_lossy [] = []"
| "from_utf8_lossy (c # s) = (case utf8_step c (c # s) of (n, ok) \<Rightarrow>
     (if ok then take n (c # s) else replacement_char) @ from_utf8_lossy (drop n (c # s)))"
  by pat_completeness auto
termination
  by (relation "measure length") (auto simp: utf8_step_def Let_def split: if_splits)

declare from_utf8_lossy.simps [simp del]

definition atom_id_name :: "atom_id \<Rightarrow> string" where
  "atom_id_name i = from_utf8_lossy (bytes_str (takeWhile (\<lambda>b. b \<noteq> 0) (atom_id_as_bytes i)))"

definition atom_as_str :: "atom \<Rightarrow> string option" where
  "atom_as_str a = map_option (\<lambda>p. from_utf8_lossy (bytes_str (rev (dropWhile (\<lambda>b. b = 0) (rev p)))))
     (atom_payload a)"

subsection \<open>Encoding and decoding\<close>

fun encode_atom :: "atom \<Rightarrow> bytes" where
  "encode_atom (DataAtom i payload) =
     atom_id_as_bytes i @ u32_to_le (word_of_nat (length payload)) @ payload"
| "encode_atom (ParentAtom i cs) =
     atom_id_as_bytes i @ u32_to_le (PARENT_FLAG OR word_of_nat (length cs)) @ concat (map encode_atom cs)"

text \<open>\<open>decode_children\<close> is the loop over the announced number of children.\<close>

function decode_at :: "bytes \<Rightarrow> nat \<Rightarrow> atom_error + (atom \<times> nat) option"
  and decode_children :: "bytes \<Rightarrow> nat \<Rightarrow> nat \<Rightarrow> nat \<Rightarrow> atom list \<Rightarrow> atom_error + (atom list \<times> nat) option" where
  "decode_at buf depth =
     (if depth > MAX_NEST_DEPTH then Inl NestTooDeep
      else if length buf < 8 then Inr None
      else
        let i = AtomId (buf ! 0) (buf ! 1) (buf ! 2) (buf ! 3);
            len_raw = u32_from_le (take 4 (drop 4 buf))
        in if len_raw AND PARENT_FLAG \<noteq> 0 then
             (let n = unat (len_raw AND NOT PARENT_FLAG) in
              if n > MAX_CHILDREN then Inl TooManyChildren
              else case decode_children buf depth n 8 [] of
                  Inl e \<Rightarrow> Inl e
                | Inr None \<Rightarrow> Inr None
                | Inr (Some (cs, pos)) \<Rightarrow> Inr (Some (ParentAtom i cs, pos)))
           else
             (let len = unat len_raw in
              if len > MAX_ATOM_PAYLOAD then Inl PayloadTooLarge
              else if length buf < 8 + len then Inr None
              else Inr (Some (DataAtom i (take len (drop 8 buf)), 8 + len))))"
| "decode_children buf depth 0 pos acc = Inr (Some (acc, pos))"
| "decode_children buf depth (Suc n) pos acc =
     (case decode_at (drop pos buf) (depth + 1) of
        Inl e \<Rightarrow> Inl e
      | Inr None \<Rightarrow> Inr None
      | Inr (Some (child, used)) \<Rightarrow> decode_children buf depth n (pos + used) (acc @ [child]))"
  by pat_completeness auto
termination
  by (relation "measures [\<lambda>x. case x of Inl (buf, depth) \<Rightarrow> 2 * (9 - depth)
      | Inr (buf, depth, n, pos, acc) \<Rightarrow> max 1 (2 * (9 - depth) - 1),
    \<lambda>x. case x of Inl _ \<Rightarrow> 0 | Inr (buf, depth, n, pos, acc) \<Rightarrow> n]")
    (auto simp: MAX_NEST_DEPTH_def)

declare decode_at.simps [simp del]

definition try_decode :: "bytes \<Rightarrow> atom_error + (atom \<times> nat) option" where
  "try_decode buf = decode_at buf 1"

subsection \<open>Length fields\<close>

lemma unat_small: "n < 2 ^ 32 \<Longrightarrow> unat (word_of_nat n :: u32) = n"
  by (simp add: unat_of_nat)

lemma length_u32_to_le [simp]: "length (u32_to_le w) = 4"
  by (simp add: u32_to_le_def)

lemma nat_from_le_simps [simp]:
  "nat_from_le [] = 0"
  "nat_from_le (b # bs) = unat b + 256 * nat_from_le bs"
  by (simp_all add: nat_from_le_def)

lemma u32_from_to_le [simp]: "u32_from_le (u32_to_le w) = w"
proof -
  let ?n = "unat w"
  have b: "unat (word_of_nat m :: u8) = m mod 256" for m by (simp add: unat_of_nat)
  have lt: "?n < 2 ^ 32" using unat_less_exp [of w] by simp
  have e: "?n div 256 ^ 3 = ?n div 256 div 256 div 256" "?n div 256 ^ 2 = ?n div 256 div 256"
    by (simp_all flip: div_mult2_eq)
  have "?n div 256 div 256 div 256 < 256" using lt by (simp add: less_mult_imp_div_less)
  then have q: "?n div 256 div 256 div 256 mod 256 = ?n div 256 div 256 div 256" by simp
  have "nat_from_le (u32_to_le w) = ?n"
    unfolding u32_to_le_def list.map nat_from_le_simps b e power_0 power_one_right div_by_1 q
    by (simp only: mult_0_right add_0_right mult.commute [of 256] add.commute [of "_ mod 256"] div_mult_mod_eq)
  then show ?thesis by (simp add: u32_from_le_def)
qed

lemma u32_to_from_le:
  assumes "length bs = 4"
  shows "u32_to_le (u32_from_le bs) = bs"
proof -
  from assms have "length bs = Suc (Suc (Suc (Suc 0)))" by simp
  then obtain a b c d where bs: "bs = [a, b, c, d]" by (auto simp: length_Suc_conv)
  have lt: "unat x < 256" for x :: u8 using unat_less_exp [of x] by simp
  have "nat_from_le bs < 2 ^ 32" using lt [of a] lt [of b] lt [of c] lt [of d] by (simp add: bs)
  then have n: "unat (u32_from_le bs) = unat a + 256 * (unat b + 256 * (unat c + 256 * unat d))"
    using unat_small [of "nat_from_le bs"] by (simp add: u32_from_le_def bs del: of_nat_add of_nat_mult)
  have sh: "(unat x + 256 * k) div 256 = k" for x :: u8 and k using lt [of x] by simp
  have md: "(word_of_nat (unat x + 256 * k) :: u8) = x" for x :: u8 and k
    by (rule word_unat_eq_iff [THEN iffD2]) (use lt [of x] in \<open>simp add: unat_of_nat del: of_nat_add of_nat_mult\<close>)
  have q: "m div 256 ^ 2 = m div 256 div 256" "m div 256 ^ 3 = m div 256 div 256 div 256" for m :: nat
    by (simp_all flip: div_mult2_eq)
  have "(word_of_nat (unat d) :: u8) = d" using md [of d 0] by simp
  then show ?thesis
    unfolding u32_to_le_def list.map n power_0 power_one_right div_by_1 q sh md by (simp only: bs)
qed

lemma bit_PARENT_FLAG [simp]: "bit PARENT_FLAG n \<longleftrightarrow> n = 31"
proof -
  have "PARENT_FLAG = (2 :: u32) ^ 31" by (simp add: PARENT_FLAG_def)
  then show ?thesis unfolding \<open>PARENT_FLAG = 2 ^ 31\<close> bit_exp_iff by auto
qed

lemma is_parent_iff: "w AND PARENT_FLAG \<noteq> 0 \<longleftrightarrow> bit w 31"
proof
  assume "w AND PARENT_FLAG \<noteq> 0"
  then obtain n where "bit (w AND PARENT_FLAG) n" using bit_eqI [of "w AND PARENT_FLAG" 0] by auto
  then show "bit w 31" by (auto simp only: bit_and_iff bit_PARENT_FLAG)
next
  assume "bit w 31"
  then have "bit (w AND PARENT_FLAG) 31" by (simp add: bit_and_iff)
  then show "w AND PARENT_FLAG \<noteq> 0" by auto
qed

lemma small_not_parent: "n < 2 ^ 31 \<Longrightarrow> \<not> bit (word_of_nat n :: u32) 31"
  by (simp only: bit_of_nat_iff) (simp add: bit_iff_odd)

lemma parent_field:
  assumes "n < 2 ^ 31"
  shows "bit (PARENT_FLAG OR word_of_nat n) 31" and "(PARENT_FLAG OR word_of_nat n) AND NOT PARENT_FLAG = word_of_nat n"
  using small_not_parent [OF assms]
  by (auto simp: bit_or_iff bit_and_iff bit_not_iff intro!: bit_eqI)

lemma parent_field_back: "bit w 31 \<Longrightarrow> PARENT_FLAG OR (w AND NOT PARENT_FLAG) = w"
  by (rule bit_eqI) (auto simp: bit_or_iff bit_and_iff bit_not_iff dest: bit_imp_le_length)

subsection \<open>The codec\<close>

text \<open>The bounds of an atom that stands at nesting depth \<open>d\<close>.\<close>

fun atom_ok :: "nat \<Rightarrow> atom \<Rightarrow> bool" where
  "atom_ok d (DataAtom i p) \<longleftrightarrow> d \<le> MAX_NEST_DEPTH \<and> length p \<le> MAX_ATOM_PAYLOAD"
| "atom_ok d (ParentAtom i cs) \<longleftrightarrow> d \<le> MAX_NEST_DEPTH \<and> length cs \<le> MAX_CHILDREN \<and> list_all (atom_ok (Suc d)) cs"

lemma length_atom_id [simp]: "length (atom_id_as_bytes i) = 4"
  by (cases i) simp

lemma header_parts:
  assumes "8 \<le> length buf"
  shows "atom_id_as_bytes (AtomId (buf ! 0) (buf ! 1) (buf ! 2) (buf ! 3)) @ u32_to_le (u32_from_le (take 4 (drop 4 buf))) = take 8 buf"
proof -
  have "take 4 buf = [buf ! 0, buf ! 1, buf ! 2, buf ! 3]"
    using assms by (intro nth_equalityI) (auto simp: less_Suc_eq numeral_eq_Suc nth_Cons')
  moreover have "take 8 buf = take 4 buf @ take 4 (drop 4 buf)"
    by (simp flip: take_add)
  ultimately show ?thesis using assms by (simp add: u32_to_from_le)
qed

lemma header_read [simp]:
  "AtomId ((atom_id_as_bytes i @ r) ! 0) ((atom_id_as_bytes i @ r) ! Suc 0) ((atom_id_as_bytes i @ r) ! 2)
     ((atom_id_as_bytes i @ r) ! 3) = i"
  by (cases i) simp

lemma decode_encode_children:
  assumes "\<And>c rest. c \<in> set cs \<Longrightarrow> decode_at (encode_atom c @ rest) (Suc d) = Inr (Some (c, length (encode_atom c)))"
  shows "decode_children (pre @ concat (map encode_atom cs) @ rest) d (length cs) (length pre) acc =
    Inr (Some (acc @ cs, length pre + length (concat (map encode_atom cs))))"
  using assms
proof (induction cs arbitrary: pre acc)
  case (Cons c cs)
  from Cons.IH [of "pre @ encode_atom c" "acc @ [c]"] Cons.prems show ?case by simp
qed simp

lemma decode_encode: "atom_ok d a \<Longrightarrow> decode_at (encode_atom a @ rest) d = Inr (Some (a, length (encode_atom a)))"
proof (induction a arbitrary: d rest)
  case (ParentAtom i cs)
  let ?w = "PARENT_FLAG OR word_of_nat (length cs)"
  have n: "length cs < 2 ^ 31" using ParentAtom.prems by (simp add: MAX_CHILDREN_def)
  have "unat (word_of_nat (length cs) :: u32) = length cs" using n by (intro unat_small) simp
  moreover have "decode_children ((atom_id_as_bytes i @ u32_to_le ?w) @ concat (map encode_atom cs) @ rest) d (length cs)
      (length (atom_id_as_bytes i @ u32_to_le ?w)) [] =
    Inr (Some ([] @ cs, length (atom_id_as_bytes i @ u32_to_le ?w) + length (concat (map encode_atom cs))))"
    using ParentAtom by (intro decode_encode_children) (auto simp: list_all_iff)
  ultimately show ?case
    using ParentAtom.prems parent_field [OF n]
    by (subst decode_at.simps) (simp add: is_parent_iff Let_def not_less)
next
  case (DataAtom i p)
  have n: "length p < 2 ^ 31" using DataAtom.prems by (simp add: MAX_ATOM_PAYLOAD_def)
  have "unat (word_of_nat (length p) :: u32) = length p" using n by (intro unat_small) simp
  with DataAtom.prems small_not_parent [OF n] is_parent_iff [of "word_of_nat (length p)"] show ?case
    by (subst decode_at.simps) (simp add: Let_def not_less)
qed

text \<open>What a successful decoding has read: the encoding of an atom within the bounds, and nothing
  beyond the input.\<close>

lemma decode_exact:
  "decode_at buf d = Inr (Some (a, u)) \<Longrightarrow> 8 \<le> u \<and> u \<le> length buf \<and> take u buf = encode_atom a \<and> atom_ok d a"
  "decode_children buf d n pos acc = Inr (Some (cs, pos')) \<Longrightarrow> pos \<le> length buf \<Longrightarrow>
     \<exists>new. cs = acc @ new \<and> length new = n \<and> pos \<le> pos' \<and> pos' \<le> length buf \<and>
       take (pos' - pos) (drop pos buf) = concat (map encode_atom new) \<and> list_all (atom_ok (Suc d)) new"
proof (induction buf d and buf d n pos acc arbitrary: a u and cs pos' rule: decode_at_decode_children.induct)
  case (1 buf d)
  let ?i = "AtomId (buf ! 0) (buf ! 1) (buf ! 2) (buf ! 3)" and ?w = "u32_from_le (take 4 (drop 4 buf))"
  from 1(2) have g: "d \<le> MAX_NEST_DEPTH" "8 \<le> length buf"
    by (subst (asm) decode_at.simps, simp split: if_splits)+
  show ?case
  proof (cases "?w AND PARENT_FLAG = 0")
    case True
    let ?len = "unat ?w"
    from 1(2) True g have r: "a = DataAtom ?i (take ?len (drop 8 buf))" "u = 8 + ?len"
      "?len \<le> MAX_ATOM_PAYLOAD" "8 + ?len \<le> length buf"
      by (subst (asm) decode_at.simps, simp add: Let_def not_less split: if_splits)+
    have "take u buf = take 8 buf @ take ?len (drop 8 buf)" unfolding r by (rule take_add)
    with r g header_parts [OF g(2)] show ?thesis by simp
  next
    case False
    let ?n = "unat (?w AND NOT PARENT_FLAG)"
    from 1(2) False g obtain cs where r: "decode_children buf d ?n 8 [] = Inr (Some (cs, u))"
      "a = ParentAtom ?i cs" "?n \<le> MAX_CHILDREN"
      by (subst (asm) decode_at.simps) (auto simp: Let_def not_less split: if_splits sum.splits option.splits)
    from 1(1) [OF _ _ refl refl False refl _ r(1)] g r(3) obtain
      c: "length cs = ?n" "8 \<le> u" "u \<le> length buf" "take (u - 8) (drop 8 buf) = concat (map encode_atom cs)"
         "list_all (atom_ok (Suc d)) cs" by auto
    have w: "PARENT_FLAG OR word_of_nat (length cs) = ?w"
      using parent_field_back [of ?w] False is_parent_iff [of ?w] by (simp add: c(1))
    have "take u buf = take 8 buf @ take (u - 8) (drop 8 buf)"
      using c(2) by (simp flip: take_add)
    with r c g w header_parts [OF g(2)] show ?thesis by simp
  qed
next
  case (2 buf d pos acc)
  then show ?case by simp
next
  case (3 buf d n pos acc)
  from 3(3) obtain c used where s: "decode_at (drop pos buf) (d + 1) = Inr (Some (c, used))"
    "decode_children buf d n (pos + used) (acc @ [c]) = Inr (Some (cs, pos'))"
    by (auto split: sum.splits option.splits)
  from 3(1) [OF s(1)] have c: "8 \<le> used" "pos + used \<le> length buf" "take used (drop pos buf) = encode_atom c"
      "atom_ok (Suc d) c" using 3(4) by auto
  from 3(2) [OF s(1) refl refl s(2) c(2)] obtain new where n: "cs = (acc @ [c]) @ new" "length new = n"
      "pos + used \<le> pos'" "pos' \<le> length buf"
      "take (pos' - (pos + used)) (drop (pos + used) buf) = concat (map encode_atom new)" "list_all (atom_ok (Suc d)) new"
    by blast
  have "take (pos' - pos) (drop pos buf) = take used (drop pos buf) @ take (pos' - (pos + used)) (drop (pos + used) buf)"
    using take_add [of used "pos' - (pos + used)" "drop pos buf"] n(3) by (simp add: add.commute)
  with c n show ?case by (intro exI [of _ "c # new"]) auto
qed

text \<open>More input does not change an answer other than "incomplete".\<close>

lemma decode_more:
  "decode_at buf d \<noteq> Inr None \<Longrightarrow> decode_at (buf @ x) d = decode_at buf d"
  "decode_children buf d n pos acc \<noteq> Inr None \<Longrightarrow> pos \<le> length buf \<Longrightarrow>
     decode_children (buf @ x) d n pos acc = decode_children buf d n pos acc"
proof (induction buf d and buf d n pos acc rule: decode_at_decode_children.induct)
  case (1 buf d)
  let ?w = "u32_from_le (take 4 (drop 4 buf))"
  show ?case
  proof (cases "d > MAX_NEST_DEPTH")
    case True
    then show ?thesis by (simp add: decode_at.simps)
  next
    case g1: False
    with 1(2) have g2: "\<not> length buf < 8" by (auto simp: decode_at.simps [of buf])
    have h: "take 4 (drop 4 (buf @ x)) = take 4 (drop 4 buf)" "(buf @ x) ! 0 = buf ! 0" "(buf @ x) ! 1 = buf ! 1"
      "(buf @ x) ! 2 = buf ! 2" "(buf @ x) ! 3 = buf ! 3" using g2 by (auto simp: nth_append)
    show ?thesis
    proof (cases "?w AND PARENT_FLAG = 0")
      case True
      with 1(2) g1 g2 have "unat ?w > MAX_ATOM_PAYLOAD \<or> 8 + unat ?w \<le> length buf"
        by (simp add: decode_at.simps [of buf] Let_def split: if_splits)
      with True g1 g2 show ?thesis unfolding decode_at.simps [of "buf @ x"] decode_at.simps [of buf] h by (auto simp: Let_def)
    next
      case False
      let ?n = "unat (?w AND NOT PARENT_FLAG)"
      from 1(2) g1 g2 False have "?n > MAX_CHILDREN \<or> decode_children buf d ?n 8 [] \<noteq> Inr None"
        by (auto simp: decode_at.simps [of buf] Let_def)
      with 1(1) [OF g1 g2 refl refl False refl] g2 have "?n > MAX_CHILDREN \<or>
          decode_children (buf @ x) d ?n 8 [] = decode_children buf d ?n 8 []" by auto
      with False g1 g2 show ?thesis unfolding decode_at.simps [of "buf @ x"] decode_at.simps [of buf] h by (auto simp: Let_def)
    qed
  qed
next
  case (2 buf d pos acc)
  then show ?case by simp
next
  case (3 buf d n pos acc)
  have e: "decode_at (drop pos (buf @ x)) (d + 1) = decode_at (drop pos buf) (d + 1)"
    using 3(1,3,4) by (cases "decode_at (drop pos buf) (d + 1) = Inr None") auto
  show ?case
  proof (cases "\<exists>c used. decode_at (drop pos buf) (d + 1) = Inr (Some (c, used))")
    case True
    then obtain c used where s: "decode_at (drop pos buf) (d + 1) = Inr (Some (c, used))" by blast
    from decode_exact(1) [OF s] 3(4) have "pos + used \<le> length buf" by auto
    with 3(2) [OF s refl refl] 3(3) s e show ?thesis by simp
  qed (use e in \<open>auto split: sum.splits option.splits\<close>)
qed

subsection \<open>Properties of the codec\<close>

definition atom_dec :: "bytes \<Rightarrow> (atom \<times> bytes) option" where
  "atom_dec bs = (case try_decode bs of Inr (Some (a, used)) \<Rightarrow> Some (a, drop used bs) | _ \<Rightarrow> None)"

interpretation atoms: stream_codec "\<lambda>a. Some (encode_atom a)" atom_dec "atom_ok 1"
  by unfold_locales (auto simp: atom_dec_def try_decode_def decode_encode)

text \<open>C25: decoding inverts encoding. The decoder returns an atom exactly when the input begins with
  the encoding of an atom within the bounds (nesting 8, 1024 children, 64 KB of payload), and it
  consumes exactly that encoding, so it never reads beyond the input and a decoded atom is
  re-encoded to the bytes it came from.\<close>

theorem try_decode_exact:
  "try_decode buf = Inr (Some (a, used)) \<longleftrightarrow>
     atom_ok 1 a \<and> used = length (encode_atom a) \<and> (\<exists>rest. buf = encode_atom a @ rest)"
proof
  assume "try_decode buf = Inr (Some (a, used))"
  then have d: "8 \<le> used \<and> used \<le> length buf \<and> take used buf = encode_atom a \<and> atom_ok 1 a"
    unfolding try_decode_def by (rule decode_exact(1))
  then have "buf = encode_atom a @ drop used buf" by (metis append_take_drop_id)
  moreover have "used = length (encode_atom a)" using d by (metis length_take min.absorb2)
  ultimately show "atom_ok 1 a \<and> used = length (encode_atom a) \<and> (\<exists>rest. buf = encode_atom a @ rest)"
    using d by blast
qed (auto simp: try_decode_def decode_encode)

text \<open>The decoder waits for the rest of an atom and is not confused by it. On every proper prefix
  of the encoding of an atom within the bounds it answers "incomplete", never an error and never
  another atom; and once it has given an answer, an atom or an error, more input does not change it.\<close>

theorem try_decode_incremental:
  "(atom_ok 1 a \<longrightarrow> encode_atom a = pre @ c # rest \<longrightarrow> try_decode pre = Inr None) \<and>
   (try_decode buf \<noteq> Inr None \<longrightarrow> try_decode (buf @ extra) = try_decode buf)"
proof (intro conjI impI)
  assume a: "atom_ok 1 a" "encode_atom a = pre @ c # rest"
  show "try_decode pre = Inr None"
  proof (rule ccontr)
    assume n: "try_decode pre \<noteq> Inr None"
    from decode_more(1) [of pre 1 "c # rest"] n a decode_encode [OF a(1), of "[]"]
    have "try_decode pre = Inr (Some (a, length (encode_atom a)))" by (simp add: try_decode_def)
    from decode_exact(1) [OF this [unfolded try_decode_def]] a(2) show False by simp
  qed
qed (simp add: try_decode_def decode_more(1))

theorem try_decode_incremental_witness:
  "try_decode [104, 101, 108, 111, 2, 0, 0, 0, 7] = Inr None"
proof -
  have "encode_atom (DataAtom (AtomId 104 101 108 111) [7, 8]) = [104, 101, 108, 111, 2, 0, 0, 0, 7] @ 8 # []"
    by (simp add: u32_to_le_def)
  moreover have "atom_ok 1 (DataAtom (AtomId 104 101 108 111) [7, 8])"
    by (simp add: MAX_NEST_DEPTH_def MAX_ATOM_PAYLOAD_def)
  ultimately show ?thesis using try_decode_incremental by blast
qed

subsection \<open>Payloads\<close>

lemma as_i32_i32:
  assumes "- (2 ^ 31) \<le> v" and "v < 2 ^ 31"
  shows "atom_as_i32 (atom_i32 name v) = Some v"
proof -
  have "sint (word_of_int v :: u32) = v"
    using assms by (simp add: sint_sbintrunc' signed_take_bit_int_eq_self)
  then show ?thesis by (simp add: atom_as_i32_def atom_i32_def i32_to_le_def)
qed

lemma str_wf_lossy: "str_wf (from_utf8_lossy s)"
proof (cases s)
  case (Cons c r)
  then show ?thesis
    by (auto simp: from_utf8_lossy.simps str_wf_def utf8_step_def is_cont_def replacement_char_def Let_def
        take_Cons' split: if_splits)
qed (simp add: from_utf8_lossy.simps str_wf_def)

lemma lossy_ascii: "\<forall>c \<in> set s. byte_of c < 0x80 \<Longrightarrow> from_utf8_lossy s = s"
  by (induction s) (simp_all add: from_utf8_lossy.simps utf8_step_def)

end
