(* ===== verification/Std_Net.thy ===== *)
theory Std_Net
  imports Rust_Str
begin

text \<open>
  What the sources use of \<open>std::net\<close>: IP and socket addresses with the standard library's parser
  (\<open>FromStr\<close>) and printer (\<open>Display\<close>). A parser takes the input and returns the value read with
  the rest of the input; \<open>None\<close> leaves the input where it was (\<open>read_atomically\<close>). Octets,
  segments, ports and scope identifiers are natural numbers below their bounds.
\<close>

datatype ip_addr = V4 "nat list" | V6 "nat list"

datatype socket_addr = SocketV4 "nat list" nat | SocketV6 "nat list" nat nat

subsection \<open>Parser\<close>

type_synonym 'a parser = "string \<Rightarrow> ('a \<times> string) option"

definition to_digit :: "nat \<Rightarrow> char \<Rightarrow> nat option" where
  "to_digit radix c = (let b = byte_of c;
       d = (if 48 \<le> b \<and> b \<le> 57 then Some (b - 48)
            else if 97 \<le> b \<and> b \<le> 122 then Some (b - 87)
            else if 65 \<le> b \<and> b \<le> 90 then Some (b - 55) else None)
     in case d of None \<Rightarrow> None | Some v \<Rightarrow> if v < radix then Some v else None)"

definition read_given_char :: "char \<Rightarrow> unit parser" where
  "read_given_char c s = (case s of [] \<Rightarrow> None | x # r \<Rightarrow> if x = c then Some ((), r) else None)"

definition digits_of :: "nat \<Rightarrow> string \<Rightarrow> string" where
  "digits_of radix s = takeWhile (\<lambda>c. to_digit radix c \<noteq> None) s"

definition radix_value :: "nat \<Rightarrow> string \<Rightarrow> nat" where
  "radix_value radix ds = foldl (\<lambda>a c. a * radix + the (to_digit radix c)) 0 ds"

definition read_number :: "nat \<Rightarrow> nat option \<Rightarrow> bool \<Rightarrow> nat \<Rightarrow> nat parser" where
  "read_number radix max_digits allow_zero_prefix hi s =
     (let ds = digits_of radix s in
      if (case max_digits of None \<Rightarrow> False | Some m \<Rightarrow> length ds > m) then None
      else if ds = [] then None
      else if \<not> allow_zero_prefix \<and> hd ds = CHR ''0'' \<and> length ds > 1 then None
      else if radix_value radix ds \<le> hi then Some (radix_value radix ds, drop (length ds) s)
      else None)"

definition read_separator :: "char \<Rightarrow> nat \<Rightarrow> 'a parser \<Rightarrow> 'a parser" where
  "read_separator sep index inner s =
     (if index > 0 then (case read_given_char sep s of None \<Rightarrow> None | Some (_, r) \<Rightarrow> inner r)
      else inner s)"

text \<open>Groups \<open>i, i + 1, ..., n - 1\<close> of a dotted-decimal address.\<close>

fun read_octets :: "nat \<Rightarrow> nat \<Rightarrow> nat list parser" where
  "read_octets i 0 s = Some ([], s)"
| "read_octets i (Suc n) s = (case read_separator CHR ''.'' i (read_number 10 (Some 3) False 255) s of
     None \<Rightarrow> None
   | Some (o1, r) \<Rightarrow> (case read_octets (Suc i) n r of None \<Rightarrow> None | Some (os, r') \<Rightarrow> Some (o1 # os, r')))"

definition read_ipv4_addr :: "nat list parser" where
  "read_ipv4_addr = read_octets 0 4"

text \<open>The groups read up to the limit, whether an embedded IPv4 address ended them, and the rest.\<close>

function read_groups :: "nat \<Rightarrow> nat \<Rightarrow> string \<Rightarrow> nat list \<times> bool \<times> string" where
  "read_groups limit i s = (if limit \<le> i then ([], False, s) else
     let v4 = (if i < limit - 1 then read_separator CHR '':'' i read_ipv4_addr s else None) in
     (case v4 of
        Some (os, r) \<Rightarrow> ([os ! 0 * 256 + os ! 1, os ! 2 * 256 + os ! 3], True, r)
      | None \<Rightarrow> (case read_separator CHR '':'' i (read_number 16 (Some 4) True 65535) s of
          None \<Rightarrow> ([], False, s)
        | Some (g, r) \<Rightarrow> (case read_groups limit (Suc i) r of (gs, b, r') \<Rightarrow> (g # gs, b, r')))))"
  by pat_completeness auto
termination
  by (relation "measure (\<lambda>(limit, i, s). limit - i)") auto

declare read_groups.simps [simp del]

definition read_ipv6_addr :: "nat list parser" where
  "read_ipv6_addr s = (case read_groups 8 0 s of (head, head_ipv4, r) \<Rightarrow>
     if length head = 8 then Some (head, r)
     else if head_ipv4 then None
     else case read_given_char CHR '':'' r of None \<Rightarrow> None | Some (_, r1) \<Rightarrow>
       case read_given_char CHR '':'' r1 of None \<Rightarrow> None | Some (_, r2) \<Rightarrow>
       case read_groups (8 - (length head + 1)) 0 r2 of (tail, _, r3) \<Rightarrow>
         Some (head @ replicate (8 - length head - length tail) 0 @ tail, r3))"

definition read_ip_addr :: "ip_addr parser" where
  "read_ip_addr s = (case read_ipv4_addr s of Some (os, r) \<Rightarrow> Some (V4 os, r)
     | None \<Rightarrow> map_option (map_prod V6 id) (read_ipv6_addr s))"

definition read_port :: "nat parser" where
  "read_port s = (case read_given_char CHR '':'' s of None \<Rightarrow> None
     | Some (_, r) \<Rightarrow> read_number 10 None True 65535 r)"

definition read_scope_id :: "nat parser" where
  "read_scope_id s = (case read_given_char CHR ''%'' s of None \<Rightarrow> None
     | Some (_, r) \<Rightarrow> read_number 10 None True (2 ^ 32 - 1) r)"

definition read_socket_addr_v4 :: "socket_addr parser" where
  "read_socket_addr_v4 s = (case read_ipv4_addr s of None \<Rightarrow> None
     | Some (os, r) \<Rightarrow> map_option (map_prod (SocketV4 os) id) (read_port r))"

definition read_socket_addr_v6 :: "socket_addr parser" where
  "read_socket_addr_v6 s = (case read_given_char CHR ''['' s of None \<Rightarrow> None | Some (_, r) \<Rightarrow>
     case read_ipv6_addr r of None \<Rightarrow> None | Some (ip, r1) \<Rightarrow>
     case (case read_scope_id r1 of None \<Rightarrow> (0, r1) | Some v \<Rightarrow> v) of (scope, r2) \<Rightarrow>
     case read_given_char CHR '']'' r2 of None \<Rightarrow> None | Some (_, r3) \<Rightarrow>
     map_option (map_prod (\<lambda>port. SocketV6 ip scope port) id) (read_port r3))"

definition read_socket_addr :: "socket_addr parser" where
  "read_socket_addr s = (case read_socket_addr_v4 s of Some v \<Rightarrow> Some v | None \<Rightarrow> read_socket_addr_v6 s)"

text \<open>\<open>parse_with\<close>: the parser has to consume the whole input.\<close>

definition parse_with :: "'a parser \<Rightarrow> string \<Rightarrow> 'a option" where
  "parse_with p s = (case p s of Some (v, []) \<Rightarrow> Some v | _ \<Rightarrow> None)"

definition parse_socket_addr :: "string \<Rightarrow> socket_addr option" where
  "parse_socket_addr = parse_with read_socket_addr"

definition parse_ip_addr :: "string \<Rightarrow> ip_addr option" where
  "parse_ip_addr = parse_with read_ip_addr"

definition parse_ipv4_addr :: "string \<Rightarrow> nat list option" where
  "parse_ipv4_addr s = (if length s > 15 then None else parse_with read_ipv4_addr s)"

subsection \<open>Printer\<close>

definition show_ipv4 :: "nat list \<Rightarrow> string" where
  "show_ipv4 os = show_nat (os ! 0) @ ''.'' @ show_nat (os ! 1) @ ''.'' @ show_nat (os ! 2) @ ''.''
     @ show_nat (os ! 3)"

definition hex_digit :: "nat \<Rightarrow> char" where
  "hex_digit d = char_of (if d < 10 then 48 + d else 87 + d)"

fun show_hex :: "nat \<Rightarrow> string" where
  "show_hex n = (if n < 16 then [hex_digit n] else show_hex (n div 16) @ [hex_digit (n mod 16)])"

declare show_hex.simps [simp del]

fun fmt_subslice :: "nat list \<Rightarrow> string" where
  "fmt_subslice [] = []"
| "fmt_subslice [g] = show_hex g"
| "fmt_subslice (g # gs) = show_hex g @ '':'' @ fmt_subslice gs"

text \<open>The first of the longest runs of zero segments, as start and length.\<close>

fun zero_runs :: "nat \<Rightarrow> nat \<times> nat \<Rightarrow> nat \<times> nat \<Rightarrow> nat list \<Rightarrow> nat \<times> nat" where
  "zero_runs i longest current [] = longest"
| "zero_runs i longest current (g # gs) =
     (if g = 0 then
        (let current = (if snd current = 0 then (i, 1) else (fst current, snd current + 1));
             longest = (if snd current > snd longest then current else longest)
         in zero_runs (i + 1) longest current gs)
      else zero_runs (i + 1) longest (0, 0) gs)"

definition show_ipv6 :: "nat list \<Rightarrow> string" where
  "show_ipv6 gs =
     (if take 6 gs = [0, 0, 0, 0, 0, 0xFFFF] then
        ''::ffff:'' @ show_ipv4 [gs ! 6 div 256, gs ! 6 mod 256, gs ! 7 div 256, gs ! 7 mod 256]
      else case zero_runs 0 (0, 0) (0, 0) gs of (start, n) \<Rightarrow>
        if n > 1 then fmt_subslice (take start gs) @ ''::'' @ fmt_subslice (drop (start + n) gs)
        else fmt_subslice gs)"

fun show_ip :: "ip_addr \<Rightarrow> string" where
  "show_ip (V4 os) = show_ipv4 os"
| "show_ip (V6 gs) = show_ipv6 gs"

fun show_socket_addr :: "socket_addr \<Rightarrow> string" where
  "show_socket_addr (SocketV4 os port) = show_ipv4 os @ '':'' @ show_nat port"
| "show_socket_addr (SocketV6 gs scope port) = ''['' @ show_ipv6 gs
     @ (if scope = 0 then [] else ''%'' @ show_nat scope) @ '']:'' @ show_nat port"

fun socket_ip :: "socket_addr \<Rightarrow> ip_addr" where
  "socket_ip (SocketV4 os port) = V4 os"
| "socket_ip (SocketV6 gs scope port) = V6 gs"

fun socket_port :: "socket_addr \<Rightarrow> nat" where
  "socket_port (SocketV4 os port) = port"
| "socket_port (SocketV6 gs scope port) = port"

definition wf_octets :: "nat list \<Rightarrow> bool" where
  "wf_octets os \<longleftrightarrow> length os = 4 \<and> (\<forall>x \<in> set os. x \<le> 255)"

subsection \<open>IPv4 socket addresses survive printing and parsing\<close>

lemma to_digit_10: "to_digit 10 c = (if is_ascii_digit c then Some (digit_value c) else None)"
  by (auto simp: to_digit_def is_ascii_digit_iff digit_value_def Let_def)

lemma radix_value_10:
  assumes "list_all is_ascii_digit ds"
  shows "radix_value 10 ds = digits_value ds"
  using assms
proof (induction ds rule: rev_induct)
  case (snoc c ds)
  then show ?case by (simp add: radix_value_def digits_value_def to_digit_10)
qed (simp add: radix_value_def digits_value_def)

lemma digits_of_append:
  assumes "list_all is_ascii_digit ds" and "case rest of [] \<Rightarrow> True | c # _ \<Rightarrow> \<not> is_ascii_digit c"
  shows "digits_of 10 (ds @ rest) = ds"
  using assms by (cases rest) (auto simp: digits_of_def to_digit_10 takeWhile_append list_all_iff)

lemma show_nat_no_leading_zero: "hd (show_nat n) = CHR ''0'' \<Longrightarrow> length (show_nat n) = 1"
proof (induction n rule: show_nat.induct)
  case (1 n)
  show ?case
  proof (cases "n < 10")
    case True
    then show ?thesis by (subst show_nat.simps) simp
  next
    case False
    then have sn: "show_nat n = show_nat (n div 10) @ [digit_char (n mod 10)]"
      by (subst show_nat.simps) simp
    with 1(2) have z: "hd (show_nat (n div 10)) = CHR ''0''" by simp
    with 1(1) False have "length (show_nat (n div 10)) = 1" by simp
    with z have "show_nat (n div 10) = [CHR ''0'']" by (cases "show_nat (n div 10)") auto
    then have "n div 10 = 0" using digits_value_show [of "n div 10"]
      by (simp add: digits_value_def digit_value_def)
    with False show ?thesis by simp
  qed
qed

lemma length_show_nat_le: "n < 10 ^ k \<Longrightarrow> 0 < k \<Longrightarrow> length (show_nat n) \<le> k"
proof (induction k arbitrary: n)
  case (Suc k)
  show ?case
  proof (cases "n < 10")
    case True
    then show ?thesis by (subst show_nat.simps) simp
  next
    case False
    with Suc.prems have "n div 10 < 10 ^ k" "0 < k" by (auto simp: less_mult_imp_div_less mult.commute intro: gr0I)
    with Suc.IH [of "n div 10"] False show ?thesis by (subst show_nat.simps) simp
  qed
qed simp

lemma read_number_show:
  assumes "n \<le> hi" and "case m of None \<Rightarrow> True | Some k \<Rightarrow> length (show_nat n) \<le> k"
    and "case rest of [] \<Rightarrow> True | c # _ \<Rightarrow> \<not> is_ascii_digit c"
  shows "read_number 10 m z hi (show_nat n @ rest) = Some (n, rest)"
  using assms digits_of_append [OF show_nat_digits assms(3), of n] show_nat_no_leading_zero [of n]
    radix_value_10 [OF show_nat_digits, of n]
  by (auto simp: read_number_def Let_def split: option.splits)

lemma octet_length: "x \<le> 255 \<Longrightarrow> length (show_nat x) \<le> 3"
  by (rule length_show_nat_le) auto

fun show_octets :: "nat \<Rightarrow> nat list \<Rightarrow> string" where
  "show_octets i [] = []"
| "show_octets i (x # xs) = (if 0 < i then ''.'' else []) @ show_nat x @ show_octets (Suc i) xs"

definition no_digit_start :: "string \<Rightarrow> bool" where
  "no_digit_start rest \<longleftrightarrow> (case rest of [] \<Rightarrow> True | c # _ \<Rightarrow> \<not> is_ascii_digit c)"

lemma read_octets_show:
  assumes "\<forall>x \<in> set xs. x \<le> 255" and "no_digit_start rest"
  shows "read_octets i (length xs) (show_octets i xs @ rest) = Some (xs, rest)"
  using assms
proof (induction xs arbitrary: i)
  case (Cons x xs)
  have nd: "no_digit_start (show_octets (Suc i) xs @ rest)"
    using Cons.prems(2) by (cases xs) (auto simp: no_digit_start_def is_ascii_digit_iff)
  have "read_number 10 (Some 3) False 255 (show_nat x @ show_octets (Suc i) xs @ rest) =
      Some (x, show_octets (Suc i) xs @ rest)"
    using Cons.prems nd by (intro read_number_show) (auto simp: octet_length no_digit_start_def)
  with Cons show ?case by (cases "i = 0") (auto simp: read_separator_def read_given_char_def)
qed simp

lemma show_ipv4_octets: "show_ipv4 [a, b, c, d] = show_octets 0 [a, b, c, d]"
  by (simp add: show_ipv4_def)

lemma wf_octets_cases:
  assumes "wf_octets os"
  obtains a b c d where "os = [a, b, c, d]" "a \<le> 255" "b \<le> 255" "c \<le> 255" "d \<le> 255"
proof -
  from assms have "length os = Suc (Suc (Suc (Suc 0)))" by (simp add: wf_octets_def)
  then obtain a b c d where "os = [a, b, c, d]" by (auto simp: length_Suc_conv)
  with assms that show ?thesis by (simp add: wf_octets_def)
qed

lemma read_ipv4_show:
  assumes "wf_octets os" and "no_digit_start rest"
  shows "read_ipv4_addr (show_ipv4 os @ rest) = Some (os, rest)"
proof -
  obtain a b c d where os: "os = [a, b, c, d]"
    using assms(1) by (rule wf_octets_cases)
  have len: "length os = 4" and le: "\<forall>x \<in> set os. x \<le> 255"
    using assms(1) by (auto simp: wf_octets_def)
  have "show_ipv4 os = show_octets 0 os" unfolding os by (rule show_ipv4_octets)
  with read_octets_show [OF le assms(2), of 0, unfolded len] show ?thesis
    by (simp add: read_ipv4_addr_def)
qed

lemma parse_show_socket_v4:
  assumes "wf_octets os" and "port \<le> 65535"
  shows "parse_socket_addr (show_socket_addr (SocketV4 os port)) = Some (SocketV4 os port)"
proof -
  have "no_digit_start ('':'' @ show_nat port)"
    by (simp add: no_digit_start_def is_ascii_digit_iff)
  from read_ipv4_show [OF assms(1) this]
  have "read_socket_addr_v4 (show_socket_addr (SocketV4 os port)) = Some (SocketV4 os port, [])"
    using read_number_show [of port 65535 None "[]" True] assms(2)
    by (simp add: read_socket_addr_v4_def read_port_def read_given_char_def)
  then show ?thesis by (simp add: parse_socket_addr_def parse_with_def read_socket_addr_def)
qed

subsection \<open>IPv6 socket addresses survive printing and parsing\<close>

lemma to_digit_hex [simp]: "d < 16 \<Longrightarrow> to_digit 16 (hex_digit d) = Some d"
  by (auto simp: to_digit_def hex_digit_def Let_def)

lemma hex_digit_not_sep: "d < 16 \<Longrightarrow> hex_digit d \<noteq> CHR ''.''"
  using to_digit_hex [of d] by (auto simp: to_digit_def)

definition hex_text :: "string \<Rightarrow> bool" where
  "hex_text s \<longleftrightarrow> (\<forall>c \<in> set s. \<exists>d < 16. c = hex_digit d)"

lemma show_hex_props:
  "hex_text (show_hex n) \<and> show_hex n \<noteq> [] \<and> radix_value 16 (show_hex n) = n"
proof (induction n rule: show_hex.induct)
  case (1 n)
  show ?case
  proof (cases "n < 16")
    case True
    then show ?thesis by (subst (1 2 3) show_hex.simps) (auto simp: hex_text_def radix_value_def)
  next
    case False
    with 1 show ?thesis
      by (subst (1 2 3) show_hex.simps) (auto simp: hex_text_def radix_value_def intro!: exI [of _ "n mod 16"])
  qed
qed

lemma length_show_hex: "n < 16 ^ k \<Longrightarrow> 0 < k \<Longrightarrow> length (show_hex n) \<le> k"
proof (induction k arbitrary: n)
  case (Suc k)
  show ?case
  proof (cases "n < 16")
    case True
    then show ?thesis by (subst show_hex.simps) simp
  next
    case False
    with Suc.prems have "n div 16 < 16 ^ k" "0 < k" by (auto simp: less_mult_imp_div_less mult.commute intro: gr0I)
    with Suc.IH [of "n div 16"] False show ?thesis by (subst show_hex.simps) simp
  qed
qed simp

definition no_hex_start :: "string \<Rightarrow> bool" where
  "no_hex_start rest \<longleftrightarrow> (case rest of [] \<Rightarrow> True | c # _ \<Rightarrow> to_digit 16 c = None \<and> c \<noteq> CHR ''.'')"

lemma read_hex_show:
  assumes "n \<le> 65535" and "no_hex_start rest"
  shows "read_number 16 (Some 4) True 65535 (show_hex n @ rest) = Some (n, rest)"
proof -
  have "\<forall>c \<in> set (show_hex n). to_digit 16 c \<noteq> None" using show_hex_props [of n] by (auto simp: hex_text_def)
  then have "digits_of 16 (show_hex n @ rest) = show_hex n"
    using assms(2) by (cases rest) (auto simp: digits_of_def no_hex_start_def takeWhile_append)
  with assms(1) show_hex_props [of n] length_show_hex [of n 4] show ?thesis by (simp add: read_number_def Let_def)
qed

lemma read_ipv4_fails:
  assumes "hex_text xs" and "no_hex_start rest"
  shows "read_ipv4_addr (xs @ rest) = None"
proof -
  let ?P = "\<lambda>c. to_digit 10 c \<noteq> None"
  have dot: "\<not> (\<exists>r. dropWhile ?P (xs @ rest) = CHR ''.'' # r)"
  proof (cases "\<exists>c \<in> set xs. \<not> ?P c")
    case True
    then have d: "dropWhile ?P (xs @ rest) = dropWhile ?P xs @ rest" by (auto simp: dropWhile_append)
    from True have "dropWhile ?P xs \<noteq> []" by (auto simp: dropWhile_eq_Nil_conv)
    then have "hd (dropWhile ?P xs) \<in> set xs" by (metis hd_in_set set_dropWhileD)
    moreover have "CHR ''.'' \<notin> set xs" using assms(1) hex_digit_not_sep unfolding hex_text_def by metis
    ultimately show ?thesis using \<open>dropWhile ?P xs \<noteq> []\<close> unfolding d by (cases "dropWhile ?P xs") auto
  next
    case False
    then have "dropWhile ?P (xs @ rest) = dropWhile ?P rest" by (auto simp: dropWhile_append)
    moreover have "dropWhile ?P rest = rest"
      using assms(2) by (cases rest) (auto simp: no_hex_start_def to_digit_def Let_def split: if_splits)
    ultimately show ?thesis using assms(2) by (auto simp: no_hex_start_def)
  qed
  have "read_number 10 (Some 3) False 255 (xs @ rest) = None \<or>
      (\<exists>v. read_number 10 (Some 3) False 255 (xs @ rest) = Some (v, dropWhile ?P (xs @ rest)))"
    by (auto simp: read_number_def Let_def digits_of_def dropWhile_eq_drop)
  with dot show ?thesis
    by (auto simp: read_ipv4_addr_def numeral_eq_Suc read_separator_def read_given_char_def split: list.splits if_splits)
qed

text \<open>Where a run of groups ends: at the end of the address or at the double colon.\<close>

definition groups_end :: "string \<Rightarrow> bool" where
  "groups_end rest \<longleftrightarrow> rest = [] \<or> (\<exists>r. rest = CHR '']'' # r \<or> rest = CHR ''%'' # r \<or> rest = CHR '':'' # CHR '':'' # r)"

lemma groups_end_no_hex: "groups_end rest \<Longrightarrow> no_hex_start rest"
  by (auto simp: groups_end_def no_hex_start_def to_digit_def)

lemma read_nothing:
  assumes "no_hex_start s"
  shows "read_ipv4_addr s = None" "read_number 16 m z hi s = None"
  using read_ipv4_fails [of "[]" s] assms
  by (cases s; auto simp: hex_text_def read_number_def digits_of_def no_hex_start_def Let_def)+

lemma read_groups_end: "groups_end rest \<Longrightarrow> read_groups limit i rest = ([], False, rest)"
proof -
  assume e: "groups_end rest"
  have "no_hex_start (CHR '':'' # r)" for r by (simp add: no_hex_start_def to_digit_def)
  with e read_nothing [OF groups_end_no_hex [OF e]] read_nothing [of "CHR '':'' # _"] show ?thesis
    by (subst read_groups.simps) (auto simp: read_separator_def read_given_char_def groups_end_def Let_def split: option.splits)
qed

fun fmt_groups :: "nat \<Rightarrow> nat list \<Rightarrow> string" where
  "fmt_groups i [] = []"
| "fmt_groups i (g # gs) = (if 0 < i then '':'' else []) @ show_hex g @ fmt_groups (Suc i) gs"

lemma read_groups_fmt:
  assumes "\<forall>g \<in> set gs. g \<le> 65535" and "groups_end rest" and "i + length gs \<le> limit"
  shows "read_groups limit i (fmt_groups i gs @ rest) = (gs, False, rest)"
  using assms
proof (induction gs arbitrary: i)
  case Nil
  then show ?case by (simp add: read_groups_end)
next
  case (Cons g gs)
  have n: "no_hex_start (fmt_groups (Suc i) gs @ rest)"
    using groups_end_no_hex [OF Cons.prems(2)] by (cases gs) (auto simp: no_hex_start_def to_digit_def)
  have h: "hex_text (show_hex g)" using show_hex_props by blast
  from Cons.prems have "g \<le> 65535" by simp
  from read_ipv4_fails [OF h n] read_hex_show [OF this n] Cons
  show ?case by (subst read_groups.simps) (cases "i = 0"; simp add: read_separator_def read_given_char_def Let_def)
qed

lemma fmt_groups_shift: "fmt_groups (Suc i) gs = fmt_groups (Suc 0) gs"
  by (induction gs arbitrary: i) (metis fmt_groups.simps zero_less_Suc)+

lemma fmt_subslice_groups: "fmt_subslice gs = fmt_groups 0 gs"
proof (induction gs rule: fmt_subslice.induct)
  case (3 g h hs)
  then show ?case using fmt_groups_shift [of 1 hs] by simp
qed simp_all

text \<open>The printer's run of zeros is a run of zeros within the address.\<close>

definition zero_run :: "nat list \<Rightarrow> nat \<times> nat \<Rightarrow> bool" where
  "zero_run gs r \<longleftrightarrow> fst r + snd r \<le> length gs \<and> (\<forall>k. fst r \<le> k \<and> k < fst r + snd r \<longrightarrow> gs ! k = 0)"

lemma zero_run_append: "zero_run pre r \<Longrightarrow> zero_run (pre @ gs) r"
  by (auto simp: zero_run_def nth_append)

lemma zero_runs_ok:
  "zero_run pre longest \<Longrightarrow> zero_run pre current \<Longrightarrow> snd current = 0 \<or> fst current + snd current = length pre \<Longrightarrow>
     zero_run (pre @ gs) (zero_runs (length pre) longest current gs)"
proof (induction gs arbitrary: pre longest current)
  case (Cons g gs)
  show ?case
  proof (cases "g = 0")
    case False
    have "zero_run (pre @ [g]) (0, 0)" by (simp add: zero_run_def)
    from Cons.IH [of "pre @ [g]" longest "(0, 0)", OF _ this] Cons.prems False show ?thesis
      by (simp add: zero_run_append)
  next
    case True
    let ?c = "if snd current = 0 then (length pre, 1) else (fst current, snd current + 1)"
    have c: "zero_run (pre @ [g]) ?c" "fst ?c + snd ?c = length (pre @ [g])"
      using Cons.prems True by (auto simp: zero_run_def nth_append)
    let ?l = "if snd ?c > snd longest then ?c else longest"
    have "zero_run (pre @ [g]) ?l" using c(1) Cons.prems(1) zero_run_append by simp
    from Cons.IH [OF this c(1)] c(2) True show ?thesis by (simp add: Let_def)
  qed
qed (simp add: zero_run_append)

lemma zero_run_split:
  assumes "zero_run gs (start, n)"
  shows "gs = take start gs @ replicate n 0 @ drop (start + n) gs" and "start + n \<le> length gs"
proof -
  have "take n (drop start gs) = replicate n 0"
    using assms by (intro nth_equalityI) (auto simp: zero_run_def)
  then show "gs = take start gs @ replicate n 0 @ drop (start + n) gs"
    by (metis append_take_drop_id drop_drop add.commute)
  show "start + n \<le> length gs" using assms by (simp add: zero_run_def)
qed

definition wf_segments :: "nat list \<Rightarrow> bool" where
  "wf_segments gs \<longleftrightarrow> length gs = 8 \<and> (\<forall>g \<in> set gs. g \<le> 65535)"

definition addr_end :: "string \<Rightarrow> bool" where
  "addr_end rest \<longleftrightarrow> rest = [] \<or> (\<exists>r. rest = CHR '']'' # r \<or> rest = CHR ''%'' # r)"

lemma addr_end_groups: "addr_end rest \<Longrightarrow> groups_end rest"
  by (auto simp: addr_end_def groups_end_def)

lemma read_ipv6_compressed:
  assumes "\<forall>g \<in> set hs. g \<le> 65535" and "\<forall>g \<in> set ts. g \<le> 65535" and "length hs + length ts < 7" and "addr_end rest"
  shows "read_ipv6_addr (fmt_subslice hs @ ''::'' @ fmt_subslice ts @ rest) =
    Some (hs @ replicate (8 - length hs - length ts) 0 @ ts, rest)"
proof -
  have e: "groups_end (''::'' @ fmt_subslice ts @ rest)" by (auto simp: groups_end_def)
  have "read_groups 8 0 (fmt_subslice hs @ ''::'' @ fmt_subslice ts @ rest) = (hs, False, ''::'' @ fmt_subslice ts @ rest)"
    unfolding fmt_subslice_groups [of hs] using assms by (intro read_groups_fmt [OF _ e]) auto
  moreover have "read_groups (8 - (length hs + 1)) 0 (fmt_subslice ts @ rest) = (ts, False, rest)"
    unfolding fmt_subslice_groups using assms by (intro read_groups_fmt [OF _ addr_end_groups]) auto
  ultimately show ?thesis using assms(3) by (simp add: read_ipv6_addr_def read_given_char_def)
qed

lemma read_ipv6_mapped:
  assumes "wf_octets os" and "addr_end rest"
  shows "read_ipv6_addr (''::ffff:'' @ show_ipv4 os @ rest) =
    Some ([0, 0, 0, 0, 0, 0xFFFF, os ! 0 * 256 + os ! 1, os ! 2 * 256 + os ! 3], rest)"
proof -
  let ?s = "show_ipv4 os @ rest"
  have e: "read_groups 8 0 (''::ffff:'' @ ?s) = ([], False, ''::ffff:'' @ ?s)"
    by (rule read_groups_end) (auto simp: groups_end_def)
  have f: "show_hex 0xFFFF = ''ffff''" by (simp add: show_hex.simps hex_digit_def char_of_def bit_0)
  have n: "no_hex_start ('':'' @ ?s)" by (simp add: no_hex_start_def to_digit_def)
  have "no_digit_start rest" using assms(2) by (auto simp: addr_end_def no_digit_start_def is_ascii_digit_iff)
  from read_ipv4_show [OF assms(1) this]
  have m: "read_groups 7 1 ('':'' @ ?s) = ([os ! 0 * 256 + os ! 1, os ! 2 * 256 + os ! 3], True, rest)"
    by (subst read_groups.simps) (simp add: read_separator_def read_given_char_def)
  have "read_ipv4_addr (''ffff'' @ '':'' @ ?s) = None" "read_number 16 (Some 4) True 65535 (''ffff'' @ '':'' @ ?s) = Some (0xFFFF, '':'' @ ?s)"
    using read_ipv4_fails [OF _ n] read_hex_show [where n = 65535, OF _ n] show_hex_props [where n = 65535]
    by (simp_all only: f)
  then have "read_groups 7 0 (''ffff:'' @ ?s) = ([0xFFFF, os ! 0 * 256 + os ! 1, os ! 2 * 256 + os ! 3], True, rest)"
    using m by (subst read_groups.simps) (simp add: read_separator_def)
  moreover have "replicate 5 (0 :: nat) = [0, 0, 0, 0, 0]" by (simp add: eval_nat_numeral)
  ultimately show ?thesis using e by (simp add: read_ipv6_addr_def read_given_char_def)
qed

lemma read_ipv6_show:
  assumes "wf_segments gs" and "addr_end rest"
  shows "read_ipv6_addr (show_ipv6 gs @ rest) = Some (gs, rest)"
proof -
  have len: "length gs = 8" and le: "\<forall>g \<in> set gs. g \<le> 65535" using assms(1) by (auto simp: wf_segments_def)
  obtain start n where z: "zero_runs 0 (0, 0) (0, 0) gs = (start, n)" by fastforce
  have r: "zero_run gs (start, n)"
    using zero_runs_ok [of "[]" "(0, 0)" "(0, 0)" gs] z by (simp add: zero_run_def)
  consider (mapped) "take 6 gs = [0, 0, 0, 0, 0, 0xFFFF]" | (compressed) "take 6 gs \<noteq> [0, 0, 0, 0, 0, 0xFFFF]" "1 < n"
    | (full) "take 6 gs \<noteq> [0, 0, 0, 0, 0, 0xFFFF]" "\<not> 1 < n" by blast
  then show ?thesis
  proof cases
    case mapped
    have "drop 6 gs = [gs ! 6, gs ! 7]"
      using len Cons_nth_drop_Suc [of 6 gs] Cons_nth_drop_Suc [of 7 gs] by simp
    with mapped have gs: "gs = [0, 0, 0, 0, 0, 0xFFFF, gs ! 6, gs ! 7]" by (metis append_Cons append_Nil append_take_drop_id)
    have w: "wf_octets [gs ! 6 div 256, gs ! 6 mod 256, gs ! 7 div 256, gs ! 7 mod 256]"
    proof -
      have "gs ! 6 \<le> 65535" "gs ! 7 \<le> 65535" using le len by auto
      then have "gs ! 6 div 256 \<le> 255" "gs ! 7 div 256 \<le> 255" by linarith+
      then show ?thesis by (simp add: wf_octets_def less_Suc_eq_le [symmetric])
    qed
    from read_ipv6_mapped [OF w assms(2)] mapped gs show ?thesis by (simp add: show_ipv6_def)
  next
    case compressed
    note sp = zero_run_split [OF r]
    have l: "length (take start gs) + length (drop (start + n) gs) < 7" using sp(2) len compressed(2) by simp
    have k: "8 - length (take start gs) - length (drop (start + n) gs) = n" using sp(2) len by simp
    from read_ipv6_compressed [OF _ _ l assms(2)] le compressed z sp(1) show ?thesis
      unfolding k by (auto simp: show_ipv6_def dest: in_set_takeD in_set_dropD)
  next
    case full
    have "read_groups 8 0 (fmt_subslice gs @ rest) = (gs, False, rest)"
      unfolding fmt_subslice_groups using le len by (intro read_groups_fmt [OF _ addr_end_groups [OF assms(2)]]) auto
    with full z len show ?thesis by (simp add: show_ipv6_def read_ipv6_addr_def)
  qed
qed

fun wf_socket :: "socket_addr \<Rightarrow> bool" where
  "wf_socket (SocketV4 os port) \<longleftrightarrow> wf_octets os \<and> port \<le> 65535"
| "wf_socket (SocketV6 gs scope port) \<longleftrightarrow> wf_segments gs \<and> scope < 2 ^ 32 \<and> port \<le> 65535"

lemma read_port_show: "port \<le> 65535 \<Longrightarrow> read_port ('':'' @ show_nat port) = Some (port, [])"
  using read_number_show [of port 65535 None "[]" True] by (simp add: read_port_def read_given_char_def)

lemma parse_show_socket:
  assumes "wf_socket a"
  shows "parse_socket_addr (show_socket_addr a) = Some a"
proof (cases a)
  case (SocketV4 os port)
  with assms show ?thesis by (simp add: parse_show_socket_v4 del: show_socket_addr.simps)
next
  case (SocketV6 gs scope port)
  with assms have w: "wf_segments gs" "scope < 2 ^ 32" "port \<le> 65535" by auto
  let ?sc = "if scope = 0 then [] else ''%'' @ show_nat scope" and ?p = "'':'' @ show_nat port"
  have e: "addr_end (?sc @ '']'' @ ?p)" by (auto simp: addr_end_def)
  have n: "case '']'' @ ?p of [] \<Rightarrow> True | c # _ \<Rightarrow> \<not> is_ascii_digit c" by (simp add: is_ascii_digit_iff)
  have sc: "read_scope_id (?sc @ '']'' @ ?p) = (if scope = 0 then None else Some (scope, '']'' @ ?p))"
    using read_number_show [OF _ _ n, of scope "2 ^ 32 - 1" None True] w(2)
    by (simp add: read_scope_id_def read_given_char_def)
  have "read_socket_addr_v4 (show_socket_addr a) = None"
    using read_nothing(1) [of "show_socket_addr a"] SocketV6
    by (simp add: read_socket_addr_v4_def no_hex_start_def to_digit_def)
  moreover have "read_socket_addr_v6 (show_socket_addr a) = Some (a, [])"
    using read_ipv6_show [OF w(1) e] sc read_port_show [OF w(3)] SocketV6
    by (cases "scope = 0") (simp_all add: read_socket_addr_v6_def read_given_char_def)
  ultimately show ?thesis by (simp add: parse_socket_addr_def parse_with_def read_socket_addr_def)
qed

subsection \<open>The parser returns well-formed addresses\<close>

lemma read_number_le: "read_number radix m z hi s = Some (v, r) \<Longrightarrow> v \<le> hi"
  by (auto simp: read_number_def Let_def split: if_splits)

lemma read_separator_Some: "read_separator c i inner s = Some v \<Longrightarrow> \<exists>s'. inner s' = Some v"
  by (auto simp: read_separator_def split: if_splits option.splits)

lemma read_octets_wf: "read_octets i n s = Some (os, r) \<Longrightarrow> length os = n \<and> (\<forall>x \<in> set os. x \<le> 255)"
proof (induction i n s arbitrary: os r rule: read_octets.induct)
  case (2 i n s)
  then show ?case
    by (auto split: option.splits prod.splits dest!: read_separator_Some dest: read_number_le)
qed simp

lemma read_groups_wf:
  "read_groups limit i s = (gs, b, r) \<Longrightarrow> i \<le> limit \<Longrightarrow> i + length gs \<le> limit \<and> (\<forall>g \<in> set gs. g \<le> 65535)"
proof (induction limit i s arbitrary: gs b r rule: read_groups.induct)
  case (1 limit i s)
  let ?v4 = "if i < limit - 1 then read_separator CHR '':'' i read_ipv4_addr s else None"
  consider (stop) "limit \<le> i" | (v4) os r' where "\<not> limit \<le> i" "?v4 = Some (os, r')"
    | (hex) "\<not> limit \<le> i" "?v4 = None" by fastforce
  then show ?case
  proof cases
    case stop
    with 1(2,3) show ?thesis by (simp add: read_groups.simps [of limit])
  next
    case v4
    then obtain s' where "read_octets 0 4 s' = Some (os, r')" and i: "i < limit - 1"
      by (auto simp: read_ipv4_addr_def split: if_splits dest!: read_separator_Some)
    then have len: "length os = 4" and le: "\<forall>x \<in> set os. x \<le> 255" using read_octets_wf by blast+
    have "os ! 0 \<le> 255" "os ! 1 \<le> 255" "os ! 2 \<le> 255" "os ! 3 \<le> 255" using len le by auto
    moreover have "gs = [os ! 0 * 256 + os ! 1, os ! 2 * 256 + os ! 3]"
      using v4 1(2) by (subst (asm) read_groups.simps) (simp only: if_False Let_def option.case prod.case, simp)
    ultimately show ?thesis using i by auto
  next
    case hex
    show ?thesis
    proof (cases "read_separator CHR '':'' i (read_number 16 (Some 4) True 65535) s")
      case None
      with hex 1(2,3) show ?thesis by (subst (asm) (1) read_groups.simps) (simp only: if_False Let_def option.case, simp)
    next
      case (Some p)
      obtain g r1 where p: "p = (g, r1)" by (cases p)
      obtain gs' b' r' where rec: "read_groups limit (Suc i) r1 = (gs', b', r')" using prod_cases3 by blast
      from Some p have g: "g \<le> 65535" by (auto dest!: read_separator_Some dest: read_number_le)
      have "gs = g # gs'" using hex 1(2) Some p rec
        by (subst (asm) (1) read_groups.simps) (simp only: if_False Let_def option.case prod.case, simp)
      with 1(1) [OF hex(1) refl hex(2) Some p [symmetric] rec] hex(1) g show ?thesis by auto
    qed
  qed
qed

lemma read_ipv6_wf: "read_ipv6_addr s = Some (gs, r) \<Longrightarrow> wf_segments gs"
proof -
  assume a: "read_ipv6_addr s = Some (gs, r)"
  obtain hs b1 r1 where h: "read_groups 8 0 s = (hs, b1, r1)" using prod_cases3 by blast
  from read_groups_wf [OF h] have hw: "length hs \<le> 8" "\<forall>g \<in> set hs. g \<le> 65535" by auto
  show ?thesis
  proof (cases "length hs = 8")
    case True
    with a h hw show ?thesis by (simp add: read_ipv6_addr_def wf_segments_def)
  next
    case False
    with a h obtain r2 ts b2 where t: "read_groups (8 - (length hs + 1)) 0 r2 = (ts, b2, r)"
      "gs = hs @ replicate (8 - length hs - length ts) 0 @ ts"
      by (auto simp: read_ipv6_addr_def split: if_splits option.splits prod.splits)
    from read_groups_wf [OF t(1)] hw False have "length ts \<le> 8 - (length hs + 1)" "\<forall>g \<in> set ts. g \<le> 65535" by auto
    with hw t(2) show ?thesis by (auto simp: wf_segments_def)
  qed
qed

lemma read_port_le: "read_port s = Some (v, r) \<Longrightarrow> v \<le> 65535"
  by (auto simp: read_port_def split: option.splits dest: read_number_le)

lemma read_scope_le: "read_scope_id s = Some (v, r) \<Longrightarrow> v < 2 ^ 32"
  by (auto simp: read_scope_id_def split: option.splits dest!: read_number_le)

lemma parse_socket_wf: "parse_socket_addr s = Some a \<Longrightarrow> wf_socket a"
proof -
  assume "parse_socket_addr s = Some a"
  then have r: "read_socket_addr s = Some (a, [])"
    by (auto simp: parse_socket_addr_def parse_with_def split: option.splits list.splits)
  show ?thesis
  proof (cases "read_socket_addr_v4 s")
    case (Some v)
    with r show ?thesis
      by (auto simp: read_socket_addr_def read_socket_addr_v4_def read_ipv4_addr_def wf_octets_def
          split: option.splits dest!: read_octets_wf read_port_le)
  next
    case None
    with r show ?thesis
      by (auto simp: read_socket_addr_def read_socket_addr_v6_def split: option.splits
          dest!: read_ipv6_wf read_port_le read_scope_le)
  qed
qed

subsection \<open>Shape of the printed and of the accepted texts\<close>

definition dotted_char :: "char \<Rightarrow> bool" where
  "dotted_char c \<longleftrightarrow> is_ascii_digit c \<or> c = CHR ''.''"

lemma read_number_text:
  "read_number 10 m z hi s = Some (v, r) \<Longrightarrow> \<exists>pre. s = pre @ r \<and> list_all is_ascii_digit pre"
proof -
  assume "read_number 10 m z hi s = Some (v, r)"
  then have "r = drop (length (digits_of 10 s)) s"
    by (auto simp: read_number_def Let_def split: if_splits option.splits)
  then have "r = dropWhile (\<lambda>c. to_digit 10 c \<noteq> None) s" by (simp add: digits_of_def dropWhile_eq_drop)
  then have "s = digits_of 10 s @ r" by (simp add: digits_of_def)
  moreover have "list_all is_ascii_digit (digits_of 10 s)"
    by (auto simp: digits_of_def list_all_iff to_digit_10 dest!: set_takeWhileD split: if_splits)
  ultimately show ?thesis by blast
qed

lemma read_octets_text:
  "read_octets i n s = Some (os, r) \<Longrightarrow> \<exists>pre. s = pre @ r \<and> list_all dotted_char pre"
proof (induction i n s arbitrary: os r rule: read_octets.induct)
  case (2 i n s)
  then obtain o1 r1 os' where 1: "read_separator CHR ''.'' i (read_number 10 (Some 3) False 255) s = Some (o1, r1)"
    and 2: "read_octets (Suc i) n r1 = Some (os', r)" by (auto split: option.splits prod.splits)
  from 1 obtain s' where "s = s' \<or> s = CHR ''.'' # s'" "read_number 10 (Some 3) False 255 s' = Some (o1, r1)"
    by (auto simp: read_separator_def read_given_char_def split: if_splits option.splits list.splits)
  with read_number_text obtain p1 where "s = p1 @ r1 \<or> s = CHR ''.'' # p1 @ r1" "list_all is_ascii_digit p1" by blast
  moreover from "2.IH" [OF 1 refl 2] obtain p2 where "r1 = p2 @ r" "list_all dotted_char p2" by blast
  ultimately have "s = (p1 @ p2) @ r \<or> s = (CHR ''.'' # p1 @ p2) @ r"
    "list_all dotted_char (p1 @ p2)" "list_all dotted_char (CHR ''.'' # p1 @ p2)"
    by (auto simp: dotted_char_def list_all_iff)
  then show ?case by blast
qed simp

lemma parse_ipv4_text: "parse_ipv4_addr s = Some os \<Longrightarrow> wf_octets os \<and> list_all dotted_char s"
proof -
  assume "parse_ipv4_addr s = Some os"
  then have "read_octets 0 4 s = Some (os, [])"
    by (auto simp: parse_ipv4_addr_def parse_with_def read_ipv4_addr_def split: if_splits option.splits list.splits)
  then show ?thesis using read_octets_wf read_octets_text by (fastforce simp: wf_octets_def)
qed

lemma show_ipv4_text:
  assumes "wf_octets os"
  shows "list_all dotted_char (show_ipv4 os)" "length (show_ipv4 os) \<le> 15" "show_ipv4 os \<noteq> []"
    "is_ascii_digit (last (show_ipv4 os))"
proof -
  obtain a b c d where os: "os = [a, b, c, d]" "a \<le> 255" "b \<le> 255" "c \<le> 255" "d \<le> 255"
    using wf_octets_cases [OF assms] .
  have "list_all dotted_char (show_nat n)" for n
    using show_nat_digits by (auto simp: list_all_iff dotted_char_def)
  then show "list_all dotted_char (show_ipv4 os)" by (simp add: show_ipv4_def dotted_char_def)
  show "length (show_ipv4 os) \<le> 15"
    using octet_length [OF os(2)] octet_length [OF os(3)] octet_length [OF os(4)] octet_length [OF os(5)]
    by (simp add: show_ipv4_def os(1))
  show "show_ipv4 os \<noteq> []" by (simp add: show_ipv4_def)
  show "is_ascii_digit (last (show_ipv4 os))"
    using show_nat_digits [of "os ! 3"] by (simp add: show_ipv4_def list_all_iff)
qed

lemma parse_show_ipv4: "wf_octets os \<Longrightarrow> parse_ipv4_addr (show_ipv4 os) = Some os"
  using read_ipv4_show [of os "[]"] show_ipv4_text(2) [of os]
  by (simp add: parse_ipv4_addr_def parse_with_def no_digit_start_def)

lemma fmt_groups_text:
  assumes "\<forall>g \<in> set gs. g \<le> 65535"
  shows "CHR '']'' \<notin> set (fmt_groups i gs)" "length (fmt_groups i gs) \<le> 5 * length gs"
proof -
  have "to_digit 16 (CHR '']'') = None" by (simp add: to_digit_def)
  then have h: "CHR '']'' \<noteq> hex_digit d" if "d < 16" for d using to_digit_hex [OF that] by (intro notI) simp
  have "CHR '']'' \<notin> set (show_hex g)" for g using show_hex_props [of g] h by (auto simp: hex_text_def)
  then show "CHR '']'' \<notin> set (fmt_groups i gs)" by (induction gs arbitrary: i) auto
  have x: "length (show_hex g) \<le> 4" if "g \<le> 65535" for g using length_show_hex [of g 4] that by simp
  show "length (fmt_groups i gs) \<le> 5 * length gs"
    using assms
  proof (induction gs arbitrary: i)
    case (Cons g gs)
    from Cons.IH [of "Suc i"] Cons.prems x [of g] show ?case by auto
  qed simp
qed

lemma show_ipv6_text:
  assumes "wf_segments gs"
  shows "CHR '']'' \<notin> set (show_ipv6 gs) \<and> length (show_ipv6 gs) \<le> 42"
proof -
  have len: "length gs = 8" and le: "\<forall>g \<in> set gs. g \<le> 65535" using assms by (auto simp: wf_segments_def)
  obtain start n where z: "zero_runs 0 (0, 0) (0, 0) gs = (start, n)" by fastforce
  have t: "\<forall>g \<in> set (take start gs). g \<le> 65535" and d: "\<forall>g \<in> set (drop (start + n) gs). g \<le> 65535"
    using le by (auto dest: in_set_takeD in_set_dropD)
  have "gs ! 6 \<le> 65535" "gs ! 7 \<le> 65535" using le len by auto
  then have "wf_octets [gs ! 6 div 256, gs ! 6 mod 256, gs ! 7 div 256, gs ! 7 mod 256]"
    by (auto simp: wf_octets_def less_Suc_eq_le [symmetric])
  note v4 = show_ipv4_text(1,2) [OF this]
  have "CHR '']'' \<notin> set (show_ipv4 [gs ! 6 div 256, gs ! 6 mod 256, gs ! 7 div 256, gs ! 7 mod 256])"
    using v4(1) by (auto simp: list_all_iff dotted_char_def is_ascii_digit_iff)
  moreover have "length (fmt_groups 0 (take start gs)) + length (fmt_groups 0 (drop (start + n) gs)) \<le> 40"
    using fmt_groups_text(2) [OF t, of 0] fmt_groups_text(2) [OF d, of 0] len by simp
  ultimately show ?thesis
    using v4(2) z fmt_groups_text(1) [OF t] fmt_groups_text(1) [OF d] fmt_groups_text [OF le, of 0] len
    by (simp add: show_ipv6_def fmt_subslice_groups)
qed

lemma parse_show_ipv6: "wf_segments gs \<Longrightarrow> parse_with read_ipv6_addr (show_ipv6 gs) = Some gs"
  using read_ipv6_show [of gs "[]"] by (simp add: parse_with_def addr_end_def)

lemma parse_ipv6_wf: "parse_with read_ipv6_addr s = Some gs \<Longrightarrow> wf_segments gs"
  by (auto simp: parse_with_def dest: read_ipv6_wf split: option.splits list.splits)

end
