(* ===== verification/Event_Schema.thy ===== *)
theory Event_Schema
  imports Yp_Security Std_Net
begin

text \<open>
  The channel listing event of kind 30311 (\<open>src/event/schema.rs\<close>): the listing and its mapping
  to tags, signing, the reception checks 1 to 6 and the summary the event store works with.

  The \<open>nostr\<close> crate is a parameter, the record \<open>nostr\<close> of the functions the code calls: parsing a
  serialised event, checking id and signature, checking the proof of work, building a tag and
  signing. An event carries id and public key as the lower-case hexadecimal strings that
  \<open>to_hex\<close> gives, and its tags as the lists of their elements (\<open>Tag::as_slice\<close>).
\<close>

subsection \<open>Events and the nostr crate\<close>

record event =
  ev_id :: string
  ev_pubkey :: string
  ev_created_at :: nat
  ev_kind :: nat
  ev_tags :: "string list list"
  ev_content :: string
  ev_sig :: string

record event_builder =
  eb_kind :: nat
  eb_content :: string
  eb_tags :: "string list list"
  eb_created_at :: nat
  eb_pow :: "nat option"

record 'k nostr =
  nostr_from_json :: "string \<Rightarrow> event option"
  nostr_as_json :: "event \<Rightarrow> string"
  nostr_verify :: "event \<Rightarrow> bool"
  nostr_check_pow :: "nat \<Rightarrow> event \<Rightarrow> bool"
  nostr_tag_parse :: "string list \<Rightarrow> string + string list"
  nostr_sign_with_keys :: "'k \<Rightarrow> event_builder \<Rightarrow> string + event"

subsection \<open>Constants\<close>

definition CHANNEL_KIND :: nat where
  "CHANNEL_KIND = 30311"

definition MAX_EVENT_BYTES :: nat where
  "MAX_EVENT_BYTES = 16 * 1024"

definition MAX_TAGS :: nat where
  "MAX_TAGS = 64"

definition MAX_TAG_ELEMENT_BYTES :: nat where
  "MAX_TAG_ELEMENT_BYTES = 1024"

definition MAX_BITRATE_KBPS :: nat where
  "MAX_BITRATE_KBPS = 100000"

definition EXPIRATION_OFFSET_SECS :: nat where
  "EXPIRATION_OFFSET_SECS = 600"

definition DEFAULT_MAX_CLOCK_SKEW_SEC :: nat where
  "DEFAULT_MAX_CLOCK_SKEW_SEC = 300"

definition UNKNOWN_COUNT :: int where
  "UNKNOWN_COUNT = - 1"

subsection \<open>Channel listing\<close>

datatype channel_status = Live | Ended

fun status_as_str :: "channel_status \<Rightarrow> string" where
  "status_as_str Live = ''live''"
| "status_as_str Ended = ''ended''"

definition status_parse :: "string \<Rightarrow> channel_status option" where
  "status_parse s = (if s = ''live'' then Some Live else if s = ''ended'' then Some Ended else None)"

record track =
  tr_title :: string
  tr_artist :: string
  tr_album :: string
  tr_url :: string

record channel_listing =
  cl_channel_id :: string
  cl_title :: string
  cl_summary :: "string option"
  cl_genre :: "string option"
  cl_status :: channel_status
  cl_starts :: nat
  cl_current_participants :: int
  cl_streaming :: "string option"
  cl_bitrate_kbps :: "nat option"
  cl_content_type :: "string option"
  cl_tip :: "string option"
  cl_contact :: "string option"
  cl_comment :: "string option"
  cl_relays :: int
  cl_track_info :: "track option"

datatype verify_reject = Oversize | InvalidSig | InvalidFormat string | TimeSkew | PowInsufficient

datatype event_build_error = TagError string | SignError string

definition opt_tag :: "'a option \<Rightarrow> ('a \<Rightarrow> string list) \<Rightarrow> string list list" where
  "opt_tag v f = (case v of None \<Rightarrow> [] | Some x \<Rightarrow> [f x])"

text \<open>The raw tags in the order \<open>to_tags\<close> pushes them.\<close>

definition raw_tags :: "channel_listing \<Rightarrow> nat \<Rightarrow> string list list" where
  "raw_tags l created_at =
     [[''d'', cl_channel_id l], [''title'', cl_title l]]
     @ opt_tag (cl_summary l) (\<lambda>v. [''summary'', v])
     @ opt_tag (cl_genre l) (\<lambda>v. [''t'', v])
     @ [[''status'', status_as_str (cl_status l)], [''starts'', show_nat (cl_starts l)]]
     @ (if cl_current_participants l \<ge> 0
        then [[''current_participants'', show_nat (nat (cl_current_participants l))]] else [])
     @ opt_tag (cl_streaming l) (\<lambda>v. [''streaming'', v])
     @ [[''expiration'', show_nat (wrapping_add_u64 created_at EXPIRATION_OFFSET_SECS)]]
     @ opt_tag (cl_bitrate_kbps l) (\<lambda>v. [''peca'', ''bitrate'', show_nat v])
     @ opt_tag (cl_content_type l) (\<lambda>v. [''peca'', ''type'', v])
     @ opt_tag (cl_tip l) (\<lambda>v. [''peca'', ''tip'', v])
     @ opt_tag (cl_contact l) (\<lambda>v. [''peca'', ''contact'', v])
     @ opt_tag (cl_comment l) (\<lambda>v. [''peca'', ''comment'', v])
     @ (if cl_relays l \<ge> 0 then [[''peca'', ''relays'', show_nat (nat (cl_relays l))]] else [])
     @ opt_tag (cl_track_info l)
         (\<lambda>t. [''peca'', ''track'', tr_title t, tr_artist t, tr_album t, tr_url t])"

fun parse_tags :: "(string list \<Rightarrow> string + string list) \<Rightarrow> string list list \<Rightarrow>
    event_build_error + string list list" where
  "parse_tags tag_parse [] = Inr []"
| "parse_tags tag_parse (t # ts) = (case tag_parse t of Inl e \<Rightarrow> Inl (TagError e)
     | Inr t' \<Rightarrow> and_then (parse_tags tag_parse ts) (\<lambda>ts'. Inr (t' # ts')))"

definition to_tags :: "'k nostr \<Rightarrow> channel_listing \<Rightarrow> nat \<Rightarrow> event_build_error + string list list" where
  "to_tags ns l created_at = parse_tags (nostr_tag_parse ns) (raw_tags l created_at)"

definition sign_listing ::
  "'k nostr \<Rightarrow> channel_listing \<Rightarrow> 'k \<Rightarrow> nat \<Rightarrow> nat \<Rightarrow> event_build_error + event" where
  "sign_listing ns l keys created_at pow_bits =
     and_then (to_tags ns l created_at) (\<lambda>tags.
       let builder = \<lparr>eb_kind = CHANNEL_KIND, eb_content = [], eb_tags = tags,
             eb_created_at = created_at, eb_pow = None\<rparr>;
           builder = (if pow_bits > 0 then builder\<lparr>eb_pow := Some pow_bits\<rparr> else builder)
       in case nostr_sign_with_keys ns keys builder of Inl e \<Rightarrow> Inl (SignError e) | Inr ev \<Rightarrow> Inr ev)"

subsection \<open>Reading tags\<close>

definition slice_get :: "'a list \<Rightarrow> nat \<Rightarrow> 'a option" where
  "slice_get xs i = (if i < length xs then Some (xs ! i) else None)"

fun find_map :: "('a \<Rightarrow> 'b option) \<Rightarrow> 'a list \<Rightarrow> 'b option" where
  "find_map f [] = None"
| "find_map f (x # xs) = (case f x of Some y \<Rightarrow> Some y | None \<Rightarrow> find_map f xs)"

definition tag_value :: "event \<Rightarrow> string \<Rightarrow> string option" where
  "tag_value ev name = find_map (\<lambda>sl.
     if slice_get sl 0 = Some name then slice_get sl 1 else None) (ev_tags ev)"

definition peca_slice :: "event \<Rightarrow> string \<Rightarrow> string list option" where
  "peca_slice ev sub = find (\<lambda>sl. slice_get sl 0 = Some ''peca'' \<and> slice_get sl 1 = Some sub)
     (ev_tags ev)"

definition peca_value :: "event \<Rightarrow> string \<Rightarrow> string option" where
  "peca_value ev sub = Option.bind (peca_slice ev sub) (\<lambda>sl. slice_get sl 2)"

definition parse_u64 :: "string \<Rightarrow> nat option" where
  "parse_u64 s = (if s = [] \<or> \<not> list_all is_ascii_digit s then None else parse_uint u64_max s)"

definition parse_count :: "string option \<Rightarrow> verify_reject + int" where
  "parse_count v = (case v of None \<Rightarrow> Inr UNKNOWN_COUNT
     | Some s \<Rightarrow> ok_or (map_option u64_as_i64 (parse_u64 s)) (InvalidFormat ''invalid count value''))"

definition clean_optional :: "string option \<Rightarrow> verify_reject + string option" where
  "clean_optional v = (case v of None \<Rightarrow> Inr None
     | Some s \<Rightarrow> if contains_control_chars s then Inl (InvalidFormat ''control char in tag'')
                else Inr (Some s))"

definition parse_track :: "event \<Rightarrow> verify_reject + track option" where
  "parse_track ev = (case peca_slice ev ''track'' of None \<Rightarrow> Inr None
     | Some sl \<Rightarrow>
       let get = (\<lambda>i. unwrap_or [] (slice_get sl i)) in
       if list_ex contains_control_chars [get 2, get 3, get 4, get 5]
       then Inl (InvalidFormat ''control char in track'')
       else Inr (Some \<lparr>tr_title = get 2, tr_artist = get 3, tr_album = get 4, tr_url = get 5\<rparr>))"

definition parse_bitrate :: "string option \<Rightarrow> verify_reject + nat option" where
  "parse_bitrate v = (case v of None \<Rightarrow> Inr None
     | Some s \<Rightarrow> and_then (ok_or (parse_u64 s) (InvalidFormat ''invalid bitrate'')) (\<lambda>n.
         if n > MAX_BITRATE_KBPS then Inl (InvalidFormat ''bitrate out of range'') else Inr (Some n)))"

definition parse_tip :: "string option \<Rightarrow> verify_reject + string option" where
  "parse_tip v = (case v of None \<Rightarrow> Inr None
     | Some s \<Rightarrow> if contains_control_chars s \<or> parse_socket_addr s = None
                then Inl (InvalidFormat ''invalid tip ip:port'') else Inr (Some s))"

definition listing_from_event :: "event \<Rightarrow> verify_reject + channel_listing" where
  "listing_from_event ev =
     and_then (ok_or (tag_value ev ''d'') (InvalidFormat ''missing d tag'')) (\<lambda>cid.
     and_then (ok_or (tag_value ev ''title'') (InvalidFormat ''missing title tag'')) (\<lambda>ttl.
     if contains_control_chars ttl then Inl (InvalidFormat ''control char in title'') else
     and_then (ok_or (tag_value ev ''status'') (InvalidFormat ''missing status tag'')) (\<lambda>st_raw.
     and_then (ok_or (status_parse st_raw) (InvalidFormat ''invalid status value'')) (\<lambda>st.
     and_then (ok_or (tag_value ev ''starts'') (InvalidFormat ''missing starts tag'')) (\<lambda>starts_raw.
     and_then (ok_or (parse_u64 starts_raw) (InvalidFormat ''invalid starts value'')) (\<lambda>sts.
     and_then (clean_optional (tag_value ev ''summary'')) (\<lambda>sm.
     and_then (clean_optional (tag_value ev ''t'')) (\<lambda>gn.
     and_then (clean_optional (tag_value ev ''streaming'')) (\<lambda>strm.
     and_then (parse_count (tag_value ev ''current_participants'')) (\<lambda>cp.
     and_then (parse_bitrate (peca_value ev ''bitrate'')) (\<lambda>br.
     and_then (clean_optional (peca_value ev ''type'')) (\<lambda>ct.
     and_then (clean_optional (peca_value ev ''contact'')) (\<lambda>cn.
     and_then (clean_optional (peca_value ev ''comment'')) (\<lambda>cm.
     and_then (parse_tip (peca_value ev ''tip'')) (\<lambda>tp.
     and_then (parse_count (peca_value ev ''relays'')) (\<lambda>rl.
     and_then (parse_track ev) (\<lambda>tr.
     Inr \<lparr>cl_channel_id = cid, cl_title = ttl, cl_summary = sm, cl_genre = gn, cl_status = st, cl_starts = sts,
          cl_current_participants = cp, cl_streaming = strm, cl_bitrate_kbps = br, cl_content_type = ct,
          cl_tip = tp, cl_contact = cn, cl_comment = cm, cl_relays = rl, cl_track_info = tr\<rparr>)))))))))))))))))"

subsection \<open>Reception checks\<close>

record verify_config =
  max_clock_skew_sec :: nat
  min_pow_bits :: nat

definition default_verify_config :: verify_config where
  "default_verify_config = \<lparr>max_clock_skew_sec = DEFAULT_MAX_CLOCK_SKEW_SEC, min_pow_bits = 0\<rparr>"

record verified_listing =
  vl_event :: event
  vl_listing :: channel_listing

fun reject_category :: "verify_reject \<Rightarrow> security_category" where
  "reject_category Oversize = EventOversize"
| "reject_category InvalidSig = EventInvalidSig"
| "reject_category (InvalidFormat d) = EventInvalidFormat"
| "reject_category TimeSkew = EventTimeSkew"
| "reject_category PowInsufficient = EventPowInsufficient"

fun reject_detail :: "verify_reject \<Rightarrow> string" where
  "reject_detail Oversize = ''event exceeds size limit''"
| "reject_detail InvalidSig = ''signature or id verification failed''"
| "reject_detail (InvalidFormat d) = d"
| "reject_detail TimeSkew = ''created_at too far in the future''"
| "reject_detail PowInsufficient = ''proof-of-work below minimum''"

definition validate_format :: "event \<Rightarrow> verify_reject + unit" where
  "validate_format ev =
     (if ev_kind ev \<noteq> CHANNEL_KIND then Inl (InvalidFormat ''unexpected kind'')
      else if length (ev_tags ev) > MAX_TAGS then Inl (InvalidFormat ''too many tags'')
      else if list_ex (list_ex (\<lambda>element. exceeds_bytes element MAX_TAG_ELEMENT_BYTES)) (ev_tags ev)
        then Inl (InvalidFormat ''tag element too long'')
      else and_then (ok_or (tag_value ev ''d'') (InvalidFormat ''missing d tag'')) (\<lambda>d.
        if \<not> is_lower_hex d 32 then Inl (InvalidFormat ''d tag not hex32'')
        else and_then (ok_or (tag_value ev ''status'') (InvalidFormat ''missing status'')) (\<lambda>st.
          if status_parse st = None then Inl (InvalidFormat ''invalid status value'') else Inr ())))"

definition verify_incoming ::
  "'k nostr \<Rightarrow> string \<Rightarrow> verify_config \<Rightarrow> nat \<Rightarrow> verify_reject + verified_listing" where
  "verify_incoming ns raw_json config now =
     (if length raw_json > MAX_EVENT_BYTES then Inl Oversize
      else and_then (ok_or (nostr_from_json ns raw_json) (InvalidFormat ''malformed event json'')) (\<lambda>ev.
        if \<not> nostr_verify ns ev then Inl InvalidSig
        else and_then (validate_format ev) (\<lambda>_.
          if ev_created_at ev > saturating_add_u64 now (max_clock_skew_sec config) then Inl TimeSkew
          else and_then (listing_from_event ev) (\<lambda>listing.
            if min_pow_bits config > 0 \<and> \<not> nostr_check_pow ns (min_pow_bits config) ev
            then Inl PowInsufficient
            else Inr \<lparr>vl_event = ev, vl_listing = listing\<rparr>))))"

subsection \<open>Summary of an event\<close>

type_synonym store_key = "nat \<times> string \<times> string"

record event_summary =
  es_kind :: nat
  es_pubkey :: string
  es_channel_id :: string
  es_event_id :: string
  es_created_at :: nat
  es_expiration :: nat
  es_ended :: bool

definition summary_from_event :: "event \<Rightarrow> event_summary option" where
  "summary_from_event ev = (case tag_value ev ''d'' of None \<Rightarrow> None | Some cid \<Rightarrow>
     Some \<lparr>es_kind = ev_kind ev, es_pubkey = ev_pubkey ev, es_channel_id = cid,
           es_event_id = ev_id ev, es_created_at = ev_created_at ev,
           es_expiration = unwrap_or (wrapping_add_u64 (ev_created_at ev) EXPIRATION_OFFSET_SECS)
             (Option.bind (tag_value ev ''expiration'') parse_u64),
           es_ended = (tag_value ev ''status'' = Some ''ended'')\<rparr>)"

definition summary_key :: "event_summary \<Rightarrow> store_key" where
  "summary_key s = (es_kind s, es_pubkey s, es_channel_id s)"

subsection \<open>Reading back the tags of a listing\<close>

text \<open>What a listing has to satisfy for its tags to be accepted by the content checks.\<close>

definition clean_opt :: "string option \<Rightarrow> bool" where
  "clean_opt v \<longleftrightarrow> (case v of None \<Rightarrow> True | Some s \<Rightarrow> \<not> contains_control_chars s)"

definition count_ok :: "int \<Rightarrow> bool" where
  "count_ok n \<longleftrightarrow> n = UNKNOWN_COUNT \<or> 0 \<le> n \<and> n < 2 ^ 63"

definition track_ok :: "track \<Rightarrow> bool" where
  "track_ok t \<longleftrightarrow> \<not> contains_control_chars (tr_title t) \<and> \<not> contains_control_chars (tr_artist t) \<and>
     \<not> contains_control_chars (tr_album t) \<and> \<not> contains_control_chars (tr_url t)"

definition tip_ok :: "string option \<Rightarrow> bool" where
  "tip_ok v \<longleftrightarrow> (case v of None \<Rightarrow> True
     | Some s \<Rightarrow> \<not> contains_control_chars s \<and> parse_socket_addr s \<noteq> None)"

definition listing_ok :: "channel_listing \<Rightarrow> bool" where
  "listing_ok l \<longleftrightarrow> \<not> contains_control_chars (cl_title l) \<and> cl_starts l \<le> u64_max \<and>
     clean_opt (cl_summary l) \<and> clean_opt (cl_genre l) \<and> clean_opt (cl_streaming l) \<and>
     clean_opt (cl_content_type l) \<and> clean_opt (cl_contact l) \<and> clean_opt (cl_comment l) \<and>
     count_ok (cl_current_participants l) \<and> count_ok (cl_relays l) \<and>
     (case cl_bitrate_kbps l of None \<Rightarrow> True | Some n \<Rightarrow> n \<le> MAX_BITRATE_KBPS) \<and>
     tip_ok (cl_tip l) \<and> (case cl_track_info l of None \<Rightarrow> True | Some t \<Rightarrow> track_ok t)"

lemma find_map_append [simp]:
  "find_map f (xs @ ys) = (case find_map f xs of Some v \<Rightarrow> Some v | None \<Rightarrow> find_map f ys)"
  by (induction xs) (auto split: option.splits)

lemma find_append [simp]:
  "find P (xs @ ys) = (case find P xs of Some v \<Rightarrow> Some v | None \<Rightarrow> find P ys)"
  by (induction xs) auto

lemma find_map_opt_tag [simp]:
  "find_map f (opt_tag v g) = Option.bind v (\<lambda>x. f (g x))"
  by (cases v) (auto simp: opt_tag_def split: option.splits)

lemma find_opt_tag [simp]:
  "find P (opt_tag v g) = Option.bind v (\<lambda>x. if P (g x) then Some (g x) else None)"
  by (cases v) (auto simp: opt_tag_def)

lemma bind_None_right [simp]: "Option.bind v (\<lambda>x. None) = None"
  by (cases v) auto

lemma bind_pair_None [simp]: "Option.bind v (\<lambda>(a, b). None) = None"
  by (cases v) auto

lemma bind_Some_right [simp]: "Option.bind v (\<lambda>x. Some (g x)) = map_option g v"
  by (cases v) auto

lemma slice_get_simps [simp]:
  "slice_get (x # xs) 0 = Some x"
  "slice_get (x # xs) (Suc i) = slice_get xs i"
  "slice_get [] i = None"
  by (simp_all add: slice_get_def)

lemma slice_get_numeral [simp]:
  "slice_get (x # xs) 1 = slice_get xs 0"
  "slice_get (x # xs) 2 = slice_get xs 1"
  "slice_get (x # xs) 3 = slice_get xs 2"
  "slice_get (x # xs) 4 = slice_get xs 3"
  "slice_get (x # xs) 5 = slice_get xs 4"
  by (simp_all add: slice_get_def eval_nat_numeral)

lemma map_option_or_None [simp]:
  "(case v of None \<Rightarrow> None | Some x \<Rightarrow> Some x) = v"
  by (cases v) auto

text \<open>The tags of a published event: those of the listing and, with proof of work, the \<open>nonce\<close> tag
  the signing library appends.\<close>

definition nonce_tag :: "(string \<times> string) option \<Rightarrow> string list list" where
  "nonce_tag nonce = opt_tag nonce (\<lambda>(n, bits). [''nonce'', n, bits])"

lemma find_map_nonce [simp]:
  "find_map f (nonce_tag nonce) = Option.bind nonce (\<lambda>(n, bits). f [''nonce'', n, bits])"
  by (cases nonce) (auto simp: nonce_tag_def opt_tag_def split: option.splits)

lemma find_nonce [simp]:
  "find P (nonce_tag nonce) =
     Option.bind nonce (\<lambda>(n, bits). if P [''nonce'', n, bits] then Some [''nonce'', n, bits] else None)"
  by (cases nonce) (auto simp: nonce_tag_def opt_tag_def)

lemma raw_tag_value:
  assumes "ev_tags ev = raw_tags l c @ nonce_tag nonce"
  shows "tag_value ev ''d'' = Some (cl_channel_id l)"
    and "tag_value ev ''title'' = Some (cl_title l)"
    and "tag_value ev ''status'' = Some (status_as_str (cl_status l))"
    and "tag_value ev ''starts'' = Some (show_nat (cl_starts l))"
    and "tag_value ev ''summary'' = cl_summary l"
    and "tag_value ev ''t'' = cl_genre l"
    and "tag_value ev ''streaming'' = cl_streaming l"
    and "tag_value ev ''expiration'' = Some (show_nat (wrapping_add_u64 c EXPIRATION_OFFSET_SECS))"
    and "tag_value ev ''current_participants'' =
      (if cl_current_participants l \<ge> 0 then Some (show_nat (nat (cl_current_participants l))) else None)"
  by (simp_all add: tag_value_def assms raw_tags_def option.map_id0 id_def split: option.splits)

lemma raw_peca_value:
  assumes "ev_tags ev = raw_tags l c @ nonce_tag nonce"
  shows "peca_value ev ''bitrate'' = map_option show_nat (cl_bitrate_kbps l)"
    and "peca_value ev ''type'' = cl_content_type l"
    and "peca_value ev ''tip'' = cl_tip l"
    and "peca_value ev ''contact'' = cl_contact l"
    and "peca_value ev ''comment'' = cl_comment l"
    and "peca_value ev ''relays'' =
      (if cl_relays l \<ge> 0 then Some (show_nat (nat (cl_relays l))) else None)"
    and "peca_slice ev ''track'' = map_option
      (\<lambda>t. [''peca'', ''track'', tr_title t, tr_artist t, tr_album t, tr_url t]) (cl_track_info l)"
  by (simp_all add: peca_value_def peca_slice_def assms raw_tags_def split: option.splits)

lemma parse_u64_show: "n \<le> u64_max \<Longrightarrow> parse_u64 (show_nat n) = Some n"
  by (simp add: parse_u64_def show_nat_digits parse_uint_show)

lemma parse_u64_le: "parse_u64 s = Some n \<Longrightarrow> n \<le> u64_max"
  by (auto simp: parse_u64_def parse_uint_le split: if_splits)

lemma status_parse_as_str [simp]: "status_parse (status_as_str st) = Some st"
  by (cases st) (simp_all add: status_parse_def)

lemma clean_optional_ok: "clean_opt v \<Longrightarrow> clean_optional v = Inr v"
  by (auto simp: clean_opt_def clean_optional_def split: option.splits)

lemma parse_count_ok:
  assumes "count_ok n"
  shows "parse_count (if n \<ge> 0 then Some (show_nat (nat n)) else None) = Inr n"
proof (cases "n \<ge> 0")
  case True
  with assms have n: "n < 2 ^ 63" by (auto simp: count_ok_def UNKNOWN_COUNT_def)
  with True have "nat n \<le> u64_max" "u64_as_i64 (nat n) = n"
    by (auto simp: u64_max_def u64_as_i64_small nat_less_iff)
  with True show ?thesis by (simp add: parse_count_def parse_u64_show)
next
  case False
  with assms show ?thesis by (simp add: count_ok_def parse_count_def)
qed

lemma parse_bitrate_ok:
  assumes "case v of None \<Rightarrow> True | Some n \<Rightarrow> n \<le> MAX_BITRATE_KBPS"
  shows "parse_bitrate (map_option show_nat v) = Inr v"
proof (cases v)
  case (Some n)
  with assms have "n \<le> u64_max" by (simp add: MAX_BITRATE_KBPS_def u64_max_def)
  with Some assms show ?thesis by (simp add: parse_bitrate_def parse_u64_show)
qed (simp add: parse_bitrate_def)

lemma parse_tip_ok: "tip_ok v \<Longrightarrow> parse_tip v = Inr v"
  by (auto simp: parse_tip_def tip_ok_def split: option.splits)

lemma parse_track_ok:
  assumes "peca_slice ev ''track'' = map_option
      (\<lambda>t. [''peca'', ''track'', tr_title t, tr_artist t, tr_album t, tr_url t]) tr"
    and "case tr of None \<Rightarrow> True | Some t \<Rightarrow> track_ok t"
  shows "parse_track ev = Inr tr"
  using assms by (cases tr) (simp_all add: parse_track_def track_ok_def Let_def)

lemma listing_from_raw_tags:
  assumes "ev_tags ev = raw_tags l c @ nonce_tag nonce" and "listing_ok l"
  shows "listing_from_event ev = Inr l"
proof -
  note ok = assms(2) [unfolded listing_ok_def]
  have counts: "parse_count (tag_value ev ''current_participants'') = Inr (cl_current_participants l)"
    "parse_count (peca_value ev ''relays'') = Inr (cl_relays l)"
    unfolding raw_tag_value [OF assms(1)] raw_peca_value [OF assms(1)]
    using ok by (simp_all only: parse_count_ok)
  have tr: "parse_track ev = Inr (cl_track_info l)"
    by (rule parse_track_ok [OF raw_peca_value(7) [OF assms(1)]]) (use ok in simp)
  show ?thesis
    using ok by (simp add: listing_from_event_def counts tr raw_tag_value(1-8) [OF assms(1)]
        raw_peca_value(1-5) [OF assms(1)] parse_u64_show clean_optional_ok parse_bitrate_ok parse_tip_ok)
qed

text \<open>The tag mapping loses nothing. The tags published for a listing whose content is
  acceptable are read back by the receiver as that very listing; absent optional fields stay
  absent and unknown counts, which are published by leaving the tag out, stay unknown.\<close>

theorem listing_roundtrip:
  assumes "to_tags ns l created_at = Inr tags" and "\<forall>t. nostr_tag_parse ns t = Inr t"
    and "listing_ok l" and "ev_tags ev = tags"
  shows "listing_from_event ev = Inr l"
proof -
  have "parse_tags (nostr_tag_parse ns) ts = Inr ts" for ts
    using assms(2) by (induction ts) auto
  then have "tags = raw_tags l created_at @ nonce_tag None"
    using assms(1) by (simp add: to_tags_def nonce_tag_def opt_tag_def)
  with assms show ?thesis by (intro listing_from_raw_tags) auto
qed

definition demo_listing :: channel_listing where
  "demo_listing = \<lparr>cl_channel_id = ''00112233445566778899aabbccddeeff'', cl_title = ''ch'',
     cl_summary = None, cl_genre = Some ''game'', cl_status = Live, cl_starts = 1700000000,
     cl_current_participants = 12, cl_streaming = None, cl_bitrate_kbps = Some 500,
     cl_content_type = Some ''FLV'', cl_tip = Some ''192.0.2.1:7144'', cl_contact = None,
     cl_comment = None, cl_relays = - 1,
     cl_track_info = Some \<lparr>tr_title = ''song'', tr_artist = [], tr_album = [], tr_url = []\<rparr>\<rparr>"

definition demo_sign :: "unit \<Rightarrow> event_builder \<Rightarrow> string + event" where
  "demo_sign keys b = Inr \<lparr>ev_id = replicate 64 (CHR ''1''), ev_pubkey = replicate 64 (CHR ''a''),
     ev_created_at = eb_created_at b, ev_kind = eb_kind b, ev_tags = eb_tags b,
     ev_content = eb_content b, ev_sig = replicate 128 (CHR ''0'')\<rparr>"

definition demo_event :: event where
  "demo_event = \<lparr>ev_id = replicate 64 (CHR ''1''), ev_pubkey = replicate 64 (CHR ''a''),
     ev_created_at = 1700000100, ev_kind = 30311, ev_tags = raw_tags demo_listing 1700000100,
     ev_content = [], ev_sig = replicate 128 (CHR ''0'')\<rparr>"

text \<open>A concrete instance of the parameter: one serialised event, whose text stands for itself.\<close>

definition demo_nostr :: "unit nostr" where
  "demo_nostr = \<lparr>nostr_from_json = (\<lambda>s. if s = ''demo'' then Some demo_event else None),
     nostr_as_json = (\<lambda>e. if e = demo_event then ''demo'' else ''other''),
     nostr_verify = (\<lambda>e. e = demo_event), nostr_check_pow = (\<lambda>n e. n \<le> 8),
     nostr_tag_parse = Inr, nostr_sign_with_keys = demo_sign\<rparr>"

lemma demo_tip: "''192.0.2.1:7144'' = show_socket_addr (SocketV4 [192, 0, 2, 1] 7144)"
  by (simp add: show_ipv4_def show_nat.simps digit_char_def char_of_def bit_Suc_0_iff)

lemma demo_tip_ok: "parse_socket_addr ''192.0.2.1:7144'' = Some (SocketV4 [192, 0, 2, 1] 7144)"
  unfolding demo_tip by (rule parse_show_socket_v4) (auto simp: wf_octets_def)

lemma demo_listing_ok: "listing_ok demo_listing"
  by (simp add: listing_ok_def demo_listing_def clean_opt_def count_ok_def UNKNOWN_COUNT_def
      u64_max_def MAX_BITRATE_KBPS_def tip_ok_def track_ok_def demo_tip_ok printable_no_control)

theorem listing_roundtrip_witness:
  "listing_from_event demo_event = Inr demo_listing"
proof -
  have "parse_tags Inr ts = Inr ts" for ts by (induction ts) auto
  then have "to_tags demo_nostr demo_listing 1700000100 = Inr (ev_tags demo_event)"
    by (simp add: to_tags_def demo_nostr_def demo_event_def)
  then show ?thesis
    by (rule listing_roundtrip) (simp_all add: demo_listing_ok demo_nostr_def)
qed

subsection \<open>Reception checks, in closed form\<close>

definition format_ok :: "event \<Rightarrow> bool" where
  "format_ok ev \<longleftrightarrow> ev_kind ev = CHANNEL_KIND \<and> length (ev_tags ev) \<le> MAX_TAGS \<and>
     (\<forall>t \<in> set (ev_tags ev). \<forall>x \<in> set t. \<not> exceeds_bytes x MAX_TAG_ELEMENT_BYTES) \<and>
     (\<exists>d. tag_value ev ''d'' = Some d \<and> is_lower_hex d 32) \<and>
     (\<exists>st. tag_value ev ''status'' = Some (status_as_str st))"

lemma status_parse_Some: "status_parse s = Some st \<longleftrightarrow> s = status_as_str st"
  by (cases st) (auto simp: status_parse_def)

lemma status_parse_None: "status_parse s = None \<longleftrightarrow> (\<forall>st. s \<noteq> status_as_str st)"
  using status_parse_Some by (metis not_None_eq)

lemma validate_format_ok: "validate_format ev = Inr () \<longleftrightarrow> format_ok ev"
  by (cases "tag_value ev ''d''"; cases "tag_value ev ''status''")
    (auto simp: validate_format_def format_ok_def list_ex_iff status_parse_None)

text \<open>Every accepted listing satisfies the content rules, except that a count may be any value a
  64-bit cast can give.\<close>

definition i64_range :: "int \<Rightarrow> bool" where
  "i64_range n \<longleftrightarrow> - (2 ^ 63) \<le> n \<and> n < 2 ^ 63"

definition listing_content_ok :: "channel_listing \<Rightarrow> bool" where
  "listing_content_ok l \<longleftrightarrow> listing_ok (l\<lparr>cl_current_participants := 0, cl_relays := 0\<rparr>) \<and>
     i64_range (cl_current_participants l) \<and> i64_range (cl_relays l)"

lemma u64_as_i64_range: "i64_range (u64_as_i64 n)"
proof -
  have "n mod 2 ^ 64 < 2 ^ 64" by simp
  then show ?thesis by (auto simp: u64_as_i64_def i64_range_def Let_def)
qed

lemma parse_count_range: "parse_count v = Inr n \<Longrightarrow> i64_range n"
  by (auto simp: parse_count_def u64_as_i64_range ok_or_Inr_iff UNKNOWN_COUNT_def split: option.splits)
    (simp add: i64_range_def)

lemma clean_optional_Inr: "clean_optional v = Inr w \<Longrightarrow> clean_opt w"
  by (auto simp: clean_optional_def clean_opt_def split: option.splits if_splits)

lemma parse_bitrate_Inr: "parse_bitrate v = Inr w \<Longrightarrow> case w of None \<Rightarrow> True | Some n \<Rightarrow> n \<le> MAX_BITRATE_KBPS"
  by (auto simp: parse_bitrate_def and_then_Inr_iff split: option.splits if_splits)

lemma parse_tip_Inr: "parse_tip v = Inr w \<Longrightarrow> tip_ok w"
  by (auto simp: parse_tip_def tip_ok_def split: option.splits if_splits)

lemma parse_track_Inr: "parse_track ev = Inr w \<Longrightarrow> case w of None \<Rightarrow> True | Some t \<Rightarrow> track_ok t"
  by (auto simp: parse_track_def track_ok_def Let_def split: option.splits if_splits)

lemma listing_from_event_ok:
  assumes "listing_from_event ev = Inr l"
  shows "listing_content_ok l \<and> tag_value ev ''d'' = Some (cl_channel_id l) \<and>
    tag_value ev ''status'' = Some (status_as_str (cl_status l))"
  using assms
  by (auto simp: listing_from_event_def and_then_Inr_iff ok_or_Inr_iff listing_content_ok_def
      listing_ok_def status_parse_Some count_ok_def
      dest!: clean_optional_Inr parse_bitrate_Inr parse_tip_Inr parse_track_Inr parse_count_range
      parse_u64_le split: if_splits)

lemma verify_incoming_Inr:
  "verify_incoming ns raw config now = Inr v \<longleftrightarrow>
     length raw \<le> MAX_EVENT_BYTES \<and> nostr_from_json ns raw = Some (vl_event v) \<and>
     nostr_verify ns (vl_event v) \<and> format_ok (vl_event v) \<and>
     ev_created_at (vl_event v) \<le> saturating_add_u64 now (max_clock_skew_sec config) \<and>
     listing_from_event (vl_event v) = Inr (vl_listing v) \<and>
     (min_pow_bits config = 0 \<or> nostr_check_pow ns (min_pow_bits config) (vl_event v))"
  by (cases v) (auto simp: verify_incoming_def and_then_Inr_iff ok_or_Inr_iff
      validate_format_ok not_less split: if_splits)


text \<open>C14: what a viewer is shown is clean. In every accepted listing the channel identifier is 32
  lower-case hexadecimal digits, no text field has a control character, the bitrate is within
  its limit, the tracker address is a socket address and the counts are 64-bit values.\<close>

theorem accepted_listing_safe:
  assumes "verify_incoming ns raw config now = Inr v"
  shows "is_lower_hex (cl_channel_id (vl_listing v)) 32 \<and> listing_content_ok (vl_listing v)"
  using assms listing_from_event_ok [of "vl_event v" "vl_listing v"]
  by (auto simp: verify_incoming_Inr format_ok_def)

subsection \<open>Signing and receiving\<close>

text \<open>The documented behaviour of the \<open>nostr\<close> crate the round trip relies on: a tag is built from
  its elements as given; a signed event has the kind, time and tags of its builder (with the
  nonce tag when proof of work was asked for), verifies, survives serialisation, and meets every
  difficulty up to the one asked for.\<close>

definition nostr_contract :: "'k nostr \<Rightarrow> 'k \<Rightarrow> bool" where
  "nostr_contract ns keys \<longleftrightarrow> (\<forall>t. t \<noteq> [] \<longrightarrow> nostr_tag_parse ns t = Inr t) \<and>
     (\<forall>b ev. nostr_sign_with_keys ns keys b = Inr ev \<longrightarrow>
        ev_kind ev = eb_kind b \<and> ev_created_at ev = eb_created_at b \<and> nostr_verify ns ev \<and>
        nostr_from_json ns (nostr_as_json ns ev) = Some ev \<and>
        (\<exists>nonce. ev_tags ev = eb_tags b @ nonce_tag nonce \<and> (eb_pow b = None \<longrightarrow> nonce = None) \<and>
           (\<forall>n bits. nonce = Some (n, bits) \<longrightarrow>
              length n \<le> MAX_TAG_ELEMENT_BYTES \<and> length bits \<le> MAX_TAG_ELEMENT_BYTES)) \<and>
        (\<forall>n m. eb_pow b = Some n \<longrightarrow> m \<le> n \<longrightarrow> nostr_check_pow ns m ev))"

definition opt_sized :: "string option \<Rightarrow> bool" where
  "opt_sized v \<longleftrightarrow> (case v of None \<Rightarrow> True | Some s \<Rightarrow> length s \<le> MAX_TAG_ELEMENT_BYTES)"

definition listing_sized :: "channel_listing \<Rightarrow> bool" where
  "listing_sized l \<longleftrightarrow> length (cl_title l) \<le> MAX_TAG_ELEMENT_BYTES \<and> opt_sized (cl_summary l) \<and>
     opt_sized (cl_genre l) \<and> opt_sized (cl_streaming l) \<and> opt_sized (cl_content_type l) \<and>
     opt_sized (cl_tip l) \<and> opt_sized (cl_contact l) \<and> opt_sized (cl_comment l) \<and>
     (case cl_track_info l of None \<Rightarrow> True | Some t \<Rightarrow>
        length (tr_title t) \<le> MAX_TAG_ELEMENT_BYTES \<and> length (tr_artist t) \<le> MAX_TAG_ELEMENT_BYTES \<and>
        length (tr_album t) \<le> MAX_TAG_ELEMENT_BYTES \<and> length (tr_url t) \<le> MAX_TAG_ELEMENT_BYTES)"

lemma length_opt_tag: "length (opt_tag v f) \<le> 1"
  by (cases v) (auto simp: opt_tag_def)

lemma length_raw_tags: "length (raw_tags l c) + 1 \<le> MAX_TAGS"
  using length_opt_tag [of "cl_summary l" "\<lambda>v. [''summary'', v]"]
    length_opt_tag [of "cl_genre l" "\<lambda>v. [''t'', v]"]
    length_opt_tag [of "cl_streaming l" "\<lambda>v. [''streaming'', v]"]
    length_opt_tag [of "cl_bitrate_kbps l" "\<lambda>v. [''peca'', ''bitrate'', show_nat v]"]
    length_opt_tag [of "cl_content_type l" "\<lambda>v. [''peca'', ''type'', v]"]
    length_opt_tag [of "cl_tip l" "\<lambda>v. [''peca'', ''tip'', v]"]
    length_opt_tag [of "cl_contact l" "\<lambda>v. [''peca'', ''contact'', v]"]
    length_opt_tag [of "cl_comment l" "\<lambda>v. [''peca'', ''comment'', v]"]
    length_opt_tag [of "cl_track_info l" "\<lambda>t. [''peca'', ''track'', tr_title t, tr_artist t, tr_album t, tr_url t]"]
  unfolding raw_tags_def MAX_TAGS_def by (simp del: One_nat_def)

lemma length_show_u64: "n \<le> u64_max \<Longrightarrow> length (show_nat n) \<le> MAX_TAG_ELEMENT_BYTES"
  using length_show_nat_le [of n 20] by (simp add: u64_max_def MAX_TAG_ELEMENT_BYTES_def)

definition tags_sized :: "string list list \<Rightarrow> bool" where
  "tags_sized ts \<longleftrightarrow> (\<forall>t \<in> set ts. \<forall>x \<in> set t. length x \<le> MAX_TAG_ELEMENT_BYTES)"

lemma tags_sized_simps [simp]:
  "tags_sized []"
  "tags_sized (t # ts) \<longleftrightarrow> (\<forall>x \<in> set t. length x \<le> MAX_TAG_ELEMENT_BYTES) \<and> tags_sized ts"
  "tags_sized (ts @ us) \<longleftrightarrow> tags_sized ts \<and> tags_sized us"
  "tags_sized (opt_tag v f) \<longleftrightarrow> (case v of None \<Rightarrow> True | Some y \<Rightarrow> tags_sized [f y])"
  by (auto simp: tags_sized_def opt_tag_def split: option.splits)

lemma tags_sized_strings:
  "opt_sized v \<Longrightarrow> length n \<le> 32 \<Longrightarrow> tags_sized (opt_tag v (\<lambda>v. [n, v]))"
  "opt_sized v \<Longrightarrow> length n \<le> 32 \<Longrightarrow> length m \<le> 32 \<Longrightarrow> tags_sized (opt_tag v (\<lambda>v. [n, m, v]))"
  by (auto simp: opt_sized_def MAX_TAG_ELEMENT_BYTES_def split: option.splits)

lemma raw_tags_sized:
  assumes ok: "listing_ok l" and sized: "listing_sized l" and "length (cl_channel_id l) = 32"
  shows "tags_sized (raw_tags l c)"
proof -
  have counts: "count_ok n \<Longrightarrow> 0 \<le> n \<Longrightarrow> length (show_nat (nat n)) \<le> MAX_TAG_ELEMENT_BYTES" for n
    by (rule length_show_u64) (auto simp: u64_max_def nat_le_iff count_ok_def UNKNOWN_COUNT_def)
  have bitrate: "length (show_nat n) \<le> MAX_TAG_ELEMENT_BYTES" if "cl_bitrate_kbps l = Some n" for n
    by (rule length_show_u64) (use ok that in \<open>simp add: listing_ok_def u64_max_def MAX_BITRATE_KBPS_def\<close>)
  have expi: "length (show_nat (wrapping_add_u64 c EXPIRATION_OFFSET_SECS)) \<le> MAX_TAG_ELEMENT_BYTES"
    by (rule length_show_u64) (simp add: wrapping_add_u64_def u64_max_def)
  have sts: "length (show_nat (cl_starts l)) \<le> MAX_TAG_ELEMENT_BYTES"
    using ok by (intro length_show_u64) (simp add: listing_ok_def)
  have st: "length (status_as_str (cl_status l)) \<le> MAX_TAG_ELEMENT_BYTES"
    by (cases "cl_status l") (simp_all add: MAX_TAG_ELEMENT_BYTES_def)
  have cid: "length (cl_channel_id l) \<le> MAX_TAG_ELEMENT_BYTES"
    using assms(3) by (simp add: MAX_TAG_ELEMENT_BYTES_def)
  have small: "\<And>n. n \<le> 32 \<Longrightarrow> n \<le> MAX_TAG_ELEMENT_BYTES"
    by (simp add: MAX_TAG_ELEMENT_BYTES_def)
  note strings = sized [unfolded listing_sized_def]
  have tr: "tags_sized (opt_tag (cl_track_info l)
      (\<lambda>t. [''peca'', ''track'', tr_title t, tr_artist t, tr_album t, tr_url t]))"
    using strings by (cases "cl_track_info l") (auto intro: small)
  have br: "tags_sized (opt_tag (cl_bitrate_kbps l) (\<lambda>v. [''peca'', ''bitrate'', show_nat v]))"
    using bitrate by (cases "cl_bitrate_kbps l") (auto intro: small)
  show ?thesis
    unfolding raw_tags_def tags_sized_simps(3)
    using ok strings cid st sts expi tr br
    by (intro conjI tags_sized_strings) (auto simp: small counts listing_ok_def)
qed

lemma parse_tags_contract:
  "nostr_contract ns keys \<Longrightarrow> [] \<notin> set ts \<Longrightarrow> parse_tags (nostr_tag_parse ns) ts = Inr ts"
  by (induction ts) (auto simp: nostr_contract_def)

lemma raw_tags_nonempty: "[] \<notin> set (raw_tags l c)"
  by (auto simp: raw_tags_def opt_tag_def split: option.splits)

text \<open>What \<open>sign\<close> delivers under the crate's contract.\<close>

lemma sign_listing_event:
  assumes "nostr_contract ns keys" and "sign_listing ns l keys created_at pow_bits = Inr ev"
  obtains nonce where "ev_tags ev = raw_tags l created_at @ nonce_tag nonce"
    and "tags_sized (nonce_tag nonce)" and "ev_kind ev = CHANNEL_KIND"
    and "ev_created_at ev = created_at" and "nostr_verify ns ev"
    and "nostr_from_json ns (nostr_as_json ns ev) = Some ev"
    and "\<forall>m. 0 < pow_bits \<and> m \<le> pow_bits \<longrightarrow> nostr_check_pow ns m ev"
proof -
  define b where "b = \<lparr>eb_kind = CHANNEL_KIND, eb_content = [], eb_tags = raw_tags l created_at,
    eb_created_at = created_at, eb_pow = (if pow_bits > 0 then Some pow_bits else None)\<rparr>"
  have "nostr_sign_with_keys ns keys b = Inr ev"
    using assms(2) unfolding sign_listing_def to_tags_def b_def
      parse_tags_contract [OF assms(1) raw_tags_nonempty]
    by (auto simp: Let_def split: sum.splits if_splits)
  with assms(1) have c: "ev_kind ev = eb_kind b \<and> ev_created_at ev = eb_created_at b \<and> nostr_verify ns ev \<and>
        nostr_from_json ns (nostr_as_json ns ev) = Some ev \<and>
        (\<exists>nonce. ev_tags ev = eb_tags b @ nonce_tag nonce \<and> (eb_pow b = None \<longrightarrow> nonce = None) \<and>
           (\<forall>n bits. nonce = Some (n, bits) \<longrightarrow>
              length n \<le> MAX_TAG_ELEMENT_BYTES \<and> length bits \<le> MAX_TAG_ELEMENT_BYTES)) \<and>
        (\<forall>n m. eb_pow b = Some n \<longrightarrow> m \<le> n \<longrightarrow> nostr_check_pow ns m ev)"
    unfolding nostr_contract_def by blast
  then obtain nonce where n: "ev_tags ev = eb_tags b @ nonce_tag nonce"
      "\<forall>n bits. nonce = Some (n, bits) \<longrightarrow>
        length n \<le> MAX_TAG_ELEMENT_BYTES \<and> length bits \<le> MAX_TAG_ELEMENT_BYTES"
    by blast
  from n(2) have "tags_sized (nonce_tag nonce)"
    by (cases nonce) (auto simp: nonce_tag_def MAX_TAG_ELEMENT_BYTES_def)
  with n c show ?thesis
    by (intro that [of nonce]) (auto simp: b_def)
qed

lemma format_ok_signed:
  assumes "ev_tags ev = raw_tags l c @ nonce_tag nonce" and "tags_sized (nonce_tag nonce)"
    and "ev_kind ev = CHANNEL_KIND" and "listing_ok l" and "listing_sized l"
    and "is_lower_hex (cl_channel_id l) 32"
  shows "format_ok ev"
proof -
  have "tags_sized (ev_tags ev)"
    using assms raw_tags_sized [of l c] by (simp add: is_lower_hex_def)
  moreover have "length (ev_tags ev) \<le> MAX_TAGS"
    using length_raw_tags [of l c] length_opt_tag [of nonce "\<lambda>(n, bits). [''nonce'', n, bits]"]
    by (simp add: assms(1) nonce_tag_def)
  ultimately show ?thesis
    using assms raw_tag_value [OF assms(1)]
    by (auto simp: format_ok_def tags_sized_def exceeds_bytes_def not_less)
qed

lemma signed_accepted:
  assumes "nostr_contract ns keys" and "sign_listing ns l keys created_at pow_bits = Inr ev"
    and "listing_ok l" and "listing_sized l" and "is_lower_hex (cl_channel_id l) 32"
    and "length (nostr_as_json ns ev) \<le> MAX_EVENT_BYTES"
    and "created_at \<le> saturating_add_u64 now (max_clock_skew_sec config)"
    and "min_pow_bits config \<le> pow_bits"
  shows "verify_incoming ns (nostr_as_json ns ev) config now = Inr \<lparr>vl_event = ev, vl_listing = l\<rparr>"
proof -
  from assms(1,2) obtain nonce where ev: "ev_tags ev = raw_tags l created_at @ nonce_tag nonce"
    "tags_sized (nonce_tag nonce)" "ev_kind ev = CHANNEL_KIND" "ev_created_at ev = created_at"
    "nostr_verify ns ev" "nostr_from_json ns (nostr_as_json ns ev) = Some ev"
    "\<forall>m. 0 < pow_bits \<and> m \<le> pow_bits \<longrightarrow> nostr_check_pow ns m ev"
    by (rule sign_listing_event)
  have "min_pow_bits config = 0 \<or> nostr_check_pow ns (min_pow_bits config) ev"
    using ev(7) assms(8) by (cases "min_pow_bits config") auto
  with ev assms format_ok_signed [OF ev(1-3) assms(3-5)] listing_from_raw_tags [OF ev(1) assms(3)]
  show ?thesis by (simp add: verify_incoming_Inr)
qed

text \<open>What this node publishes, every other node accepts. A listing with acceptable content
  and sizes, signed and serialised, passes all reception checks of a node whose clock is behind
  by no more than the tolerated skew and whose required difficulty is not above the one signed
  with, and is restored there as the same listing.\<close>

theorem signed_listing_accepted:
  assumes "nostr_contract ns keys" and "sign_listing ns l keys created_at pow_bits = Inr ev"
    and "listing_ok l" and "listing_sized l" and "is_lower_hex (cl_channel_id l) 32"
    and "length (nostr_as_json ns ev) \<le> MAX_EVENT_BYTES"
    and "created_at \<le> saturating_add_u64 now (max_clock_skew_sec config)"
    and "min_pow_bits config \<le> pow_bits"
  shows "verify_incoming ns (nostr_as_json ns ev) config now = Inr \<lparr>vl_event = ev, vl_listing = l\<rparr>"
  by (rule signed_accepted [OF assms])

subsection \<open>The serialised form and its reader, on one concrete event\<close>

text \<open>An instance of the crate's functions that satisfies the contract: signing yields the event
  with a fixed id, key and signature, and the only serialised form is that of the demo event.\<close>

definition demo_contract_nostr :: "unit nostr" where
  "demo_contract_nostr = demo_nostr\<lparr>nostr_sign_with_keys := (\<lambda>keys b.
     if b = \<lparr>eb_kind = CHANNEL_KIND, eb_content = [], eb_tags = raw_tags demo_listing 1700000100,
             eb_created_at = 1700000100, eb_pow = None\<rparr> then Inr demo_event else Inl ''refused'')\<rparr>"

lemma demo_contract: "nostr_contract demo_contract_nostr ()"
proof -
  have "\<exists>nonce. ev_tags demo_event = raw_tags demo_listing 1700000100 @ nonce_tag nonce \<and> nonce = None"
    by (simp add: demo_event_def nonce_tag_def opt_tag_def)
  then show ?thesis
    by (auto simp: nostr_contract_def demo_contract_nostr_def demo_nostr_def demo_event_def CHANNEL_KIND_def
        nonce_tag_def opt_tag_def split: if_splits intro!: exI [of _ None])
qed

lemma demo_signed: "sign_listing demo_contract_nostr demo_listing () 1700000100 0 = Inr demo_event"
  unfolding sign_listing_def to_tags_def parse_tags_contract [OF demo_contract raw_tags_nonempty]
  by (simp add: demo_contract_nostr_def Let_def)

lemma demo_sized: "listing_sized demo_listing" "is_lower_hex (cl_channel_id demo_listing) 32"
  by (simp_all add: listing_sized_def demo_listing_def opt_sized_def MAX_TAG_ELEMENT_BYTES_def
      is_lower_hex_def is_lower_hex_char_def is_ascii_digit_iff less_eq_char_def)

theorem signed_listing_accepted_witness:
  "verify_incoming demo_contract_nostr ''demo'' default_verify_config 1700000000 =
     Inr \<lparr>vl_event = demo_event, vl_listing = demo_listing\<rparr>"
  using signed_listing_accepted [OF demo_contract demo_signed demo_listing_ok demo_sized,
      where now = 1700000000 and config = default_verify_config]
  by (simp add: demo_contract_nostr_def demo_nostr_def MAX_EVENT_BYTES_def default_verify_config_def
      DEFAULT_MAX_CLOCK_SKEW_SEC_def saturating_add_u64_def u64_max_def)

lemma demo_accepted: "verify_incoming demo_nostr ''demo'' default_verify_config 1700000000 =
     Inr \<lparr>vl_event = demo_event, vl_listing = demo_listing\<rparr>"
proof -
  have tags: "ev_tags demo_event = raw_tags demo_listing 1700000100 @ nonce_tag None"
    by (simp add: demo_event_def nonce_tag_def opt_tag_def)
  have "format_ok demo_event"
    by (rule format_ok_signed [OF tags _ _ demo_listing_ok demo_sized])
      (simp_all add: nonce_tag_def opt_tag_def demo_event_def CHANNEL_KIND_def)
  with listing_from_raw_tags [OF tags demo_listing_ok] show ?thesis
    by (simp add: verify_incoming_Inr demo_nostr_def MAX_EVENT_BYTES_def default_verify_config_def
        DEFAULT_MAX_CLOCK_SKEW_SEC_def saturating_add_u64_def u64_max_def)
      (simp add: demo_event_def)
qed

theorem accepted_listing_safe_witness:
  "is_lower_hex (cl_channel_id demo_listing) 32 \<and> listing_content_ok demo_listing"
  using accepted_listing_safe [OF demo_accepted] by simp

text \<open>A count tag with a value of \<open>2 ^ 63\<close> or more is accepted and becomes negative, although
  the tag is documented to be a non-negative number; the largest value even reads as the
  sentinel for an unknown count.\<close>

theorem parse_count_negative:
  "parse_count (Some ''9223372036854775808'') = Inr (- (2 ^ 63)) \<and>
   parse_count (Some ''18446744073709551615'') = Inr UNKNOWN_COUNT"
  by (simp add: parse_count_def parse_u64_def parse_uint_def digits_value_def digit_value_def
      is_ascii_digit_iff u64_max_def u64_as_i64_def UNKNOWN_COUNT_def)

end
