(* ===== verification/Pcp_Channel.thy ===== *)
theory Pcp_Channel
  imports Event_Schema
begin

text \<open>
  Channels announced over PCP (\<open>src/pcp/channel.rs\<close>): the validation of the announced information,
  the conversion to a channel listing and the registry of the channels on the air. The registry's
  broadcast channel is the list of the changes sent to it.

  The lemmas show that whatever the local broadcasting software announces becomes a listing that
  the other nodes accept, and that the notifications of the registry are a faithful history: a
  subscriber that replays them has the registry's content.
\<close>

datatype channel_state = ChAnnounced | ChUpdating | ChEnded

record track_info =
  ti_title :: string
  ti_creator :: string
  ti_album :: string

definition track_info_is_empty :: "track_info \<Rightarrow> bool" where
  "track_info_is_empty t \<longleftrightarrow> ti_title t = [] \<and> ti_creator t = [] \<and> ti_album t = []"

type_synonym channel_id = "u8 list"

record announced_channel =
  ac_channel_id :: channel_id
  ac_name :: string
  ac_genre :: string
  ac_description :: string
  ac_comment :: string
  ac_contact_url :: string
  ac_bitrate_kbps :: nat
  ac_content_type :: string
  ac_track :: track_info
  ac_tracker :: "string option"
  ac_listeners :: int
  ac_relays_cnt :: int
  ac_started_at :: nat
  ac_state :: channel_state

record raw_channel_info =
  rc_channel_id :: channel_id
  rc_name :: string
  rc_genre :: string
  rc_description :: string
  rc_comment :: string
  rc_contact_url :: string
  rc_bitrate :: int
  rc_content_type :: string
  rc_track_title :: string
  rc_track_creator :: string
  rc_track_album :: string
  rc_tracker :: "string option"
  rc_listeners :: int
  rc_relays_cnt :: int
  rc_started_at :: nat

subsection \<open>Validation\<close>

definition is_char_boundary :: "string \<Rightarrow> nat \<Rightarrow> bool" where
  "is_char_boundary s i \<longleftrightarrow> i = 0 \<or> i = length s \<or> i < length s \<and> \<not> is_cont (s ! i)"

fun floor_boundary :: "string \<Rightarrow> nat \<Rightarrow> nat" where
  "floor_boundary s 0 = 0"
| "floor_boundary s (Suc e) = (if is_char_boundary s (Suc e) then Suc e else floor_boundary s e)"

definition truncate_bytes :: "string \<Rightarrow> nat \<Rightarrow> string" where
  "truncate_bytes s n = (if length s \<le> n then s else take (floor_boundary s n) s)"

definition sanitize_text :: "string \<Rightarrow> nat \<Rightarrow> string" where
  "sanitize_text raw n = truncate_bytes (strip_control_chars raw) n"

definition is_ascii_alphanumeric :: "string \<Rightarrow> bool" where
  "is_ascii_alphanumeric cs \<longleftrightarrow> (let p = code_point cs in
     48 \<le> p \<and> p \<le> 57 \<or> 65 \<le> p \<and> p \<le> 90 \<or> 97 \<le> p \<and> p \<le> 122)"

definition sanitize_content_type :: "string \<Rightarrow> string" where
  "sanitize_content_type raw = truncate_bytes (concat (filter is_ascii_alphanumeric (utf8_chars raw))) 32"

definition clamp_bitrate :: "int \<Rightarrow> nat" where
  "clamp_bitrate raw = nat (max 0 (min raw (int MAX_BITRATE_KBPS)))"

definition clamp_count :: "int \<Rightarrow> int" where
  "clamp_count raw = max raw UNKNOWN_COUNT"

definition validate_tracker :: "string \<Rightarrow> string option" where
  "validate_tracker raw = map_option show_socket_addr (parse_socket_addr raw)"

definition from_raw :: "raw_channel_info \<Rightarrow> channel_state \<Rightarrow> announced_channel" where
  "from_raw raw st = \<lparr>
     ac_channel_id = rc_channel_id raw,
     ac_name = sanitize_text (rc_name raw) 256,
     ac_genre = sanitize_text (rc_genre raw) 256,
     ac_description = sanitize_text (rc_description raw) 1024,
     ac_comment = sanitize_text (rc_comment raw) 1024,
     ac_contact_url = sanitize_text (rc_contact_url raw) 512,
     ac_bitrate_kbps = clamp_bitrate (rc_bitrate raw),
     ac_content_type = sanitize_content_type (rc_content_type raw),
     ac_track = \<lparr>ti_title = sanitize_text (rc_track_title raw) 256,
        ti_creator = sanitize_text (rc_track_creator raw) 256,
        ti_album = sanitize_text (rc_track_album raw) 256\<rparr>,
     ac_tracker = Option.bind (rc_tracker raw) validate_tracker,
     ac_listeners = clamp_count (rc_listeners raw),
     ac_relays_cnt = clamp_count (rc_relays_cnt raw),
     ac_started_at = rc_started_at raw,
     ac_state = st\<rparr>"

subsection \<open>Listing\<close>

definition channel_id_hex :: "channel_id \<Rightarrow> string" where
  "channel_id_hex cid = concat (map (\<lambda>b. [hex_digit (unat b div 16), hex_digit (unat b mod 16)]) cid)"

definition non_empty :: "string \<Rightarrow> string option" where
  "non_empty s = (if s = [] then None else Some s)"

definition to_listing :: "announced_channel \<Rightarrow> channel_listing" where
  "to_listing c = (let cid = channel_id_hex (ac_channel_id c) in \<lparr>
     cl_channel_id = cid,
     cl_title = ac_name c,
     cl_summary = non_empty (ac_description c),
     cl_genre = map_option to_ascii_lowercase (non_empty (ac_genre c)),
     cl_status = (case ac_state c of ChEnded \<Rightarrow> Ended | ChAnnounced \<Rightarrow> Live | ChUpdating \<Rightarrow> Live),
     cl_starts = ac_started_at c,
     cl_current_participants = ac_listeners c,
     cl_streaming = map_option (\<lambda>tip. ''pcp://'' @ tip @ ''/'' @ cid) (ac_tracker c),
     cl_bitrate_kbps = (if ac_bitrate_kbps c > 0 then Some (ac_bitrate_kbps c) else None),
     cl_content_type = non_empty (ac_content_type c),
     cl_tip = ac_tracker c,
     cl_contact = non_empty (ac_contact_url c),
     cl_comment = non_empty (ac_comment c),
     cl_relays = ac_relays_cnt c,
     cl_track_info = (if track_info_is_empty (ac_track c) then None
       else Some \<lparr>tr_title = ti_title (ac_track c), tr_artist = ti_creator (ac_track c),
         tr_album = ti_album (ac_track c), tr_url = []\<rparr>)\<rparr>)"

subsection \<open>Registry\<close>

datatype channel_change =
  ChangeAnnounced announced_channel | ChangeUpdated announced_channel | ChangeEnded announced_channel

datatype upsert_outcome = OutAnnounced | OutUpdated

record channel_registry =
  reg_inner :: "(channel_id \<times> announced_channel) list"
  reg_sent :: "channel_change list"

definition registry_new :: channel_registry where
  "registry_new = \<lparr>reg_inner = [], reg_sent = []\<rparr>"

definition reg_snapshot :: "channel_registry \<Rightarrow> announced_channel list" where
  "reg_snapshot r = map snd (reg_inner r)"

definition reg_len :: "channel_registry \<Rightarrow> nat" where
  "reg_len r = length (reg_inner r)"

definition reg_is_empty :: "channel_registry \<Rightarrow> bool" where
  "reg_is_empty r \<longleftrightarrow> reg_inner r = []"

definition reg_contains :: "channel_id \<Rightarrow> channel_registry \<Rightarrow> bool" where
  "reg_contains cid r \<longleftrightarrow> map_of (reg_inner r) cid \<noteq> None"

definition reg_upsert :: "announced_channel \<Rightarrow> channel_registry \<Rightarrow> channel_registry \<times> upsert_outcome" where
  "reg_upsert c r =
     (let outcome = (if reg_contains (ac_channel_id c) r then OutUpdated else OutAnnounced);
          c = c\<lparr>ac_state := (case outcome of OutAnnounced \<Rightarrow> ChAnnounced | OutUpdated \<Rightarrow> ChUpdating)\<rparr>;
          change = (case outcome of OutAnnounced \<Rightarrow> ChangeAnnounced c | OutUpdated \<Rightarrow> ChangeUpdated c)
      in (\<lparr>reg_inner = AList.update (ac_channel_id c) c (reg_inner r), reg_sent = reg_sent r @ [change]\<rparr>, outcome))"

definition reg_end :: "channel_id \<Rightarrow> channel_registry \<Rightarrow> channel_registry \<times> bool" where
  "reg_end cid r = (case map_of (reg_inner r) cid of
     None \<Rightarrow> (r, False)
   | Some c \<Rightarrow> (\<lparr>reg_inner = AList.delete cid (reg_inner r),
        reg_sent = reg_sent r @ [ChangeEnded (c\<lparr>ac_state := ChEnded\<rparr>)]\<rparr>, True))"

subsection \<open>Validated texts\<close>

lemma floor_boundary_le: "floor_boundary s n \<le> n"
  by (induction n) auto

lemma floor_boundary_ok: "is_char_boundary s (floor_boundary s n)"
  by (induction n) (auto simp: is_char_boundary_def)

lemma length_truncate: "length (truncate_bytes s n) \<le> n"
  using floor_boundary_le [of s n] by (auto simp: truncate_bytes_def)

lemma str_wf_take: "str_wf s \<Longrightarrow> str_wf (take k s)"
  by (cases s; cases k) (auto simp: str_wf_def)

lemma utf8_chars_split:
  "is_char_boundary s e \<Longrightarrow> utf8_chars s = utf8_chars (take e s) @ utf8_chars (drop e s)"
proof (induction s arbitrary: e rule: utf8_chars.induct)
  case (2 b bs)
  let ?t = "takeWhile is_cont bs" and ?d = "dropWhile is_cont bs"
  have s: "b # bs = (b # ?t) @ ?d" by simp
  show ?case
  proof (cases "e = 0")
    case False
    have "length ?t < e"
    proof (rule ccontr)
      assume "\<not> length ?t < e"
      with False have "e - 1 < length ?t" by simp
      then have "is_cont (?t ! (e - 1))" using nth_mem set_takeWhileD by metis
      then have "is_cont ((b # bs) ! e)" "e < length (b # bs)"
        using \<open>e - 1 < length ?t\<close> False length_takeWhile_le [of is_cont bs] by (auto simp: takeWhile_nth nth_Cons')
      with 2(2) False show False by (auto simp: is_char_boundary_def)
    qed
    then obtain k where e: "e = length (b # ?t) + k" by (auto simp: less_iff_Suc_add)
    have "take e ((b # ?t) @ ?d) = (b # ?t) @ take k ?d" "drop e ((b # ?t) @ ?d) = drop k ?d"
      unfolding e by (simp_all del: takeWhile_dropWhile_id append_Cons)
    then have td: "take e (b # bs) = (b # ?t) @ take k ?d" "drop e (b # bs) = drop k ?d"
      by (simp_all only: s [symmetric])
    have "is_char_boundary ((b # ?t) @ ?d) e" using 2(2) by (simp only: s [symmetric])
    then have "is_char_boundary ?d k"
      unfolding e is_char_boundary_def by (auto simp: nth_append simp del: takeWhile_dropWhile_id append_Cons)
    from 2(1) [OF this] have "utf8_chars ?d = utf8_chars (take k ?d) @ utf8_chars (drop k ?d)" .
    moreover have "str_wf (take k ?d)" by (rule str_wf_take) (rule str_wf_dropWhile)
    moreover have "\<forall>c \<in> set ?t. is_cont c" by (auto dest: set_takeWhileD)
    ultimately show ?thesis unfolding td using utf8_chars_append_group [of ?t "take k ?d" b] by simp
  qed simp
qed (simp add: is_char_boundary_def)

lemma utf8_chars_truncate: "set (utf8_chars (truncate_bytes s n)) \<subseteq> set (utf8_chars s)"
  using utf8_chars_split [OF floor_boundary_ok, of s n] by (auto simp: truncate_bytes_def)

lemma truncate_clean: "\<not> contains_control_chars s \<Longrightarrow> \<not> contains_control_chars (truncate_bytes s n)"
  using utf8_chars_truncate [of s n] by (auto simp: contains_control_chars_def list_ex_iff)

lemma sanitize_text_ok:
  "str_wf raw \<Longrightarrow> \<not> contains_control_chars (sanitize_text raw n)" "length (sanitize_text raw n) \<le> n"
  by (simp_all add: sanitize_text_def truncate_clean strip_control_chars_clean length_truncate)

subsection \<open>Lower case keeps texts clean\<close>

lemma is_cont_lower [simp]: "is_cont (ascii_lower c) = is_cont c"
  by (auto simp: is_cont_def byte_lower)

lemma ascii_lower_cont: "is_cont c \<Longrightarrow> ascii_lower c = c"
  by (auto simp: is_cont_def ascii_lower_def less_eq_char_def)

lemma utf8_chars_lower: "utf8_chars (map ascii_lower s) = map (map ascii_lower) (utf8_chars s)"
  by (induction s rule: utf8_chars.induct) (simp_all add: takeWhile_map dropWhile_map comp_def)

lemma code_point_grow: "foldl (\<lambda>a b. a * 64 + f b) (x :: nat) bs \<ge> (if bs = [] then x else x * 64)"
proof (induction bs arbitrary: x)
  case (Cons b bs)
  from Cons [of "x * 64 + f b"] show ?case by (auto split: if_splits)
qed simp

lemma letter_not_control: "65 \<le> byte_of b \<and> byte_of b \<le> (122 :: nat) \<Longrightarrow> \<not> is_control (b # bs)"
  using code_point_grow [of bs "lead_bits b" "\<lambda>c. byte_of c mod 64"]
  by (auto simp: is_control_def code_point_def lead_bits_def Let_def split: if_splits)

lemma lowercase_clean:
  assumes "str_wf s" and "\<not> contains_control_chars s"
  shows "\<not> contains_control_chars (to_ascii_lowercase s)"
proof -
  have "\<not> is_control (map ascii_lower g)" if "g \<in> set (utf8_chars s)" for g
  proof -
    from utf8_chars_shape [OF assms(1) that] obtain b bs where g: "g = b # bs" "\<forall>c \<in> set bs. is_cont c" by blast
    then have m: "map ascii_lower bs = bs" by (simp add: map_idI ascii_lower_cont)
    have "\<not> is_control g" using assms(2) that by (simp add: contains_control_chars_def list_ex_iff)
    moreover have "ascii_lower b = b \<or> 65 \<le> byte_of (ascii_lower b) \<and> byte_of (ascii_lower b) \<le> (122 :: nat)"
      by (auto simp: byte_lower) (auto simp: ascii_lower_def less_eq_char_def)
    ultimately show ?thesis using g m letter_not_control by auto
  qed
  then show ?thesis by (auto simp: contains_control_chars_def list_ex_iff to_ascii_lowercase_map utf8_chars_lower)
qed

lemma str_wf_truncate: "str_wf s \<Longrightarrow> str_wf (truncate_bytes s n)"
  by (simp add: truncate_bytes_def str_wf_take)

lemma str_wf_sanitize: "str_wf raw \<Longrightarrow> str_wf (sanitize_text raw n)"
  by (simp add: sanitize_text_def str_wf_truncate str_wf_strip)

lemma sanitize_content_type_ok:
  assumes "str_wf raw"
  shows "\<not> contains_control_chars (sanitize_content_type raw)" "length (sanitize_content_type raw) \<le> 32"
proof -
  have "\<not> contains_control_chars (concat (filter is_ascii_alphanumeric (utf8_chars raw)))"
    by (auto simp: contains_control_chars_def list_ex_iff utf8_chars_filter(1) [OF assms]
        is_ascii_alphanumeric_def is_control_def Let_def)
  then show "\<not> contains_control_chars (sanitize_content_type raw)"
    by (simp add: sanitize_content_type_def truncate_clean)
qed (simp add: sanitize_content_type_def length_truncate)

subsection \<open>Printed addresses\<close>

definition printable :: "string \<Rightarrow> bool" where
  "printable s \<longleftrightarrow> list_all (\<lambda>c. 32 \<le> byte_of c \<and> byte_of c < (127 :: nat)) s"

lemma printable_simps [simp]:
  "printable []"
  "printable (s @ t) \<longleftrightarrow> printable s \<and> printable t"
  "printable (c # s) \<longleftrightarrow> 32 \<le> byte_of c \<and> byte_of c < (127 :: nat) \<and> printable s"
  by (auto simp: printable_def)

lemma printable_show_nat [simp]: "printable (show_nat n)"
  using show_nat_digits [of n] by (auto simp: printable_def list_all_iff is_ascii_digit_iff)

lemma byte_hex_digit: "d < 16 \<Longrightarrow> byte_of (hex_digit d) = (if d < 10 then 48 + d else 87 + d :: nat)"
  by (simp add: hex_digit_def)

lemma printable_hex [simp]: "printable (show_hex n)"
  using show_hex_props [of n] by (auto simp: printable_def list_all_iff hex_text_def byte_hex_digit)

lemma printable_fmt [simp]: "printable (fmt_subslice gs)"
  by (induction gs rule: fmt_subslice.induct) auto

lemma printable_socket: "printable (show_socket_addr a)"
  by (cases a) (auto simp: show_ipv4_def show_ipv6_def split: prod.splits)

lemma length_fmt: "\<forall>g \<in> set gs. g \<le> 65535 \<Longrightarrow> length (fmt_subslice gs) \<le> 5 * length gs"
proof (induction gs rule: fmt_subslice.induct)
  case (2 g)
  then show ?case using length_show_hex [of g 4] by simp
next
  case (3 g h hs)
  then show ?case using length_show_hex [of g 4] by simp
qed simp

lemma length_show_ipv4:
  assumes "wf_octets os"
  shows "length (show_ipv4 os) \<le> 15"
proof -
  from assms obtain a b c d where os: "os = [a, b, c, d]" "a \<le> 255" "b \<le> 255" "c \<le> 255" "d \<le> 255"
    by (rule wf_octets_cases)
  from os(2-5) [THEN octet_length] show ?thesis by (simp add: os(1) show_ipv4_def)
qed

lemma length_show_ipv6:
  assumes "wf_segments gs"
  shows "length (show_ipv6 gs) \<le> 82"
proof -
  have g: "length gs = 8" "\<forall>g \<in> set gs. g \<le> 65535" using assms by (auto simp: wf_segments_def)
  have part: "length (fmt_subslice (take i gs)) \<le> 40" "length (fmt_subslice (drop i gs)) \<le> 40" for i
  proof -
    have "\<forall>g \<in> set (take i gs). g \<le> 65535" "\<forall>g \<in> set (drop i gs). g \<le> 65535"
      using g(2) by (auto dest: in_set_takeD in_set_dropD)
    then have "length (fmt_subslice (take i gs)) \<le> 5 * length (take i gs)"
      "length (fmt_subslice (drop i gs)) \<le> 5 * length (drop i gs)" using length_fmt by blast+
    then show "length (fmt_subslice (take i gs)) \<le> 40" "length (fmt_subslice (drop i gs)) \<le> 40"
      using g(1) by auto
  qed
  have whole: "length (fmt_subslice gs) \<le> 40" using part(1) [of 8] g(1) by simp
  have "gs ! 6 \<le> 65535" "gs ! 7 \<le> 65535" using g by auto
  then have "wf_octets [gs ! 6 div 256, gs ! 6 mod 256, gs ! 7 div 256, gs ! 7 mod 256]"
    by (simp add: wf_octets_def) linarith
  from length_show_ipv4 [OF this] have "length (show_ipv4 [gs ! 6 div 256, gs ! 6 mod 256, gs ! 7 div 256, gs ! 7 mod 256]) \<le> 15" .
  moreover obtain st n where z: "zero_runs 0 (0, 0) (0, 0) gs = (st, n)" by fastforce
  ultimately show ?thesis using whole part(1) [of st] part(2) [of "st + n"] by (simp add: show_ipv6_def z)
qed

lemma length_socket: "wf_socket a \<Longrightarrow> length (show_socket_addr a) \<le> 200"
proof (cases a)
  case (SocketV4 os port)
  assume "wf_socket a"
  with SocketV4 show ?thesis using length_show_ipv4 [of os] length_show_nat_le [of port 5] by simp
next
  case (SocketV6 gs scope port)
  assume "wf_socket a"
  with SocketV6 show ?thesis
    using length_show_ipv6 [of gs] length_show_nat_le [of scope 10] length_show_nat_le [of port 5] by simp
qed

lemma validate_tracker_ok:
  assumes "validate_tracker raw = Some t"
  shows "printable t \<and> length t \<le> 200 \<and> parse_socket_addr t \<noteq> None"
proof -
  from assms obtain a where a: "parse_socket_addr raw = Some a" "t = show_socket_addr a"
    by (auto simp: validate_tracker_def)
  from parse_socket_wf [OF a(1)] show ?thesis
    using a(2) printable_socket length_socket parse_show_socket by simp
qed

lemma channel_id_hex_ok:
  assumes "length cid = 16"
  shows "is_lower_hex (channel_id_hex cid) 32" and "printable (channel_id_hex cid)"
proof -
  have d: "unat b div 16 < 16" for b :: u8 using unat_less_exp [of b] by (simp add: less_mult_imp_div_less)
  have "is_lower_hex_char (hex_digit k)" if "k < 16" for k
    using that by (simp add: is_lower_hex_char_def is_ascii_digit_iff less_eq_char_def byte_hex_digit)
  moreover have "length (channel_id_hex xs) = 2 * length xs" for xs
    by (induction xs) (auto simp: channel_id_hex_def)
  ultimately show "is_lower_hex (channel_id_hex cid) 32"
    using assms d by (auto simp: is_lower_hex_def channel_id_hex_def list_all_iff)
  show "printable (channel_id_hex cid)"
    using d by (auto simp: channel_id_hex_def printable_def list_all_iff byte_hex_digit intro: less_trans [OF d])
qed

subsection \<open>Announced channels can be published\<close>

text \<open>What the Rust types guarantee of the raw information: texts of well-formed UTF-8, an identifier
  of sixteen bytes, and integers within their width.\<close>

definition raw_ok :: "raw_channel_info \<Rightarrow> bool" where
  "raw_ok r \<longleftrightarrow> length (rc_channel_id r) = 16 \<and>
     list_all str_wf [rc_name r, rc_genre r, rc_description r, rc_comment r, rc_contact_url r, rc_content_type r,
       rc_track_title r, rc_track_creator r, rc_track_album r] \<and>
     rc_listeners r < 2 ^ 63 \<and> rc_relays_cnt r < 2 ^ 63 \<and> rc_started_at r \<le> u64_max"

lemma from_raw_listing_ok:
  assumes "raw_ok r"
  shows "listing_ok (to_listing (from_raw r st))"
proof -
  have texts: "str_wf (rc_name r)" "str_wf (rc_genre r)" "str_wf (rc_description r)" "str_wf (rc_comment r)"
    "str_wf (rc_contact_url r)" "str_wf (rc_content_type r)" "str_wf (rc_track_title r)" "str_wf (rc_track_creator r)"
    "str_wf (rc_track_album r)" using assms by (simp_all add: raw_ok_def)
  have cid: "printable (channel_id_hex (rc_channel_id r))" using assms channel_id_hex_ok by (simp add: raw_ok_def)
  have co: "clean_opt (non_empty s)" if "\<not> contains_control_chars s" for s
    using that by (simp add: clean_opt_def non_empty_def)
  have genre: "clean_opt (map_option to_ascii_lowercase (non_empty (sanitize_text (rc_genre r) 256)))"
    using lowercase_clean [OF str_wf_sanitize sanitize_text_ok(1)] texts(2) by (simp add: clean_opt_def non_empty_def)
  have tip: "tip_ok t \<and> clean_opt (map_option (\<lambda>t. ''pcp://'' @ t @ ''/'' @ channel_id_hex (rc_channel_id r)) t)"
    if "t = Option.bind (rc_tracker r) validate_tracker" for t
  proof (cases t)
    case (Some x)
    with that obtain raw where "validate_tracker raw = Some x" by (cases "rc_tracker r") auto
    from validate_tracker_ok [OF this] have x: "printable x" "parse_socket_addr x \<noteq> None" by auto
    then have "\<not> contains_control_chars x" "\<not> contains_control_chars (''pcp://'' @ x @ ''/'' @ channel_id_hex (rc_channel_id r))"
      using cid printable_no_control unfolding printable_def [symmetric] by auto
    with x Some show ?thesis by (simp add: tip_ok_def clean_opt_def)
  qed (simp add: tip_ok_def clean_opt_def)
  have counts: "count_ok (clamp_count (rc_listeners r))" "count_ok (clamp_count (rc_relays_cnt r))"
    using assms by (auto simp: raw_ok_def count_ok_def clamp_count_def UNKNOWN_COUNT_def)
  have "clamp_bitrate (rc_bitrate r) \<le> MAX_BITRATE_KBPS" by (auto simp: clamp_bitrate_def)
  moreover have "\<not> contains_control_chars []" by (simp add: contains_control_chars_def)
  ultimately show ?thesis
    using assms texts genre tip [OF refl] counts
    by (simp add: listing_ok_def to_listing_def from_raw_def Let_def co sanitize_text_ok sanitize_content_type_ok
        track_ok_def raw_ok_def)
qed

lemma from_raw_listing_sized:
  assumes "raw_ok r"
  shows "listing_sized (to_listing (from_raw r st))"
proof -
  have st: "length (sanitize_text x n) \<le> MAX_TAG_ELEMENT_BYTES" if "n \<le> MAX_TAG_ELEMENT_BYTES" for x n
    using that sanitize_text_ok(2) [of x n] by simp
  have m: "256 \<le> MAX_TAG_ELEMENT_BYTES" "512 \<le> MAX_TAG_ELEMENT_BYTES" "1024 \<le> MAX_TAG_ELEMENT_BYTES"
    by (simp_all add: MAX_TAG_ELEMENT_BYTES_def)
  have os: "opt_sized (non_empty s)" if "length s \<le> MAX_TAG_ELEMENT_BYTES" for s
    using that by (simp add: opt_sized_def non_empty_def)
  have ct: "length (sanitize_content_type (rc_content_type r)) \<le> MAX_TAG_ELEMENT_BYTES"
    unfolding sanitize_content_type_def MAX_TAG_ELEMENT_BYTES_def by (rule le_trans [OF length_truncate]) simp
  have genre: "opt_sized (map_option to_ascii_lowercase (non_empty (sanitize_text (rc_genre r) 256)))"
    using st [of 256] by (simp add: opt_sized_def non_empty_def to_ascii_lowercase_map MAX_TAG_ELEMENT_BYTES_def)
  have len: "length (channel_id_hex (rc_channel_id r)) = 32"
    using assms channel_id_hex_ok(1) [of "rc_channel_id r"] by (simp add: raw_ok_def is_lower_hex_def)
  have tip: "opt_sized t \<and> opt_sized (map_option (\<lambda>t. ''pcp://'' @ t @ ''/'' @ channel_id_hex (rc_channel_id r)) t)"
    if "t = Option.bind (rc_tracker r) validate_tracker" for t
  proof (cases t)
    case (Some x)
    with that obtain raw where "validate_tracker raw = Some x" by (cases "rc_tracker r") auto
    from validate_tracker_ok [OF this] Some len show ?thesis by (simp add: opt_sized_def MAX_TAG_ELEMENT_BYTES_def)
  qed (simp add: opt_sized_def)
  show ?thesis
    using genre tip [OF refl] ct
    by (simp add: listing_sized_def to_listing_def from_raw_def Let_def st os m)
qed

text \<open>A channel is publishable when its listing is acceptable to the reception checks.\<close>

definition publishable :: "announced_channel \<Rightarrow> bool" where
  "publishable c \<longleftrightarrow> listing_ok (to_listing c) \<and> listing_sized (to_listing c) \<and>
     is_lower_hex (cl_channel_id (to_listing c)) 32"

lemma from_raw_publishable: "raw_ok e \<Longrightarrow> publishable (from_raw e st)"
  using from_raw_listing_ok from_raw_listing_sized channel_id_hex_ok(1)
  by (simp add: publishable_def) (simp add: to_listing_def from_raw_def Let_def raw_ok_def)

lemma publishable_state [simp]: "publishable (c\<lparr>ac_state := st\<rparr>) = publishable c"
  by (simp add: publishable_def listing_ok_def listing_sized_def to_listing_def Let_def)

fun change_channel :: "channel_change \<Rightarrow> announced_channel" where
  "change_channel (ChangeAnnounced c) = c"
| "change_channel (ChangeUpdated c) = c"
| "change_channel (ChangeEnded c) = c"

definition reg_publishable :: "channel_registry \<Rightarrow> bool" where
  "reg_publishable r \<longleftrightarrow> list_all publishable (reg_snapshot r) \<and> list_all (publishable \<circ> change_channel) (reg_sent r)"

lemma reg_upsert_publishable:
  assumes "publishable c" and "reg_publishable r"
  shows "reg_publishable (fst (reg_upsert c r))"
proof -
  have "snd ` set (AList.update k v m) \<subseteq> insert v (snd ` set m)" for k m and v :: announced_channel
    by (induction m) auto
  then show ?thesis using assms
    by (fastforce simp: reg_publishable_def reg_upsert_def reg_snapshot_def list_all_iff Let_def)
qed

lemma reg_end_publishable: "reg_publishable r \<Longrightarrow> reg_publishable (fst (reg_end cid r))"
  by (auto simp: reg_publishable_def reg_end_def reg_snapshot_def list_all_iff set_delete_distinct
      split: option.splits dest!: map_of_SomeD)

lemma reg_contains_upsert: "reg_contains k (fst (reg_upsert c r)) \<longleftrightarrow> k = ac_channel_id c \<or> reg_contains k r"
  by (simp add: reg_contains_def reg_upsert_def Let_def update_conv')

lemma reg_contains_end: "reg_contains k (fst (reg_end cid r)) \<longleftrightarrow> k \<noteq> cid \<and> reg_contains k r"
  by (auto simp: reg_contains_def reg_end_def delete_conv' split: option.splits)

subsection \<open>The registry and its notifications\<close>

text \<open>The abstract registry is a map from identifiers to channels. A notification is legal in a map
  when it announces an absent channel, updates a present one, or ends a present one with its last
  information.\<close>

fun apply_change ::
  "channel_change \<Rightarrow> (channel_id \<rightharpoonup> announced_channel) \<Rightarrow> (channel_id \<rightharpoonup> announced_channel) option" where
  "apply_change (ChangeAnnounced c) m =
     (if m (ac_channel_id c) = None \<and> ac_state c = ChAnnounced then Some (m(ac_channel_id c \<mapsto> c)) else None)"
| "apply_change (ChangeUpdated c) m =
     (if m (ac_channel_id c) \<noteq> None \<and> ac_state c = ChUpdating then Some (m(ac_channel_id c \<mapsto> c)) else None)"
| "apply_change (ChangeEnded c) m = (case m (ac_channel_id c) of None \<Rightarrow> None
     | Some c' \<Rightarrow> if c = c'\<lparr>ac_state := ChEnded\<rparr> then Some (m(ac_channel_id c := None)) else None)"

fun replay :: "channel_change list \<Rightarrow> (channel_id \<rightharpoonup> announced_channel) \<Rightarrow> (channel_id \<rightharpoonup> announced_channel) option" where
  "replay [] m = Some m"
| "replay (x # xs) m = Option.bind (apply_change x m) (replay xs)"

lemma replay_append: "replay (xs @ ys) m = Option.bind (replay xs m) (replay ys)"
proof (induction xs arbitrary: m)
  case (Cons x xs)
  then show ?case by (cases "apply_change x m") auto
qed simp

datatype registry_op = OpUpsert announced_channel | OpEnd channel_id

fun registry_step :: "registry_op \<Rightarrow> channel_registry \<Rightarrow> channel_registry" where
  "registry_step (OpUpsert c) r = fst (reg_upsert c r)"
| "registry_step (OpEnd cid) r = fst (reg_end cid r)"

definition registry_ok :: "channel_registry \<Rightarrow> bool" where
  "registry_ok r \<longleftrightarrow> distinct (map fst (reg_inner r)) \<and>
     (\<forall>k c. map_of (reg_inner r) k = Some c \<longrightarrow> ac_channel_id c = k) \<and>
     replay (reg_sent r) Map.empty = Some (map_of (reg_inner r))"

lemma registry_step_ok: "registry_ok r \<Longrightarrow> registry_ok (registry_step x r)"
proof (cases x)
  case (OpUpsert c)
  assume "registry_ok r"
  with OpUpsert show ?thesis
    by (auto simp: registry_ok_def reg_upsert_def reg_contains_def Let_def replay_append update_conv')
next
  case (OpEnd cid)
  assume ok: "registry_ok r"
  show ?thesis
  proof (cases "map_of (reg_inner r) cid")
    case None
    with ok OpEnd show ?thesis by (simp add: reg_end_def)
  next
    case (Some c)
    with ok have "ac_channel_id c = cid" by (simp add: registry_ok_def)
    with ok OpEnd Some show ?thesis
      by (auto simp: registry_ok_def reg_end_def replay_append delete_conv')
  qed
qed

interpretation registry_steps: guarded_steps registry_step "\<lambda>_. True" registry_ok
  by unfold_locales (rule registry_step_ok)

lemma registry_run_ok: "registry_ok (fold registry_step ops registry_new)"
  by (rule registry_steps.run_inv) (simp_all add: registry_ok_def registry_new_def)


end
