(* ===== verification/Pcp_Session.thy ===== *)
theory Pcp_Session
  imports Pcp_Atom Pcp_Channel Time_Windows
begin

text \<open>
  Announce sessions of local broadcasting software (\<open>src/pcp/session.rs\<close>): the handshake, the
  interpretation of broadcast atoms, the limits, the pump that feeds received bytes to the session
  and the acceptance of connections. The channel registry and the security log are shared with the
  rest of the program: the operations take and return the registry, and return the calls they make
  to the log. Clock readings (unix seconds) are arguments; the session identifier of the node, a
  random value fixed at start, is an argument too. The trace output for debugging is left out.

  The lemmas show that a session never tracks more than sixteen channels, that everything it puts
  into the registry can be published, and that a connection leaves nothing behind in the registry
  when it ends, whatever bytes it received.
\<close>

unbundle bit_operations_syntax

definition PCP_PROTOCOL_VERSION :: int where
  "PCP_PROTOCOL_VERSION = 1"

definition MAX_CHANNELS_PER_SESSION :: nat where
  "MAX_CHANNELS_PER_SESSION = 16"

definition MAX_CONCURRENT_SESSIONS :: nat where
  "MAX_CONCURRENT_SESSIONS = 32"

definition MAX_SESSION_BYTES_PER_SEC :: nat where
  "MAX_SESSION_BYTES_PER_SEC = 64 * 1024"

definition MAX_PENDING_BYTES :: nat where
  "MAX_PENDING_BYTES = 256 * 1024"

definition FLG1_PUSH :: u8 where
  "FLG1_PUSH = 0x08"

definition FLG1_RECV :: u8 where
  "FLG1_RECV = 0x10"

definition agent_name :: string where
  "agent_name = ''peca-p2p-yp/0.1.0''"

definition source_is_loopback :: "socket_addr \<Rightarrow> bool" where
  "source_is_loopback a = (case socket_ip a of
     V4 os \<Rightarrow> os ! 0 = 127 | V6 gs \<Rightarrow> gs = [0, 0, 0, 0, 0, 0, 0, 1])"

datatype announce_action = SendAtom atom

record pcp_disconnect =
  pd_reason :: string
  pd_category :: "security_category option"

definition pcp_reject :: "string \<Rightarrow> pcp_disconnect" where
  "pcp_reject reason = \<lparr>pd_reason = reason, pd_category = Some PcpReject\<rparr>"

definition pcp_benign :: "string \<Rightarrow> pcp_disconnect" where
  "pcp_benign reason = \<lparr>pd_reason = reason, pd_category = None\<rparr>"

datatype handshake = BeforeHelo | HeloReceived

subsection \<open>Rate limiter\<close>

record pcp_rate =
  pr_window :: nat
  pr_bytes :: nat
  pr_max_bytes_per_sec :: nat
  pr_initialized :: bool

definition pcp_rate_new :: "nat \<Rightarrow> pcp_rate" where
  "pcp_rate_new n = \<lparr>pr_window = 0, pr_bytes = 0, pr_max_bytes_per_sec = n, pr_initialized = False\<rparr>"

definition pcp_charge :: "nat \<Rightarrow> nat \<Rightarrow> pcp_rate \<Rightarrow> pcp_rate \<times> (pcp_disconnect + unit)" where
  "pcp_charge now n rl =
     (let rl = (if \<not> pr_initialized rl \<or> now \<noteq> pr_window rl
               then rl\<lparr>pr_window := now, pr_bytes := 0, pr_initialized := True\<rparr> else rl);
          rl = rl\<lparr>pr_bytes := pr_bytes rl + n\<rparr>
      in (rl, if pr_bytes rl > pr_max_bytes_per_sec rl
              then Inl (pcp_reject ''session receive rate exceeded'') else Inr ()))"

subsection \<open>Session\<close>

type_synonym pcp_log = "security_category \<times> string \<times> string"

record announce_session =
  an_source :: string
  an_source_addr :: "socket_addr option"
  an_state :: handshake
  an_broadcast_id :: "channel_id option"
  an_channels :: "(channel_id \<times> raw_channel_info) list"
  an_rate :: pcp_rate

definition announce_session_new :: "string \<Rightarrow> announce_session" where
  "announce_session_new source = \<lparr>an_source = source, an_source_addr = parse_socket_addr source,
     an_state = BeforeHelo, an_broadcast_id = None, an_channels = [],
     an_rate = pcp_rate_new MAX_SESSION_BYTES_PER_SEC\<rparr>"

definition tracked_channels :: "announce_session \<Rightarrow> nat" where
  "tracked_channels s = length (an_channels s)"

definition child_str :: "atom option \<Rightarrow> string \<Rightarrow> string" where
  "child_str p name = unwrap_or [] (Option.bind (Option.bind p (atom_find name)) atom_as_str)"

definition child_i32 :: "atom option \<Rightarrow> string \<Rightarrow> int \<Rightarrow> int" where
  "child_i32 p name d = unwrap_or d (Option.bind (Option.bind p (atom_find name)) atom_as_i32)"

definition ipv6_segments :: "bytes \<Rightarrow> nat list" where
  "ipv6_segments bs = map (\<lambda>i. unat (bs ! (2 * i)) * 256 + unat (bs ! (2 * i + 1))) [0..<8]"

definition build_tracker :: "atom \<Rightarrow> string option" where
  "build_tracker host =
     Option.bind (Option.bind (atom_find ''ip'' host) atom_payload) (\<lambda>ip.
     Option.bind (Option.bind (atom_find ''port'' host) atom_as_i32) (\<lambda>port.
       if \<not> (0 \<le> port \<and> port \<le> 65535) then None
       else if length ip = 4 then
         Some (show_ipv4 [unat (ip ! 3), unat (ip ! 2), unat (ip ! 1), unat (ip ! 0)] @ '':'' @ show_nat (nat port))
       else if length ip = 16 then
         Some (''['' @ show_ipv6 (ipv6_segments (rev ip)) @ '']:'' @ show_nat (nat port))
       else None))"

definition required_guid :: "atom \<Rightarrow> string \<Rightarrow> string \<Rightarrow> pcp_disconnect + channel_id" where
  "required_guid parent name missing =
     and_then (ok_or (Option.bind (atom_find name parent) atom_payload) (pcp_reject missing)) (\<lambda>payload.
       if length payload \<noteq> 16 then Inl (pcp_reject ''invalid guid length'') else Inr payload)"

definition build_oleh :: "bytes \<Rightarrow> atom \<Rightarrow> announce_session \<Rightarrow> atom" where
  "build_oleh node_id helo s = atom_parent ''oleh''
     ([atom_bytes ''sid'' node_id, atom_str ''agnt'' agent_name, atom_i32 ''ver'' PCP_PROTOCOL_VERSION]
      @ (case an_source_addr s of
           Some (SocketV4 os _) \<Rightarrow> [atom_bytes ''rip'' (map word_of_nat [os ! 3, os ! 2, os ! 1, os ! 0])]
         | Some (SocketV6 gs _ _) \<Rightarrow>
             [atom_bytes ''rip'' (rev (concat (map (\<lambda>g. [word_of_nat (g div 256), word_of_nat (g mod 256)]) gs)))]
         | None \<Rightarrow> [])
      @ (case Option.bind (atom_find ''port'' helo) atom_as_i32 of
           Some port \<Rightarrow> if 0 \<le> port \<and> port \<le> 65535 then [atom_u16v ''port'' (nat port)] else []
         | None \<Rightarrow> []))"

text \<open>The record of a channel seen for the first time, and what one broadcast atom changes in it.\<close>

definition fresh_channel :: "channel_id \<Rightarrow> nat \<Rightarrow> raw_channel_info" where
  "fresh_channel cid now = \<lparr>rc_channel_id = cid, rc_name = [], rc_genre = [], rc_description = [],
     rc_comment = [], rc_contact_url = [], rc_bitrate = 0, rc_content_type = [], rc_track_title = [],
     rc_track_creator = [], rc_track_album = [], rc_tracker = None, rc_listeners = - 1,
     rc_relays_cnt = - 1, rc_started_at = now\<rparr>"

definition merge_info :: "atom option \<Rightarrow> raw_channel_info \<Rightarrow> raw_channel_info" where
  "merge_info chan e = (case Option.bind chan (atom_find ''info'') of None \<Rightarrow> e
     | Some info \<Rightarrow> e\<lparr>
         rc_name := child_str (Some info) ''name'',
         rc_genre := child_str (Some info) ''gnre'',
         rc_description := child_str (Some info) ''desc'',
         rc_comment := child_str (Some info) ''cmnt'',
         rc_contact_url := child_str (Some info) ''url'',
         rc_bitrate := child_i32 (Some info) ''bitr'' 0,
         rc_content_type := child_str (Some info) ''type''\<rparr>)"

definition merge_track :: "atom option \<Rightarrow> raw_channel_info \<Rightarrow> raw_channel_info" where
  "merge_track chan e = (case Option.bind chan (atom_find ''trck'') of None \<Rightarrow> e
     | Some trck \<Rightarrow> e\<lparr>
         rc_track_title := child_str (Some trck) ''titl'',
         rc_track_creator := child_str (Some trck) ''crea'',
         rc_track_album := child_str (Some trck) ''albm''\<rparr>)"

definition merge_host :: "atom option \<Rightarrow> u8 \<Rightarrow> raw_channel_info \<Rightarrow> raw_channel_info" where
  "merge_host host flg1 e = (case host of None \<Rightarrow> e
     | Some h \<Rightarrow> e\<lparr>
         rc_tracker := (if flg1 AND FLG1_PUSH \<noteq> 0 then None else build_tracker h),
         rc_listeners := child_i32 (Some h) ''numl'' (rc_listeners e),
         rc_relays_cnt := child_i32 (Some h) ''numr'' (rc_relays_cnt e)\<rparr>)"

definition or_else :: "'a option \<Rightarrow> 'a option \<Rightarrow> 'a option" where
  "or_else a b = (case a of None \<Rightarrow> b | Some x \<Rightarrow> Some x)"

text \<open>The part of \<open>handle_bcst\<close> that follows once the channel identifier is known.\<close>

definition bcst_channel ::
  "nat \<Rightarrow> atom option \<Rightarrow> atom option \<Rightarrow> channel_id \<Rightarrow> announce_session \<Rightarrow> channel_registry \<Rightarrow>
     announce_session \<times> channel_registry \<times> pcp_log list" where
  "bcst_channel now chan host cid s r =
     (let flg1 = word_of_int (unwrap_or 0 (Option.bind (Option.bind host (atom_find ''flg1'')) atom_as_i32)) :: u8;
          known = map_of (an_channels s) cid
      in if host \<noteq> None \<and> flg1 AND FLG1_RECV = 0 then
           (if known \<noteq> None
            then (s\<lparr>an_channels := AList.delete cid (an_channels s)\<rparr>, fst (reg_end cid r), [])
            else (s, r, []))
         else if known = None \<and> length (an_channels s) \<ge> MAX_CHANNELS_PER_SESSION then
           (s, r, [(PcpReject, an_source s, ''session channel limit exceeded'')])
         else
           let entry = unwrap_or (fresh_channel cid now) known;
               entry = merge_host host flg1 (merge_track chan (merge_info chan entry));
               st = (if known = None then ChAnnounced else ChUpdating)
           in (s\<lparr>an_channels := AList.update cid entry (an_channels s)\<rparr>,
               fst (reg_upsert (from_raw entry st) r), []))"

definition handle_bcst ::
  "nat \<Rightarrow> atom \<Rightarrow> announce_session \<Rightarrow> channel_registry \<Rightarrow>
     announce_session \<times> channel_registry \<times> pcp_log list \<times> (pcp_disconnect + announce_action list)" where
  "handle_bcst now a s r =
     (let chan = atom_find ''chan'' a;
          host = or_else (Option.bind chan (atom_find ''host'')) (atom_find ''host'' a)
      in if chan = None \<and> host = None then (s, r, [], Inr [])
      else
        let cid_atom = or_else (or_else (Option.bind chan (atom_find ''id'')) (atom_find ''cid'' a))
              (Option.bind host (atom_find ''cid''))
        in case Option.bind cid_atom atom_payload of
          None \<Rightarrow> (s, r, [], Inl (pcp_reject ''missing channel id in bcst''))
        | Some cid \<Rightarrow>
          if length cid \<noteq> 16 then (s, r, [], Inl (pcp_reject ''invalid guid length''))
          else case bcst_channel now chan host cid s r of (s, r, logs) \<Rightarrow> (s, r, logs, Inr []))"

definition on_atom ::
  "bytes \<Rightarrow> nat \<Rightarrow> nat \<Rightarrow> nat \<Rightarrow> atom \<Rightarrow> announce_session \<Rightarrow> channel_registry \<Rightarrow>
     announce_session \<times> channel_registry \<times> pcp_log list \<times> (pcp_disconnect + announce_action list)" where
  "on_atom node_id t1 t2 wire_len a s r =
     (case pcp_charge t1 wire_len (an_rate s) of
        (rl, Inl d) \<Rightarrow> (s\<lparr>an_rate := rl\<rparr>, r, [], Inl d)
      | (rl, Inr _) \<Rightarrow>
        let s = s\<lparr>an_rate := rl\<rparr> in
        case an_state s of
          BeforeHelo \<Rightarrow>
            if atom_id_matches (atom_id_of a) ''helo'' then
              (case required_guid a ''sid'' ''missing sid atom in helo'' of
                 Inl d \<Rightarrow> (s, r, [], Inl d)
               | Inr sid \<Rightarrow>
                   let bcid = unwrap_or sid (Option.bind (Option.bind (atom_find ''bcid'' a) atom_payload)
                         (\<lambda>p. if length p = 16 then Some p else None));
                       s = s\<lparr>an_broadcast_id := Some bcid, an_state := HeloReceived\<rparr>
                   in (s, r, [], Inr [SendAtom (build_oleh node_id a s)]))
            else (s, r, [], Inr [])
        | HeloReceived \<Rightarrow>
            if atom_id_matches (atom_id_of a) ''bcst'' then handle_bcst t2 a s r
            else if atom_id_matches (atom_id_of a) ''quit'' then (s, r, [], Inl (pcp_benign ''quit''))
            else (s, r, [], Inr []))"

definition end_all :: "announce_session \<Rightarrow> channel_registry \<Rightarrow> announce_session \<times> channel_registry" where
  "end_all s r = (s\<lparr>an_channels := []\<rparr>, fold (\<lambda>cid r. fst (reg_end cid r)) (map fst (an_channels s)) r)"

definition pcp_note_disconnect :: "pcp_disconnect \<Rightarrow> announce_session \<Rightarrow> pcp_log list" where
  "pcp_note_disconnect d s = (case pd_category d of None \<Rightarrow> [] | Some c \<Rightarrow> [(c, an_source s, pd_reason d)])"

definition pcp_log_reject :: "string \<Rightarrow> announce_session \<Rightarrow> pcp_log list" where
  "pcp_log_reject reason s = [(PcpReject, an_source s, reason)]"

subsection \<open>Connection\<close>

text \<open>
  The state of the pump of one connection. The clock \<open>clk\<close> gives the successive readings, of which
  two are set aside for each atom, and \<open>wr_ok\<close> tells whether the n-th write succeeds; the counters
  say how many have been used.
\<close>

record pcp_conn =
  cn_session :: announce_session
  cn_registry :: channel_registry
  cn_buf :: bytes
  cn_written :: "bytes list"
  cn_logs :: "pcp_log list"
  cn_reads :: nat
  cn_writes :: nat

fun write_actions :: "(nat \<Rightarrow> bool) \<Rightarrow> announce_action list \<Rightarrow> pcp_conn \<Rightarrow> pcp_conn \<times> bool" where
  "write_actions wr_ok [] c = (c, True)"
| "write_actions wr_ok (SendAtom a # as) c =
     (let n = cn_writes c; c = c\<lparr>cn_writes := n + 1\<rparr> in
      if wr_ok n then write_actions wr_ok as (c\<lparr>cn_written := cn_written c @ [encode_atom a]\<rparr>)
      else (c, False))"

lemma write_actions_buf [simp]:
  "cn_buf (fst (write_actions wr_ok as c)) = cn_buf c"
  "cn_session (fst (write_actions wr_ok as c)) = cn_session c"
  "cn_registry (fst (write_actions wr_ok as c)) = cn_registry c"
  "cn_reads (fst (write_actions wr_ok as c)) = cn_reads c"
  by (induction wr_ok as c rule: write_actions.induct) (auto simp: Let_def)

lemma try_decode_used: "try_decode buf = Inr (Some (a, used)) \<Longrightarrow> 8 \<le> used \<and> used \<le> length buf"
  unfolding try_decode_def using decode_exact(1) by blast

text \<open>The inner loop of the pump: it takes the complete atoms from the buffer. The result tells
  whether the connection goes on.\<close>

function drain_buffer :: "bytes \<Rightarrow> (nat \<Rightarrow> nat) \<Rightarrow> (nat \<Rightarrow> bool) \<Rightarrow> pcp_conn \<Rightarrow> pcp_conn \<times> bool" where
  "drain_buffer node_id clk wr_ok c =
     (case try_decode (cn_buf c) of
        Inr (Some (a, used)) \<Rightarrow>
          (case on_atom node_id (clk (cn_reads c)) (clk (cn_reads c + 1)) used a (cn_session c) (cn_registry c) of
             (s, r, logs, res) \<Rightarrow>
               let c = c\<lparr>cn_buf := drop used (cn_buf c), cn_session := s, cn_registry := r,
                     cn_logs := cn_logs c @ logs, cn_reads := cn_reads c + 2\<rparr>
               in (case res of
                     Inr actions \<Rightarrow>
                       (case write_actions wr_ok actions c of
                          (c, True) \<Rightarrow> drain_buffer node_id clk wr_ok c
                        | (c, False) \<Rightarrow> (c, False))
                   | Inl d \<Rightarrow> (c\<lparr>cn_logs := cn_logs c @ pcp_note_disconnect d s\<rparr>, False)))
      | Inr None \<Rightarrow>
          if length (cn_buf c) > MAX_PENDING_BYTES
          then (c\<lparr>cn_logs := cn_logs c @ pcp_log_reject ''pending atom buffer overflow'' (cn_session c)\<rparr>, False)
          else (c, True)
      | Inl e \<Rightarrow> (c\<lparr>cn_logs := cn_logs c @ pcp_log_reject (atom_error_reason e) (cn_session c)\<rparr>, False))"
  by pat_completeness auto

termination
proof (relation "measure (\<lambda>(node_id, clk, wr_ok, c). length (cn_buf c))")
  fix node_id clk wr_ok c x2 xa a used s r logs res cn as w c' cont
  assume d: "try_decode (cn_buf c) = Inr x2" "x2 = Some xa" "(a, used) = xa"
    and cn: "cn = c\<lparr>cn_buf := drop used (cn_buf c), cn_session := s, cn_registry := r,
        cn_logs := cn_logs c @ logs, cn_reads := cn_reads c + 2\<rparr>"
    and w: "(c', cont) = write_actions wr_ok as cn"
  have "8 \<le> used" "used \<le> length (cn_buf c)" using try_decode_used [of "cn_buf c" a used] d by auto
  moreover have "cn_buf c' = drop used (cn_buf c)"
    using arg_cong [OF w, of "\<lambda>p. cn_buf (fst p)"] cn by simp
  ultimately show "((node_id, clk, wr_ok, c'), node_id, clk, wr_ok, c) \<in> measure (\<lambda>(node_id, clk, wr_ok, c). length (cn_buf c))"
    by auto
qed auto

declare drain_buffer.simps [simp del]

fun pump_chunks :: "bytes \<Rightarrow> (nat \<Rightarrow> nat) \<Rightarrow> (nat \<Rightarrow> bool) \<Rightarrow> bytes list \<Rightarrow> pcp_conn \<Rightarrow> pcp_conn" where
  "pump_chunks node_id clk wr_ok [] c = c"
| "pump_chunks node_id clk wr_ok (chunk # chunks) c =
     (if chunk = [] then c
      else case drain_buffer node_id clk wr_ok (c\<lparr>cn_buf := cn_buf c @ chunk\<rparr>) of
        (c, True) \<Rightarrow> pump_chunks node_id clk wr_ok chunks c
      | (c, False) \<Rightarrow> c)"

text \<open>A whole connection: the chunks it reads, up to the end of the stream, a read error or the
  shutdown of the program, and the ending of its channels.\<close>

definition handle_conn ::
  "bytes \<Rightarrow> (nat \<Rightarrow> nat) \<Rightarrow> (nat \<Rightarrow> bool) \<Rightarrow> string \<Rightarrow> bytes list \<Rightarrow> channel_registry \<Rightarrow> pcp_conn" where
  "handle_conn node_id clk wr_ok source chunks r =
     (let c = pump_chunks node_id clk wr_ok chunks
            \<lparr>cn_session = announce_session_new source, cn_registry = r, cn_buf = [], cn_written = [],
             cn_logs = [], cn_reads = 0, cn_writes = 0\<rparr>
      in case end_all (cn_session c) (cn_registry c) of
        (s, r) \<Rightarrow> c\<lparr>cn_session := s, cn_registry := r\<rparr>)"

text \<open>The acceptance of a connection, given the number of sessions under way.\<close>

datatype accept_outcome = AcceptConn | DropNonLoopback | DropFull

definition pcp_accept :: "socket_addr \<Rightarrow> nat \<Rightarrow> accept_outcome \<times> pcp_log list" where
  "pcp_accept peer active =
     (if \<not> source_is_loopback peer
      then (DropNonLoopback, [(PcpReject, show_socket_addr peer, ''non-loopback source'')])
      else if active \<ge> MAX_CONCURRENT_SESSIONS then (DropFull, [])
      else (AcceptConn, []))"

text \<open>The accept loop of \<open>serve\<close> over its inputs: incoming connections and sessions that end and
  give back their permit.\<close>

datatype serve_input = Incoming socket_addr | SessionEnded

fun serve_step :: "serve_input \<Rightarrow> nat \<Rightarrow> nat \<times> pcp_log list" where
  "serve_step (Incoming peer) active = (case pcp_accept peer active of
     (AcceptConn, logs) \<Rightarrow> (active + 1, logs) | (_, logs) \<Rightarrow> (active, logs))"
| "serve_step SessionEnded active = (active - 1, [])"

lemma serve_bounded: "active \<le> MAX_CONCURRENT_SESSIONS \<Longrightarrow> fst (serve_step x active) \<le> MAX_CONCURRENT_SESSIONS"
  by (cases x) (auto simp: pcp_accept_def)

subsection \<open>The rate limit\<close>

definition pcp_limiter :: "nat \<times> nat \<Rightarrow> pcp_rate \<Rightarrow> pcp_rate \<times> bool" where
  "pcp_limiter c rl = (case pcp_charge (fst c) (snd c) rl of (rl', res) \<Rightarrow> (rl', res = Inr ()))"

definition pcp_restarts :: "nat \<times> nat \<Rightarrow> pcp_rate \<Rightarrow> bool" where
  "pcp_restarts c rl \<longleftrightarrow> \<not> pr_initialized rl \<or> fst c \<noteq> pr_window rl"

interpretation pcp_bytes: fixed_window_limiter pcp_limiter pcp_restarts snd pr_bytes pr_max_bytes_per_sec
  by unfold_locales (auto simp: pcp_limiter_def pcp_charge_def pcp_restarts_def Let_def split: if_splits)

subsection \<open>What a session tracks\<close>

lemma child_str_wf: "str_wf (child_str p name)"
proof -
  have "str_wf []" by (simp add: str_wf_def)
  then show ?thesis
    by (auto simp: child_str_def atom_as_str_def unwrap_or_def str_wf_lossy bind_eq_Some_conv split: option.splits)
qed

lemma as_i32_less: "atom_as_i32 a = Some v \<Longrightarrow> v < 2 ^ 63"
proof -
  assume "atom_as_i32 a = Some v"
  then obtain p where p: "(length p = 1 \<and> v = uint (p ! 0)) \<or> (length p = 2 \<and> v = int (nat_from_le p)) \<or> v = sint (u32_from_le p)"
    by (auto simp: atom_as_i32_def bind_eq_Some_conv split: if_splits)
  have u: "unat b < 256" for b :: u8 using unat_less_exp [of b] by simp
  have "nat_from_le p < 2 ^ 16" if "length p = 2"
  proof -
    from that obtain b c where "p = [b, c]" by (auto simp: length_Suc_conv numeral_2_eq_2)
    then show ?thesis using u [of b] u [of c] by simp
  qed
  moreover have "uint (p ! 0) < 256" using uint_bounded [of "p ! 0"] by simp
  moreover have "sint (u32_from_le p) < 2 ^ 31" using sint_less [of "u32_from_le p"] by simp
  ultimately show ?thesis using p by auto
qed

lemma child_i32_less: "d < 2 ^ 63 \<Longrightarrow> child_i32 p name d < 2 ^ 63"
  by (auto simp: child_i32_def unwrap_or_def bind_eq_Some_conv dest: as_i32_less split: option.splits)

lemma merge_ok:
  assumes "raw_ok e"
  shows "raw_ok (merge_info chan e)" "raw_ok (merge_track chan e)" "raw_ok (merge_host host f e)"
  using assms child_i32_less by (auto simp: raw_ok_def merge_info_def merge_track_def merge_host_def child_str_wf split: option.splits)

lemma merge_id [simp]:
  "rc_channel_id (merge_info chan e) = rc_channel_id e" "rc_channel_id (merge_track chan e) = rc_channel_id e"
  "rc_channel_id (merge_host host f e) = rc_channel_id e"
  by (auto simp: merge_info_def merge_track_def merge_host_def split: option.splits)

lemma fresh_channel_ok: "length cid = 16 \<Longrightarrow> now \<le> u64_max \<Longrightarrow> raw_ok (fresh_channel cid now)"
  by (simp add: raw_ok_def fresh_channel_def str_wf_def)

definition session_inv :: "announce_session \<Rightarrow> bool" where
  "session_inv s \<longleftrightarrow> length (an_channels s) \<le> MAX_CHANNELS_PER_SESSION \<and> distinct (map fst (an_channels s)) \<and>
     (\<forall>(k, e) \<in> set (an_channels s). raw_ok e \<and> rc_channel_id e = k)"

text \<open>The three ways in which an atom can change the session and the registry.\<close>

datatype bcst_effect = NoEffect | EndsChannel channel_id | SetsChannel channel_id raw_channel_info channel_state

fun apply_effect :: "bcst_effect \<Rightarrow> announce_session \<Rightarrow> channel_registry \<Rightarrow> announce_session \<times> channel_registry" where
  "apply_effect NoEffect s r = (s, r)"
| "apply_effect (EndsChannel cid) s r =
     (s\<lparr>an_channels := AList.delete cid (an_channels s)\<rparr>, fst (reg_end cid r))"
| "apply_effect (SetsChannel cid e st) s r =
     (s\<lparr>an_channels := AList.update cid e (an_channels s)\<rparr>, fst (reg_upsert (from_raw e st) r))"

fun effect_ok :: "announce_session \<Rightarrow> bcst_effect \<Rightarrow> bool" where
  "effect_ok s NoEffect = True"
| "effect_ok s (EndsChannel cid) \<longleftrightarrow> map_of (an_channels s) cid \<noteq> None"
| "effect_ok s (SetsChannel cid e st) \<longleftrightarrow> raw_ok e \<and> rc_channel_id e = cid \<and>
     (map_of (an_channels s) cid \<noteq> None \<or> length (an_channels s) < MAX_CHANNELS_PER_SESSION)"

lemma known_raw_ok:
  "session_inv s \<Longrightarrow> map_of (an_channels s) cid = Some e \<Longrightarrow> raw_ok e \<and> rc_channel_id e = cid"
  by (auto simp: session_inv_def dest: map_of_SomeD)

lemma bcst_channel_effect:
  assumes "session_inv s" and "now \<le> u64_max" and "length cid = 16"
    and "bcst_channel now chan host cid s r = (s', r', logs)"
  shows "\<exists>x. effect_ok s x \<and> (s', r') = apply_effect x s r"
proof -
  let ?flg1 = "word_of_int (unwrap_or 0 (Option.bind (Option.bind host (atom_find ''flg1'')) atom_as_i32)) :: u8"
  let ?known = "map_of (an_channels s) cid"
  let ?base = "unwrap_or (fresh_channel cid now) ?known"
  let ?merged = "merge_host host ?flg1 (merge_track chan (merge_info chan ?base))"
  have "raw_ok ?base \<and> rc_channel_id ?base = cid"
    using known_raw_ok [OF assms(1)] fresh_channel_ok [OF assms(3,2)]
    by (cases ?known) (auto simp: fresh_channel_def)
  then have e: "raw_ok ?merged" "rc_channel_id ?merged = cid" by (simp_all add: merge_ok)
  consider (stopped) "host \<noteq> None \<and> ?flg1 AND FLG1_RECV = 0"
    | (full) "\<not> (host \<noteq> None \<and> ?flg1 AND FLG1_RECV = 0)" "?known = None \<and> length (an_channels s) \<ge> MAX_CHANNELS_PER_SESSION"
    | (set) "\<not> (host \<noteq> None \<and> ?flg1 AND FLG1_RECV = 0)" "\<not> (?known = None \<and> length (an_channels s) \<ge> MAX_CHANNELS_PER_SESSION)"
    by blast
  then show ?thesis
  proof cases
    case stopped
    with assms(4) show ?thesis
      by (cases ?known) (auto simp: bcst_channel_def Let_def intro: exI [of _ NoEffect] exI [of _ "EndsChannel cid"])
  next
    case full
    with assms(4) show ?thesis unfolding bcst_channel_def Let_def if_not_P [OF full(1)] if_P [OF full(2)]
      by (intro exI [of _ NoEffect]) simp
  next
    case set
    with assms(4) e show ?thesis unfolding bcst_channel_def Let_def if_not_P [OF set(1)] if_not_P [OF set(2)]
      by (intro exI [of _ "SetsChannel cid ?merged (if ?known = None then ChAnnounced else ChUpdating)"]) auto
  qed
qed

lemma handle_bcst_effect:
  assumes "session_inv s" and "now \<le> u64_max" and "handle_bcst now a s r = (s', r', logs, res)"
  shows "\<exists>x. effect_ok s x \<and> (s', r') = apply_effect x s r"
proof -
  have "(s', r') = (s, r) \<or> (\<exists>chan host cid. length cid = 16 \<and> bcst_channel now chan host cid s r = (s', r', logs))"
    using assms(3) unfolding handle_bcst_def Let_def by (auto split: if_splits option.splits prod.splits)
  then show ?thesis using bcst_channel_effect [OF assms(1,2)] by (metis effect_ok.simps(1) apply_effect.simps(1))
qed

subsection \<open>The invariant of a connection\<close>

definition conn_inv :: "channel_registry \<Rightarrow> announce_session \<Rightarrow> channel_registry \<Rightarrow> bool" where
  "conn_inv r0 s r \<longleftrightarrow> session_inv s \<and> (reg_publishable r0 \<longrightarrow> reg_publishable r) \<and>
     (\<forall>cid. reg_contains cid r \<longrightarrow> reg_contains cid r0 \<or> cid \<in> fst ` set (an_channels s))"

lemma session_inv_update:
  assumes "session_inv s" and "effect_ok s (SetsChannel cid e st)"
  shows "session_inv (s\<lparr>an_channels := AList.update cid e (an_channels s)\<rparr>)"
proof -
  have "length (AList.update cid e (an_channels s)) \<le> MAX_CHANNELS_PER_SESSION"
  proof (cases "map_of (an_channels s) cid")
    case None
    then have "cid \<notin> fst ` set (an_channels s)" by (simp add: map_of_eq_None_iff)
    with None assms(2) show ?thesis by (simp add: update_notin_append)
  next
    case (Some x)
    then have "cid \<in> fst ` set (an_channels s)" by (force dest: map_of_SomeD)
    with assms(1) show ?thesis by (simp add: session_inv_def length_update_mem)
  qed
  moreover have "set (AList.update cid e m) \<subseteq> insert (cid, e) (set m)" for m by (induction m) auto
  ultimately show ?thesis using assms by (fastforce simp: session_inv_def)
qed

lemma apply_effect_inv:
  assumes "conn_inv r0 s r" and "effect_ok s x" and "(s', r') = apply_effect x s r"
  shows "conn_inv r0 s' r'"
proof (cases x)
  case (EndsChannel cid)
  have "session_inv (s\<lparr>an_channels := AList.delete cid (an_channels s)\<rparr>)"
    using assms(1) length_delete_le [of cid "an_channels s"]
    by (auto simp: conn_inv_def session_inv_def set_delete_distinct)
  moreover have "fst ` set (AList.delete cid (an_channels s)) = fst ` set (an_channels s) - {cid}"
    by (force simp: set_delete_distinct)
  ultimately show ?thesis using assms EndsChannel
    by (simp add: conn_inv_def reg_contains_end reg_end_publishable)
next
  case (SetsChannel cid e st)
  with assms(2) have e: "raw_ok e" "rc_channel_id e = cid" by auto
  have "ac_channel_id (from_raw e st) = cid" using e by (simp add: from_raw_def)
  moreover have "fst ` set (AList.update cid e (an_channels s)) = insert cid (fst ` set (an_channels s))"
    by (simp add: dom_update)
  moreover have "session_inv (s\<lparr>an_channels := AList.update cid e (an_channels s)\<rparr>)"
    using assms(1,2) SetsChannel by (intro session_inv_update) (auto simp: conn_inv_def)
  ultimately show ?thesis using assms SetsChannel e(1)
    by (simp add: conn_inv_def reg_contains_upsert reg_upsert_publishable from_raw_publishable) blast
qed (use assms in simp)

lemma conn_inv_rate [simp]: "conn_inv r0 (s\<lparr>an_rate := x\<rparr>) r = conn_inv r0 s r"
  "conn_inv r0 (s\<lparr>an_broadcast_id := b, an_state := h\<rparr>) r = conn_inv r0 s r"
  by (simp_all add: conn_inv_def session_inv_def)

lemma on_atom_inv:
  assumes "conn_inv r0 s r" and "t2 \<le> u64_max" and "on_atom node_id t1 t2 n a s r = (s', r', logs, res)"
  shows "conn_inv r0 s' r'"
proof -
  obtain rl x where c: "pcp_charge t1 n (an_rate s) = (rl, x)" by fastforce
  let ?s = "s\<lparr>an_rate := rl\<rparr>"
  have i: "conn_inv r0 ?s r" using assms(1) by simp
  consider (bcst) "handle_bcst t2 a ?s r = (s', r', logs, res)" | (other) "conn_inv r0 s' r'"
    using assms(3) i unfolding on_atom_def c
    by (auto simp: Let_def split: sum.splits handshake.splits if_splits)
  then show ?thesis
  proof cases
    case bcst
    have "session_inv ?s" using i by (simp add: conn_inv_def)
    from handle_bcst_effect [OF this assms(2) bcst] show ?thesis using apply_effect_inv [OF i] by blast
  qed
qed

text \<open>A property that every processed atom preserves is preserved by the loop; when the connection
  goes on, what is left in the buffer is an incomplete atom.\<close>

lemma drain_preserves:
  assumes "P (cn_reads c) (cn_buf c) (cn_session c) (cn_registry c)"
    and step: "\<And>n buf s r a used s' r' logs res. P n buf s r \<Longrightarrow> try_decode buf = Inr (Some (a, used)) \<Longrightarrow>
      on_atom node_id (clk n) (clk (n + 1)) used a s r = (s', r', logs, res) \<Longrightarrow> P (n + 2) (drop used buf) s' r'"
  shows "case drain_buffer node_id clk wr_ok c of (c', go_on) \<Rightarrow> P (cn_reads c') (cn_buf c') (cn_session c') (cn_registry c') \<and>
    (go_on \<longrightarrow> try_decode (cn_buf c') = Inr None \<and> length (cn_buf c') \<le> MAX_PENDING_BYTES)"
  using assms(1)
proof (induction c rule: measure_induct_rule [where f = "\<lambda>c. length (cn_buf c)"])
  case (less c)
  show ?case
  proof (cases "\<exists>a used. try_decode (cn_buf c) = Inr (Some (a, used))")
    case False
    with less.prems show ?thesis by (subst drain_buffer.simps) (auto simp: not_less split: sum.splits option.splits)
  next
    case True
    then obtain a used where d: "try_decode (cn_buf c) = Inr (Some (a, used))" by blast
    obtain s r logs res where o1: "on_atom node_id (clk (cn_reads c)) (clk (cn_reads c + 1)) used a (cn_session c) (cn_registry c) = (s, r, logs, res)"
      by (rule prod_cases4)
    let ?c = "c\<lparr>cn_buf := drop used (cn_buf c), cn_session := s, cn_registry := r,
        cn_logs := cn_logs c @ logs, cn_reads := cn_reads c + 2\<rparr>"
    note inv = step [OF less.prems d o1]
    show ?thesis
    proof (cases res)
      case (Inl e)
      with d o1 inv show ?thesis by (subst drain_buffer.simps) (simp add: Let_def)
    next
      case (Inr as)
      obtain c' cont where w: "write_actions wr_ok as ?c = (c', cont)" by fastforce
      have c': "cn_session c' = s" "cn_registry c' = r" "cn_buf c' = drop used (cn_buf c)" "cn_reads c' = cn_reads c + 2"
        using write_actions_buf [of wr_ok as ?c] unfolding w by simp_all
      show ?thesis
      proof (cases cont)
        case True
        have "length (cn_buf c') < length (cn_buf c)" using try_decode_used [OF d] by (auto simp: c'(3))
        from less.IH [OF this] c' inv d o1 Inr w True show ?thesis by (subst drain_buffer.simps) (simp add: Let_def)
      next
        case False
        with d o1 Inr w c' inv show ?thesis by (subst drain_buffer.simps) (simp add: Let_def)
      qed
    qed
  qed
qed

lemma drain_inv:
  assumes "conn_inv r0 (cn_session c) (cn_registry c)" "\<And>n. clk n \<le> u64_max"
  shows "conn_inv r0 (cn_session (fst (drain_buffer node_id clk wr_ok c))) (cn_registry (fst (drain_buffer node_id clk wr_ok c)))"
proof -
  have "case drain_buffer node_id clk wr_ok c of (c', go_on) \<Rightarrow> conn_inv r0 (cn_session c') (cn_registry c') \<and>
      (go_on \<longrightarrow> try_decode (cn_buf c') = Inr None \<and> length (cn_buf c') \<le> MAX_PENDING_BYTES)"
    by (rule drain_preserves, rule assms(1)) (rule on_atom_inv [OF _ assms(2)])
  then show ?thesis by (auto split: prod.splits)
qed

lemma pump_inv:
  "conn_inv r0 (cn_session c) (cn_registry c) \<Longrightarrow> (\<And>n. clk n \<le> u64_max) \<Longrightarrow>
     conn_inv r0 (cn_session (pump_chunks node_id clk wr_ok chunks c)) (cn_registry (pump_chunks node_id clk wr_ok chunks c))"
proof (induction chunks arbitrary: c)
  case (Cons chunk chunks)
  let ?c = "c\<lparr>cn_buf := cn_buf c @ chunk\<rparr>"
  obtain c' cont where d: "drain_buffer node_id clk wr_ok ?c = (c', cont)" by fastforce
  have "conn_inv r0 (cn_session c') (cn_registry c')"
    using drain_inv [of r0 ?c clk node_id wr_ok] Cons.prems d by simp
  with Cons d show ?case by (cases cont) auto
qed simp

definition conn_start :: "string \<Rightarrow> channel_registry \<Rightarrow> pcp_conn" where
  "conn_start source r = \<lparr>cn_session = announce_session_new source, cn_registry = r, cn_buf = [], cn_written = [],
     cn_logs = [], cn_reads = 0, cn_writes = 0\<rparr>"

lemma conn_start_inv: "conn_inv r (cn_session (conn_start source r)) (cn_registry (conn_start source r))"
  by (simp add: conn_inv_def session_inv_def conn_start_def announce_session_new_def)

lemma reg_contains_end_all: "reg_contains k (fold (\<lambda>cid r. fst (reg_end cid r)) cids r) \<longleftrightarrow> k \<notin> set cids \<and> reg_contains k r"
  by (induction cids arbitrary: r) (auto simp: reg_contains_end)

lemma reg_publishable_end_all: "reg_publishable r \<Longrightarrow> reg_publishable (fold (\<lambda>cid r. fst (reg_end cid r)) cids r)"
  by (induction cids arbitrary: r) (auto simp: reg_end_publishable)

lemma handle_conn_eq:
  "cn_registry (handle_conn node_id clk wr_ok source chunks r) =
     (let c = pump_chunks node_id clk wr_ok chunks (conn_start source r)
      in fold (\<lambda>cid r. fst (reg_end cid r)) (map fst (an_channels (cn_session c))) (cn_registry c))"
  by (simp add: handle_conn_def conn_start_def end_all_def Let_def)

text \<open>C22: a connection leaves nothing behind. Whatever bytes the broadcasting software sends, in
  whatever chunks, and however the connection ends (quit, violation, write error, end of stream or
  shutdown), every channel registered afterwards was registered before it: all channels the
  connection announced have been ended. While it lasts it tracks at most sixteen channels.\<close>

theorem pcp_conn_ends_channels:
  assumes "\<forall>n. clk n \<le> u64_max"
  shows "(reg_contains cid (cn_registry (handle_conn node_id clk wr_ok source chunks r)) \<longrightarrow> reg_contains cid r) \<and>
    tracked_channels (cn_session (pump_chunks node_id clk wr_ok chunks (conn_start source r))) \<le> MAX_CHANNELS_PER_SESSION"
proof -
  let ?c = "pump_chunks node_id clk wr_ok chunks (conn_start source r)"
  have i: "conn_inv r (cn_session ?c) (cn_registry ?c)"
    using pump_inv [OF conn_start_inv] assms by blast
  then have "reg_contains cid (cn_registry ?c) \<Longrightarrow> reg_contains cid r \<or> cid \<in> fst ` set (an_channels (cn_session ?c))"
    by (simp add: conn_inv_def)
  with i show ?thesis
    by (auto simp: handle_conn_eq Let_def reg_contains_end_all conn_inv_def session_inv_def tracked_channels_def)
qed

text \<open>A short session: a greeting and one announcement, in one chunk.\<close>

definition demo_helo :: atom where
  "demo_helo = atom_parent ''helo'' [atom_bytes ''sid'' (replicate 16 1)]"

definition demo_bcst :: atom where
  "demo_bcst = atom_parent ''bcst'' [atom_parent ''chan'' [atom_bytes ''id'' (replicate 16 2)]]"

lemma demo_atoms_ok: "atom_ok 1 demo_helo" "atom_ok 1 demo_bcst"
  by (simp_all add: demo_helo_def demo_bcst_def atom_parent_def atom_bytes_def MAX_NEST_DEPTH_def MAX_CHILDREN_def
      MAX_ATOM_PAYLOAD_def)

lemma try_decode_encoded:
  "atom_ok 1 a \<Longrightarrow> try_decode (encode_atom a @ rest) = Inr (Some (a, length (encode_atom a)))"
  "atom_ok 1 a \<Longrightarrow> try_decode (encode_atom a) = Inr (Some (a, length (encode_atom a)))"
  "try_decode [] = Inr None"
  using decode_encode [of 1 a rest] decode_encode [of 1 a "[]"]
  by (simp_all add: try_decode_def) (simp add: decode_at.simps MAX_NEST_DEPTH_def)

lemma demo_on_helo:
  "on_atom node_id 5 5 n demo_helo (announce_session_new src) r =
     (let s = announce_session_new src in
      if n \<le> MAX_SESSION_BYTES_PER_SEC then
        (let s = s\<lparr>an_rate := \<lparr>pr_window = 5, pr_bytes = n, pr_max_bytes_per_sec = MAX_SESSION_BYTES_PER_SEC, pr_initialized = True\<rparr>,
               an_broadcast_id := Some (replicate 16 1), an_state := HeloReceived\<rparr>
         in (s, r, [], Inr [SendAtom (build_oleh node_id demo_helo s)]))
      else (s\<lparr>an_rate := \<lparr>pr_window = 5, pr_bytes = n, pr_max_bytes_per_sec = MAX_SESSION_BYTES_PER_SEC, pr_initialized = True\<rparr>\<rparr>,
            r, [], Inl (pcp_reject ''session receive rate exceeded'')))"
  by (auto simp: on_atom_def announce_session_new_def pcp_rate_new_def pcp_charge_def Let_def demo_helo_def atom_parent_def
      atom_bytes_def atom_id_matches_def required_guid_def atom_find_def atom_id_from_name_def str_bytes_def)

lemma demo_lengths [simp]: "length (encode_atom demo_helo) = 32" "length (encode_atom demo_bcst) = 40"
  by (simp_all add: demo_helo_def demo_bcst_def atom_parent_def atom_bytes_def)

lemma demo_on_bcst:
  assumes "an_state s = HeloReceived" and "an_channels s = []" and "an_rate s = \<lparr>pr_window = 5, pr_bytes = 32,
    pr_max_bytes_per_sec = MAX_SESSION_BYTES_PER_SEC, pr_initialized = True\<rparr>"
  shows "\<exists>s' e. on_atom node_id 5 5 40 demo_bcst s r = (s', fst (reg_upsert (from_raw e ChAnnounced) r), [], Inr []) \<and>
    rc_channel_id e = replicate 16 2"
proof -
  let ?s = "s\<lparr>an_rate := \<lparr>pr_window = 5, pr_bytes = 72, pr_max_bytes_per_sec = MAX_SESSION_BYTES_PER_SEC, pr_initialized = True\<rparr>\<rparr>"
  have f: "atom_find ''chan'' demo_bcst = Some (atom_parent ''chan'' [atom_bytes ''id'' (replicate 16 2)])"
    "atom_find ''host'' demo_bcst = None" "atom_find ''host'' (atom_parent ''chan'' [atom_bytes ''id'' (replicate 16 2)]) = None"
    "atom_find ''id'' (atom_parent ''chan'' [atom_bytes ''id'' (replicate 16 2)]) = Some (atom_bytes ''id'' (replicate 16 2))"
    by (simp_all add: demo_bcst_def atom_parent_def atom_bytes_def atom_find_def atom_id_from_name_def str_bytes_def)
  have i: "\<not> atom_id_matches (atom_id_of demo_bcst) ''helo''" "atom_id_matches (atom_id_of demo_bcst) ''bcst''"
    by (simp_all add: demo_bcst_def atom_parent_def atom_id_matches_def atom_id_from_name_def str_bytes_def)
  have p: "atom_payload (atom_bytes ''id'' (replicate 16 2)) = Some (replicate 16 2)" by (simp add: atom_bytes_def)
  have "on_atom node_id 5 5 40 demo_bcst s r = handle_bcst 5 demo_bcst ?s r"
    using assms i by (simp add: on_atom_def pcp_charge_def Let_def MAX_SESSION_BYTES_PER_SEC_def)
  also have "\<dots> = (case bcst_channel 5 (Some (atom_parent ''chan'' [atom_bytes ''id'' (replicate 16 2)])) None (replicate 16 2) ?s r of
      (s, r, logs) \<Rightarrow> (s, r, logs, Inr []))"
    unfolding handle_bcst_def Let_def f Option.bind.simps or_else_def option.case p by simp
  finally show ?thesis
    using assms(2) by (auto simp: bcst_channel_def Let_def MAX_CHANNELS_PER_SESSION_def fresh_channel_def)
qed

definition demo_chunks :: "bytes list" where
  "demo_chunks = [encode_atom demo_helo @ encode_atom demo_bcst]"

lemma demo_run:
  obtains e where "cn_registry (pump_chunks [] (\<lambda>_. 5) (\<lambda>_. True) demo_chunks (conn_start ''p'' registry_new)) =
      fst (reg_upsert (from_raw e ChAnnounced) registry_new)" and "rc_channel_id e = replicate 16 2"
proof -
  have ne: "encode_atom demo_helo \<noteq> []" using demo_lengths(1) by (metis list.size(3) zero_neq_numeral)
  have ok: "(32 :: nat) \<le> MAX_SESSION_BYTES_PER_SEC" by (simp add: MAX_SESSION_BYTES_PER_SEC_def)
  let ?s1 = "(announce_session_new ''p'')\<lparr>an_rate := \<lparr>pr_window = 5, pr_bytes = 32,
      pr_max_bytes_per_sec = MAX_SESSION_BYTES_PER_SEC, pr_initialized = True\<rparr>,
      an_broadcast_id := Some (replicate 16 1), an_state := HeloReceived\<rparr>"
  have "an_state ?s1 = HeloReceived" "an_channels ?s1 = []" by (simp_all add: announce_session_new_def)
  from demo_on_bcst [OF this, of "[]" registry_new] obtain s' e where b:
    "on_atom [] 5 5 40 demo_bcst ?s1 registry_new = (s', fst (reg_upsert (from_raw e ChAnnounced) registry_new), [], Inr [])"
    "rc_channel_id e = replicate 16 2" by auto
  have d: "try_decode (encode_atom demo_helo @ encode_atom demo_bcst) = Inr (Some (demo_helo, 32))"
    "try_decode (encode_atom demo_bcst) = Inr (Some (demo_bcst, 40))"
    using try_decode_encoded(1,2) demo_atoms_ok by simp_all
  have "\<exists>c. drain_buffer [] (\<lambda>_. 5) (\<lambda>_. True) ((conn_start ''p'' registry_new)\<lparr>cn_buf := encode_atom demo_helo @ encode_atom demo_bcst\<rparr>) = (c, True) \<and>
      cn_registry c = fst (reg_upsert (from_raw e ChAnnounced) registry_new)"
    by (subst drain_buffer.simps, simp add: d conn_start_def demo_on_helo ok Let_def)
      (subst drain_buffer.simps, simp add: d b Let_def, subst drain_buffer.simps, simp add: try_decode_encoded(3))
  then have "cn_registry (pump_chunks [] (\<lambda>_. 5) (\<lambda>_. True) demo_chunks (conn_start ''p'' registry_new)) =
      fst (reg_upsert (from_raw e ChAnnounced) registry_new)"
    using ne by (auto simp: demo_chunks_def conn_start_def)
  with b(2) that show ?thesis by blast
qed

theorem pcp_conn_ends_channels_witness:
  "reg_contains (replicate 16 2) (cn_registry (pump_chunks [] (\<lambda>_. 5) (\<lambda>_. True) demo_chunks (conn_start ''p'' registry_new))) \<and>
   \<not> reg_contains (replicate 16 2) (cn_registry (handle_conn [] (\<lambda>_. 5) (\<lambda>_. True) ''p'' demo_chunks registry_new))"
proof -
  obtain e where "cn_registry (pump_chunks [] (\<lambda>_. 5) (\<lambda>_. True) demo_chunks (conn_start ''p'' registry_new)) =
      fst (reg_upsert (from_raw e ChAnnounced) registry_new)" and "rc_channel_id e = replicate 16 2"
    by (rule demo_run)
  then have "reg_contains (replicate 16 2) (cn_registry (pump_chunks [] (\<lambda>_. 5) (\<lambda>_. True) demo_chunks (conn_start ''p'' registry_new)))"
    by (simp add: reg_contains_upsert from_raw_def)
  moreover have "\<not> reg_contains (replicate 16 2) registry_new" by (simp add: reg_contains_def registry_new_def)
  ultimately show ?thesis
    using pcp_conn_ends_channels [of "\<lambda>_. 5" "replicate 16 2" "[]" "\<lambda>_. True" "''p''" demo_chunks registry_new]
    by (simp add: u64_max_def)
qed

lemma pcp_conn_publishable:
  assumes "\<And>n. clk n \<le> u64_max" and "reg_publishable r"
  shows "reg_publishable (cn_registry (pump_chunks node_id clk wr_ok chunks (conn_start source r)))"
  using pump_inv [OF conn_start_inv assms(1)] assms(2) by (simp add: conn_inv_def)

text \<open>C23: the loop over the received bytes always ends. It processes at most one atom for every eight bytes in
  the buffer, and the buffer never grows; when the connection goes on, no complete atom is left in
  it and it is within the bound for pending data, so the memory that a broadcasting program can
  occupy is limited.\<close>

theorem drain_buffer_ends:
  "case drain_buffer node_id clk wr_ok c of (c', go_on) \<Rightarrow>
     (\<exists>atoms. cn_reads c' = cn_reads c + 2 * atoms \<and> 8 * atoms + length (cn_buf c') \<le> length (cn_buf c)) \<and>
     (go_on \<longrightarrow> try_decode (cn_buf c') = Inr None \<and> length (cn_buf c') \<le> MAX_PENDING_BYTES)"
proof (rule drain_preserves)
  show "\<exists>atoms. cn_reads c = cn_reads c + 2 * atoms \<and> 8 * atoms + length (cn_buf c) \<le> length (cn_buf c)" by (intro exI [of _ 0]) simp
next
  fix n buf s r a used s' r' logs res
  assume "\<exists>atoms. n = cn_reads c + 2 * atoms \<and> 8 * atoms + length buf \<le> length (cn_buf c)" and d: "try_decode buf = Inr (Some (a, used))"
  then obtain atoms where "n = cn_reads c + 2 * atoms" "8 * atoms + length buf \<le> length (cn_buf c)" by blast
  then have "n + 2 = cn_reads c + 2 * Suc atoms \<and> 8 * Suc atoms + length (drop used buf) \<le> length (cn_buf c)"
    using try_decode_used [OF d] by auto
  then show "\<exists>atoms. n + 2 = cn_reads c + 2 * atoms \<and> 8 * atoms + length (drop used buf) \<le> length (cn_buf c)" ..
qed

theorem drain_buffer_ends_witness:
  "\<exists>atoms \<le> 9. cn_reads (fst (drain_buffer [] (\<lambda>_. 5) (\<lambda>_. True) ((conn_start ''p'' registry_new)\<lparr>cn_buf := concat demo_chunks\<rparr>))) = 2 * atoms"
  using drain_buffer_ends [of "(conn_start ''p'' registry_new)\<lparr>cn_buf := concat demo_chunks\<rparr>" "[]" "\<lambda>_. 5" "\<lambda>_. True"]
  by (auto simp: demo_chunks_def demo_lengths conn_start_def split: prod.splits)

end
