(* ===== verification/Event_Store.thy ===== *)
theory Event_Store
  imports Event_Schema
begin

text \<open>
  The local replacement store of signed events and the duplicate-suppression cache
  (\<open>src/event/store.rs\<close>). The hash map of entries is an association list in one of its possible
  iteration orders, the identifier set is a set, and the clock is read once per operation and
  passed as \<open>now\<close>. The eviction loops are recursive functions whose termination is proved.

  The lemmas show the store's invariant and that every operation keeps it, the
  last-write-wins replacement rule with its monotonicity and convergence, which entries eviction
  and sweeping remove, and when the cache recognises a duplicate.
\<close>

subsection \<open>State\<close>

definition DEFAULT_EVENT_STORE_MAX :: nat where
  "DEFAULT_EVENT_STORE_MAX = 4096"

definition DEFAULT_MAX_EVENTS_PER_PUBKEY :: nat where
  "DEFAULT_MAX_EVENTS_PER_PUBKEY = 64"

definition DEFAULT_FRESHNESS_WINDOW_SEC :: nat where
  "DEFAULT_FRESHNESS_WINDOW_SEC = 600"

definition DEDUP_MIN_RETENTION_SEC :: nat where
  "DEDUP_MIN_RETENTION_SEC = 600"

record store_config =
  freshness_window_sec :: nat
  event_store_max :: nat
  max_events_per_pubkey :: nat

definition default_store_config :: store_config where
  "default_store_config = \<lparr>freshness_window_sec = DEFAULT_FRESHNESS_WINDOW_SEC,
     event_store_max = DEFAULT_EVENT_STORE_MAX, max_events_per_pubkey = DEFAULT_MAX_EVENTS_PER_PUBKEY\<rparr>"

datatype reject_reason = DuplicateId | NotNewer | Expired | Stale | Malformed

datatype insert_outcome = Stored | Replaced | Rejected reject_reason

fun should_propagate :: "insert_outcome \<Rightarrow> bool" where
  "should_propagate Stored = True"
| "should_propagate Replaced = True"
| "should_propagate (Rejected r) = False"

record entry =
  en_summary :: event_summary
  en_event :: event

record event_store =
  st_config :: store_config
  st_entries :: "(store_key \<times> entry) list"
  st_ids :: "string set"

definition store_new :: "store_config \<Rightarrow> event_store" where
  "store_new config = \<lparr>st_config = config, st_entries = [], st_ids = {}\<rparr>"

definition store_len :: "event_store \<Rightarrow> nat" where
  "store_len st = length (st_entries st)"

definition contains_id :: "event_store \<Rightarrow> string \<Rightarrow> bool" where
  "contains_id st eid \<longleftrightarrow> eid \<in> st_ids st"

definition store_get :: "event_store \<Rightarrow> nat \<Rightarrow> string \<Rightarrow> string \<Rightarrow> event option" where
  "store_get st kind pubkey cid = map_option en_event (map_of (st_entries st) (kind, pubkey, cid))"

subsection \<open>Order of events\<close>

definition is_newer :: "event_summary \<Rightarrow> event_summary \<Rightarrow> bool" where
  "is_newer new old =
     (if es_created_at new > es_created_at old then True
      else if es_created_at new < es_created_at old then False
      else es_event_id new > es_event_id old)"

definition is_older :: "event_summary \<Rightarrow> event_summary \<Rightarrow> bool" where
  "is_older a b \<longleftrightarrow> es_created_at a < es_created_at b \<or>
     es_created_at a = es_created_at b \<and> es_event_id a < es_event_id b"

text \<open>The key of an oldest entry among the given keys.\<close>

definition oldest_among :: "event_store \<Rightarrow> store_key list \<Rightarrow> store_key option" where
  "oldest_among st keys = map_option fst
     (min_by (\<lambda>a b. is_older (snd a) (snd b))
       (List.map_filter (\<lambda>k. map_option (\<lambda>e. (k, en_summary e)) (map_of (st_entries st) k)) keys))"

definition remove_key :: "store_key \<Rightarrow> event_store \<Rightarrow> event_store" where
  "remove_key k st = (case map_of (st_entries st) k of None \<Rightarrow> st
     | Some e \<Rightarrow> st\<lparr>st_entries := AList.delete k (st_entries st),
                   st_ids := st_ids st - {es_event_id (en_summary e)}\<rparr>)"

definition keys_for_pubkey :: "string \<Rightarrow> event_store \<Rightarrow> store_key list" where
  "keys_for_pubkey pubkey st =
     map fst (filter (\<lambda>(k, e). es_pubkey (en_summary e) = pubkey) (st_entries st))"

lemma oldest_among_mem:
  assumes "oldest_among st keys = Some v"
  shows "v \<in> set keys \<and> v \<in> fst ` set (st_entries st)"
proof -
  from assms obtain s where "min_by (\<lambda>a b. is_older (snd a) (snd b))
       (List.map_filter (\<lambda>k. map_option (\<lambda>e. (k, en_summary e)) (map_of (st_entries st) k)) keys) = Some (v, s)"
    by (auto simp: oldest_among_def)
  from min_by_mem [OF this] obtain k e where "k \<in> set keys"
    "map_of (st_entries st) k = Some e" "v = k"
    by (auto simp: List.map_filter_def)
  then show ?thesis by (auto dest: map_of_SomeD intro: rev_image_eqI)
qed

lemma remove_key_shrinks:
  "k \<in> fst ` set (st_entries st) \<Longrightarrow> length (st_entries (remove_key k st)) < length (st_entries st)"
  using length_delete_less [of k "st_entries st"]
  by (auto simp: remove_key_def map_of_eq_None_iff split: option.splits)

function enforce_pubkey_quota :: "string \<Rightarrow> event_store \<Rightarrow> event_store" where
  "enforce_pubkey_quota pubkey st =
     (let keys = keys_for_pubkey pubkey st in
      if length keys \<le> max_events_per_pubkey (st_config st) then st
      else case oldest_among st keys of None \<Rightarrow> st
        | Some victim \<Rightarrow> enforce_pubkey_quota pubkey (remove_key victim st))"
  by pat_completeness auto
termination
  by (relation "measure (\<lambda>(p, st). length (st_entries st))")
    (auto dest!: oldest_among_mem intro: remove_key_shrinks)

function enforce_capacity :: "event_store \<Rightarrow> event_store" where
  "enforce_capacity st =
     (if length (st_entries st) > event_store_max (st_config st) then
        (case oldest_among st (map fst (st_entries st)) of None \<Rightarrow> st
         | Some victim \<Rightarrow> enforce_capacity (remove_key victim st))
      else st)"
  by pat_completeness auto
termination
  by (relation "measure (\<lambda>st. length (st_entries st))")
    (auto dest!: oldest_among_mem intro: remove_key_shrinks)

declare enforce_pubkey_quota.simps [simp del] enforce_capacity.simps [simp del]

subsection \<open>Operations\<close>

definition store_insert :: "nat \<Rightarrow> event \<Rightarrow> event_store \<Rightarrow> event_store \<times> insert_outcome" where
  "store_insert now ev st = (case summary_from_event ev of
     None \<Rightarrow> (st, Rejected Malformed)
   | Some s \<Rightarrow>
     if es_event_id s \<in> st_ids st then (st, Rejected DuplicateId)
     else if now > es_expiration s then (st, Rejected Expired)
     else if now - es_created_at s > freshness_window_sec (st_config st) then (st, Rejected Stale)
     else let key = summary_key s in
       (case map_of (st_entries st) key of
          Some existing \<Rightarrow>
            if \<not> is_newer s (en_summary existing) then (st, Rejected NotNewer)
            else (st\<lparr>st_ids := insert (es_event_id s) (st_ids st - {es_event_id (en_summary existing)}),
                     st_entries := AList.update key \<lparr>en_summary = s, en_event = ev\<rparr> (st_entries st)\<rparr>,
                  Replaced)
        | None \<Rightarrow>
            (enforce_capacity (enforce_pubkey_quota (es_pubkey s)
               (st\<lparr>st_ids := insert (es_event_id s) (st_ids st),
                   st_entries := AList.update key \<lparr>en_summary = s, en_event = ev\<rparr> (st_entries st)\<rparr>)),
             Stored)))"

definition is_live_fresh :: "store_config \<Rightarrow> event_summary \<Rightarrow> nat \<Rightarrow> bool" where
  "is_live_fresh config s now \<longleftrightarrow> \<not> es_ended s \<and> now \<le> es_expiration s \<and>
     now - es_created_at s \<le> freshness_window_sec config"

definition is_removable :: "store_config \<Rightarrow> event_summary \<Rightarrow> nat \<Rightarrow> bool" where
  "is_removable config s now \<longleftrightarrow> now > es_expiration s \<or>
     now - es_created_at s > freshness_window_sec config"

definition live_fresh_events :: "nat \<Rightarrow> event_store \<Rightarrow> event list" where
  "live_fresh_events now st = map (en_event \<circ> snd)
     (filter (\<lambda>(k, e). is_live_fresh (st_config st) (en_summary e) now) (st_entries st))"

definition store_sweep :: "nat \<Rightarrow> event_store \<Rightarrow> event_store \<times> nat" where
  "store_sweep now st =
     (let victims = map fst (filter (\<lambda>(k, e). is_removable (st_config st) (en_summary e) now) (st_entries st))
      in (fold remove_key victims st, length victims))"

subsection \<open>Duplicate cache\<close>

record dedup_cache =
  retention_sec :: nat
  seen :: "(string \<times> nat) list"

definition dedup_new :: "nat \<Rightarrow> dedup_cache" where
  "dedup_new window = \<lparr>retention_sec = max window DEDUP_MIN_RETENTION_SEC, seen = []\<rparr>"

definition purge_expired :: "nat \<Rightarrow> dedup_cache \<Rightarrow> dedup_cache" where
  "purge_expired now c = c\<lparr>seen := filter (\<lambda>(eid, t). now - t \<le> retention_sec c) (seen c)\<rparr>"

definition check_and_insert :: "nat \<Rightarrow> string \<Rightarrow> dedup_cache \<Rightarrow> dedup_cache \<times> bool" where
  "check_and_insert now eid c = (let c = purge_expired now c in
     if map_of (seen c) eid \<noteq> None then (c, True)
     else (c\<lparr>seen := AList.update eid now (seen c)\<rparr>, False))"

definition dedup_contains :: "nat \<Rightarrow> string \<Rightarrow> dedup_cache \<Rightarrow> bool" where
  "dedup_contains now eid c = (case map_of (seen c) eid of None \<Rightarrow> False
     | Some t \<Rightarrow> now - t \<le> retention_sec c)"

subsection \<open>The order is total: rank\<close>

definition rank :: "event_summary \<Rightarrow> nat \<times> string" where
  "rank s = (es_created_at s, es_event_id s)"

abbreviation entry_rank :: "store_key \<times> entry \<Rightarrow> nat \<times> string" where
  "entry_rank p \<equiv> rank (en_summary (snd p))"

lemma is_newer_rank: "is_newer a b \<longleftrightarrow> rank b < rank a"
  by (auto simp: is_newer_def rank_def less_prod_def)

lemma is_older_rank: "is_older a b \<longleftrightarrow> rank a < rank b"
  by (auto simp: is_older_def rank_def less_prod_def)

lemma oldest_among_least:
  assumes "oldest_among st keys = Some v" and "k \<in> set keys"
    and "map_of (st_entries st) k = Some e" and "map_of (st_entries st) v = Some d"
  shows "rank (en_summary d) \<le> rank (en_summary e)"
proof -
  let ?c = "List.map_filter (\<lambda>k. map_option (\<lambda>e. (k, en_summary e)) (map_of (st_entries st) k)) keys"
  from assms(1) obtain s where m: "min_by (\<lambda>a b. rank (snd a) < rank (snd b)) ?c = Some (v, s)"
    by (auto simp: oldest_among_def is_older_rank)
  have "(k, en_summary e) \<in> set ?c" using assms(2,3) by (force simp: List.map_filter_def)
  from min_by_least [of "\<lambda>p. rank (snd p)", OF m this] have "rank s \<le> rank (en_summary e)" by simp
  moreover have "s = en_summary d"
    using min_by_mem [OF m] assms(4) by (auto simp: List.map_filter_def)
  ultimately show ?thesis by simp
qed

lemma oldest_among_None:
  "oldest_among st keys = None \<longleftrightarrow> (\<forall>k \<in> set keys. k \<notin> fst ` set (st_entries st))"
proof -
  have "oldest_among st keys = None \<longleftrightarrow>
      List.map_filter (\<lambda>k. map_option (\<lambda>e. (k, en_summary e)) (map_of (st_entries st) k)) keys = []"
    by (simp add: oldest_among_def)
  then show ?thesis
    by (auto simp: List.map_filter_def filter_empty_conv map_of_eq_None_iff)
qed

subsection \<open>Invariant\<close>

text \<open>The structural part: one entry per key, keys and summaries belong to the events, the
  identifier set lists exactly the stored events, which have distinct identifiers.\<close>

definition entry_id :: "store_key \<times> entry \<Rightarrow> string" where
  "entry_id p = es_event_id (en_summary (snd p))"

definition store_core :: "event_store \<Rightarrow> bool" where
  "store_core st \<longleftrightarrow> distinct (map fst (st_entries st)) \<and>
     (\<forall>(k, e) \<in> set (st_entries st). k = summary_key (en_summary e) \<and>
        summary_from_event (en_event e) = Some (en_summary e)) \<and>
     st_ids st = entry_id ` set (st_entries st) \<and> distinct (map entry_id (st_entries st))"

definition pubkey_count :: "string \<Rightarrow> event_store \<Rightarrow> nat" where
  "pubkey_count pk st = length (filter (\<lambda>(k, e). es_pubkey (en_summary e) = pk) (st_entries st))"

definition store_inv :: "event_store \<Rightarrow> bool" where
  "store_inv st \<longleftrightarrow> store_core st \<and> length (st_entries st) \<le> event_store_max (st_config st) \<and>
     (\<forall>pk. pubkey_count pk st \<le> max_events_per_pubkey (st_config st))"

lemma store_core_distinct: "store_core st \<Longrightarrow> distinct (map fst (st_entries st))"
  by (simp add: store_core_def)

lemma store_core_entry:
  "store_core st \<Longrightarrow> (k, e) \<in> set (st_entries st) \<Longrightarrow>
     k = summary_key (en_summary e) \<and> summary_from_event (en_event e) = Some (en_summary e)"
  by (auto simp: store_core_def)

lemma inj_on_distinct_image:
  assumes "distinct (map f xs)" and "x \<in> set xs"
  shows "f ` {y \<in> set xs. y \<noteq> x} = f ` set xs - {f x}"
  using assms by (auto simp: distinct_map inj_on_def)

lemma store_core_filter:
  assumes core: "store_core st" and "entries = filter R (st_entries st)"
    and "ids = entry_id ` set entries"
  shows "store_core (st\<lparr>st_entries := entries, st_ids := ids\<rparr>)"
  using core assms(2,3) unfolding store_core_def
  by (auto simp: distinct_map_filter)

lemma remove_key_core:
  assumes "store_core st"
  shows "store_core (remove_key k st)" and "st_config (remove_key k st) = st_config st"
    and "st_entries (remove_key k st) = filter (\<lambda>p. fst p \<noteq> k) (st_entries st)"
proof -
  have del: "AList.delete k m = filter (\<lambda>p. fst p \<noteq> k) m" for m :: "(store_key \<times> entry) list"
    by (auto simp: AList.delete_eq intro: filter_cong)
  show "st_config (remove_key k st) = st_config st"
    by (simp add: remove_key_def split: option.splits)
  show ents: "st_entries (remove_key k st) = filter (\<lambda>p. fst p \<noteq> k) (st_entries st)"
    by (auto simp: remove_key_def del map_of_eq_None_iff split: option.splits
        intro!: filter_True [symmetric])
  show "store_core (remove_key k st)"
  proof (cases "map_of (st_entries st) k")
    case None
    then show ?thesis using assms by (simp add: remove_key_def)
  next
    case (Some e)
    have d: "distinct (map fst (st_entries st))" "distinct (map entry_id (st_entries st))"
      using assms by (auto simp: store_core_def)
    have mem: "(k, e) \<in> set (st_entries st)" using Some by (rule map_of_SomeD)
    have "{y \<in> set (st_entries st). y \<noteq> (k, e)} = {y \<in> set (st_entries st). fst y \<noteq> k}"
      using d(1) mem by (auto dest: eq_key_imp_eq_value)
    with inj_on_distinct_image [OF d(2) mem] have "entry_id ` {y \<in> set (st_entries st). fst y \<noteq> k} =
        st_ids st - {es_event_id (en_summary e)}"
      using assms by (simp add: store_core_def entry_id_def)
    with Some assms show ?thesis
      unfolding remove_key_def by (simp add: del) (rule store_core_filter, auto)
  qed
qed

lemma map_of_filter_key:
  "map_of (filter (\<lambda>p. fst p \<noteq> k) m) = (map_of m)(k := None)"
  by (induction m) auto

subsection \<open>Eviction\<close>

text \<open>Both eviction loops are one loop over the entries that satisfy a predicate.\<close>

function evict :: "(entry \<Rightarrow> bool) \<Rightarrow> nat \<Rightarrow> event_store \<Rightarrow> event_store" where
  "evict P n st =
     (let keys = map fst (filter (\<lambda>p. P (snd p)) (st_entries st)) in
      if length keys \<le> n then st
      else case oldest_among st keys of None \<Rightarrow> st
        | Some victim \<Rightarrow> evict P n (remove_key victim st))"
  by pat_completeness auto
termination
  by (relation "measure (\<lambda>(P, n, st). length (st_entries st))")
    (auto dest!: oldest_among_mem intro: remove_key_shrinks)

declare evict.simps [simp del]

lemma st_config_remove_key [simp]: "st_config (remove_key k st) = st_config st"
  by (simp add: remove_key_def split: option.splits)

lemma enforce_pubkey_quota_evict:
  "enforce_pubkey_quota pk st = evict (\<lambda>e. es_pubkey (en_summary e) = pk) (max_events_per_pubkey (st_config st)) st"
proof (induction pk st rule: enforce_pubkey_quota.induct)
  case (1 pk st)
  then show ?case
    by (subst enforce_pubkey_quota.simps, subst evict.simps)
      (auto simp: keys_for_pubkey_def Let_def case_prod_unfold split: option.splits)
qed

lemma enforce_capacity_evict:
  "enforce_capacity st = evict (\<lambda>e. True) (event_store_max (st_config st)) st"
proof (induction st rule: enforce_capacity.induct)
  case (1 st)
  then show ?case
    by (subst enforce_capacity.simps, subst evict.simps)
      (auto simp: Let_def split: option.splits)
qed

text \<open>One eviction step removes exactly the entry of the victim, an oldest one of its class.\<close>

lemma evict_step:
  assumes core: "store_core st" and keys: "keys = map fst (filter (\<lambda>p. P (snd p)) (st_entries st))"
    and v: "oldest_among st keys = Some v"
  obtains d where "(v, d) \<in> set (st_entries st)" and "P d"
    and "\<forall>q \<in> set (st_entries st). P (snd q) \<longrightarrow> rank (en_summary d) \<le> entry_rank q"
    and "set (st_entries (remove_key v st)) = set (st_entries st) - {(v, d)}"
    and "length (filter (\<lambda>p. P (snd p)) (st_entries st)) =
      Suc (length (filter (\<lambda>p. P (snd p)) (st_entries (remove_key v st))))"
proof -
  have dist: "distinct (map fst (st_entries st))" using core by (rule store_core_distinct)
  from oldest_among_mem [OF v] keys obtain d where d: "(v, d) \<in> set (st_entries st)" "P d" by auto
  then have look: "map_of (st_entries st) v = Some d" using dist by simp
  have least: "rank (en_summary d) \<le> entry_rank q" if q: "q \<in> set (st_entries st)" "P (snd q)" for q
  proof (rule oldest_among_least [OF v _ _ look])
    show "fst q \<in> set keys" unfolding keys using q by auto
    show "map_of (st_entries st) (fst q) = Some (snd q)" using q dist by simp
  qed
  have ents: "st_entries (remove_key v st) = filter (\<lambda>p. fst p \<noteq> v) (st_entries st)"
    using remove_key_core(3) [OF core] .
  have sing: "{p \<in> set (st_entries st). fst p = v} = {(v, d)}"
    using d(1) dist by (auto dest: eq_key_imp_eq_value)
  have "distinct (st_entries st)" using dist by (simp add: distinct_map)
  then have "distinct (filter (\<lambda>p. P (snd p)) (st_entries st))" by simp
  moreover have "set (filter (\<lambda>p. P (snd p)) (st_entries (remove_key v st))) =
      set (filter (\<lambda>p. P (snd p)) (st_entries st)) - {(v, d)}"
    using sing by (auto simp: ents)
  moreover have "(v, d) \<in> set (filter (\<lambda>p. P (snd p)) (st_entries st))" using d by simp
  ultimately have "length (filter (\<lambda>p. P (snd p)) (st_entries st)) =
      Suc (length (filter (\<lambda>p. P (snd p)) (st_entries (remove_key v st))))"
    using \<open>distinct (st_entries st)\<close> ents
    by (metis card_Suc_Diff1 distinct_card distinct_filter finite_set)
  with d least sing show ?thesis
    by (intro that [of d]) (auto simp: ents)
qed

lemma evict_unfold:
  obtains (stop) "evict P n st = st"
  | (go) v where "\<not> length (map fst (filter (\<lambda>p. P (snd p)) (st_entries st))) \<le> n"
      and "oldest_among st (map fst (filter (\<lambda>p. P (snd p)) (st_entries st))) = Some v"
      and "evict P n st = evict P n (remove_key v st)"
proof (cases "length (map fst (filter (\<lambda>p. P (snd p)) (st_entries st))) \<le> n")
  case True
  then have "evict P n st = st" by (subst evict.simps) (simp add: Let_def)
  then show ?thesis by (rule stop)
next
  case False
  show ?thesis
  proof (cases "oldest_among st (map fst (filter (\<lambda>p. P (snd p)) (st_entries st)))")
    case None
    then have "evict P n st = st" by (subst evict.simps) (simp add: Let_def)
    then show ?thesis by (rule stop)
  next
    case (Some v)
    with False have "evict P n st = evict P n (remove_key v st)"
      by (subst evict.simps) (simp add: Let_def)
    with False Some show ?thesis by (rule go)
  qed
qed

lemma evict_core: "store_core st \<Longrightarrow> store_core (evict P n st) \<and> st_config (evict P n st) = st_config st"
proof (induction P n st rule: evict.induct)
  case (1 P n st)
  then show ?case
    using remove_key_core [OF \<open>store_core st\<close>]
    by (subst (1 2) evict.simps) (auto simp: Let_def split: option.splits)
qed

lemma evict_filter: "store_core st \<Longrightarrow> \<exists>R. st_entries (evict P n st) = filter R (st_entries st)"
proof (induction P n st rule: evict.induct)
  case (1 P n st)
  show ?case
  proof (cases rule: evict_unfold [of P n st])
    case stop
    then show ?thesis by (intro exI [of _ "\<lambda>_. True"]) simp
  next
    case (go v)
    from 1(1) [OF refl go(1,2) remove_key_core(1) [OF 1(2)]] obtain R where
      "st_entries (evict P n (remove_key v st)) = filter R (st_entries (remove_key v st))" ..
    then show ?thesis
      unfolding go(3) remove_key_core(3) [OF 1(2)] filter_filter by blast
  qed
qed

lemma evict_count:
  "store_core st \<Longrightarrow> length (filter (\<lambda>p. P (snd p)) (st_entries (evict P n st))) =
     min n (length (filter (\<lambda>p. P (snd p)) (st_entries st)))"
proof (induction P n st rule: evict.induct)
  case (1 P n st)
  let ?keys = "map fst (filter (\<lambda>p. P (snd p)) (st_entries st))"
  show ?case
  proof (cases "length ?keys \<le> n")
    case True
    then show ?thesis by (subst evict.simps) (simp add: Let_def)
  next
    case False
    then have "filter (\<lambda>p. P (snd p)) (st_entries st) \<noteq> []" by auto
    then obtain p where p: "p \<in> set (filter (\<lambda>p. P (snd p)) (st_entries st))" by (meson list.set_sel(1))
    then have "fst p \<in> set ?keys" "fst p \<in> fst ` set (st_entries st)" by auto
    then have "oldest_among st ?keys \<noteq> None" unfolding oldest_among_None by blast
    then obtain v where v: "oldest_among st ?keys = Some v" by auto
    from evict_step [OF 1(2) refl v] have "length (filter (\<lambda>p. P (snd p)) (st_entries st)) =
      Suc (length (filter (\<lambda>p. P (snd p)) (st_entries (remove_key v st))))" by metis
    with 1(1) [OF refl False v remove_key_core(1) [OF 1(2)]] False v show ?thesis
      by (subst evict.simps) (simp add: Let_def)
  qed
qed

lemma evict_oldest:
  "store_core st \<Longrightarrow> p \<in> set (st_entries st) - set (st_entries (evict P n st)) \<Longrightarrow>
     P (snd p) \<and> (\<forall>q \<in> set (st_entries (evict P n st)). P (snd q) \<longrightarrow> entry_rank p \<le> entry_rank q)"
proof (induction P n st rule: evict.induct)
  case (1 P n st)
  let ?keys = "map fst (filter (\<lambda>p. P (snd p)) (st_entries st))"
  from 1(3) have ne: "evict P n st \<noteq> st" by auto
  obtain v where gt: "\<not> length ?keys \<le> n" and v: "oldest_among st ?keys = Some v"
    and ev: "evict P n st = evict P n (remove_key v st)"
    using ne by (cases rule: evict_unfold [of P n st]) blast+
  obtain d where d: "P d" "\<forall>q \<in> set (st_entries st). P (snd q) \<longrightarrow> rank (en_summary d) \<le> entry_rank q"
    "set (st_entries (remove_key v st)) = set (st_entries st) - {(v, d)}"
    by (rule evict_step [OF 1(2) refl v])
  obtain R where "st_entries (evict P n (remove_key v st)) = filter R (st_entries (remove_key v st))"
    using evict_filter [OF remove_key_core(1) [OF 1(2)]] by blast
  then have sub: "set (st_entries (evict P n st)) \<subseteq> set (st_entries st)"
    unfolding ev using d(3) by (metis Diff_subset filter_is_subset order_trans)
  show ?case
  proof (cases "p = (v, d)")
    case True
    with d sub show ?thesis by auto
  next
    case False
    with 1(3) d(3) have "p \<in> set (st_entries (remove_key v st)) - set (st_entries (evict P n (remove_key v st)))"
      by (auto simp: ev)
    from 1(1) [OF refl gt v remove_key_core(1) [OF 1(2)] this] show ?thesis by (simp add: ev)
  qed
qed

subsection \<open>Insertion keeps the invariant\<close>

definition put_entry :: "event_summary \<Rightarrow> event \<Rightarrow> event_store \<Rightarrow> event_store" where
  "put_entry s ev st = (let key = summary_key s;
       ids = (case map_of (st_entries st) key of None \<Rightarrow> st_ids st
              | Some existing \<Rightarrow> st_ids st - {es_event_id (en_summary existing)})
     in st\<lparr>st_ids := insert (es_event_id s) ids,
           st_entries := AList.update key \<lparr>en_summary = s, en_event = ev\<rparr> (st_entries st)\<rparr>)"

definition admissible :: "nat \<Rightarrow> event_summary \<Rightarrow> event_store \<Rightarrow> bool" where
  "admissible now s st \<longleftrightarrow> es_event_id s \<notin> st_ids st \<and> now \<le> es_expiration s \<and>
     now - es_created_at s \<le> freshness_window_sec (st_config st)"

lemma store_insert_cases:
  obtains (rejected) r where "store_insert now ev st = (st, Rejected r)"
      "\<And>s. summary_from_event ev = Some s \<Longrightarrow> \<not> admissible now s st \<or>
         (\<exists>e. map_of (st_entries st) (summary_key s) = Some e \<and> rank s \<le> rank (en_summary e))"
  | (replaced) s existing where "summary_from_event ev = Some s" "admissible now s st"
      "map_of (st_entries st) (summary_key s) = Some existing" "rank (en_summary existing) < rank s"
      "store_insert now ev st = (put_entry s ev st, Replaced)"
  | (stored) s where "summary_from_event ev = Some s" "admissible now s st"
      "map_of (st_entries st) (summary_key s) = None"
      "store_insert now ev st =
        (enforce_capacity (enforce_pubkey_quota (es_pubkey s) (put_entry s ev st)), Stored)"
proof (cases "summary_from_event ev")
  case None
  then show ?thesis by (intro rejected [of Malformed]) (simp_all add: store_insert_def)
next
  case (Some s)
  show ?thesis
  proof (cases "admissible now s st")
    case False
    with Some obtain r where "store_insert now ev st = (st, Rejected r)"
      by (cases "es_event_id s \<in> st_ids st"; cases "now > es_expiration s")
        (auto simp: store_insert_def admissible_def)
    with Some False show ?thesis by (intro rejected [of r]) auto
  next
    case True
    show ?thesis
    proof (cases "map_of (st_entries st) (summary_key s)")
      case None
      with Some True show ?thesis
        by (intro stored [of s]) (auto simp: store_insert_def admissible_def put_entry_def Let_def)
    next
      case (Some e)
      note sum = \<open>summary_from_event ev = Some s\<close>
      show ?thesis
      proof (cases "rank (en_summary e) < rank s")
        case less: True
        with Some sum True show ?thesis
          by (intro replaced [of s e])
            (auto simp: store_insert_def admissible_def put_entry_def Let_def is_newer_rank)
      next
        case less: False
        with Some sum True show ?thesis
          by (intro rejected [of NotNewer])
            (auto simp: store_insert_def admissible_def Let_def is_newer_rank)
      qed
    qed
  qed
qed

lemma put_entry_core:
  assumes core: "store_core st" and s: "summary_from_event ev = Some s" and new: "es_event_id s \<notin> st_ids st"
  shows "store_core (put_entry s ev st)"
proof (cases "map_of (st_entries st) (summary_key s)")
  case None
  then have "summary_key s \<notin> fst ` set (st_entries st)" by (simp add: map_of_eq_None_iff)
  with core s new None show ?thesis
    by (auto simp: store_core_def put_entry_def update_notin_append entry_id_def)
next
  case (Some e)
  let ?k = "summary_key s" and ?n = "\<lparr>en_summary = s, en_event = ev\<rparr>"
  have d: "distinct (map fst (st_entries st))" using core by (rule store_core_distinct)
  obtain m1 m2 where m: "st_entries st = m1 @ (?k, e) # m2"
    "AList.update ?k ?n (st_entries st) = m1 @ (?k, ?n) # m2"
    using update_split [OF d map_of_SomeD [OF Some]] by blast
  have eid: "entry_id (?k, e) = es_event_id (en_summary e)" "entry_id (?k, ?n) = es_event_id s"
    by (simp_all add: entry_id_def)
  have ids: "distinct (map entry_id (m1 @ (?k, e) # m2))" "st_ids st = entry_id ` set (m1 @ (?k, e) # m2)"
    using core m by (auto simp: store_core_def)
  have "insert (es_event_id s) (st_ids st - {es_event_id (en_summary e)}) = entry_id ` set (m1 @ (?k, ?n) # m2)"
  proof -
    have "es_event_id (en_summary e) \<notin> entry_id ` (set m1 \<union> set m2)"
      using ids(1) by (auto simp: eid)
    then show ?thesis by (simp add: ids(2) eid)
  qed
  moreover have "distinct (map entry_id (m1 @ (?k, ?n) # m2))"
    using ids new by (auto simp: eid)
  moreover have "distinct (map fst (m1 @ (?k, ?n) # m2))" using d m by simp
  moreover have "\<forall>(k, e) \<in> set (m1 @ (?k, ?n) # m2). k = summary_key (en_summary e) \<and>
        summary_from_event (en_event e) = Some (en_summary e)"
    using core s m unfolding store_core_def by auto
  ultimately show ?thesis
    using Some m by (simp add: store_core_def put_entry_def Let_def)
qed

lemma put_entry_config [simp]: "st_config (put_entry s ev st) = st_config st"
  by (simp add: put_entry_def Let_def split: option.splits)

lemma map_of_put_entry:
  "map_of (st_entries (put_entry s ev st)) = (map_of (st_entries st))(summary_key s \<mapsto> \<lparr>en_summary = s, en_event = ev\<rparr>)"
  by (simp add: put_entry_def Let_def update_conv' split: option.splits)

lemma put_entry_replace_counts:
  assumes core: "store_core st" and e: "map_of (st_entries st) (summary_key s) = Some e"
  shows "length (st_entries (put_entry s ev st)) = length (st_entries st)"
    and "pubkey_count pk (put_entry s ev st) = pubkey_count pk st"
proof -
  let ?k = "summary_key s" and ?n = "\<lparr>en_summary = s, en_event = ev\<rparr>"
  obtain m1 m2 where m: "st_entries st = m1 @ (?k, e) # m2"
    "AList.update ?k ?n (st_entries st) = m1 @ (?k, ?n) # m2"
    using update_split [OF store_core_distinct [OF core] map_of_SomeD [OF e]] by blast
  have "?k = summary_key (en_summary e)"
    using store_core_entry [OF core map_of_SomeD [OF e]] by simp
  then have "es_pubkey (en_summary e) = es_pubkey s" by (simp add: summary_key_def)
  with m e show "length (st_entries (put_entry s ev st)) = length (st_entries st)"
    "pubkey_count pk (put_entry s ev st) = pubkey_count pk st"
    by (simp_all add: put_entry_def pubkey_count_def Let_def)
qed

lemma pubkey_count_evict_le:
  assumes "store_core st"
  shows "pubkey_count pk (evict P n st) \<le> pubkey_count pk st"
proof -
  obtain R where "st_entries (evict P n st) = filter R (st_entries st)"
    using evict_filter [OF assms] by blast
  then show ?thesis by (simp add: pubkey_count_def length_filter_filter_le del: filter_filter)
qed

lemma pubkey_count_put_other:
  assumes "summary_key s \<notin> fst ` set (st_entries st)" and "pk \<noteq> es_pubkey s"
  shows "pubkey_count pk (put_entry s ev st) = pubkey_count pk st"
  using assms by (simp add: put_entry_def Let_def pubkey_count_def update_notin_append map_of_eq_None_iff)

lemma enforce_inv:
  assumes core: "store_core st"
    and others: "\<And>pk'. pk' \<noteq> pk \<Longrightarrow> pubkey_count pk' st \<le> max_events_per_pubkey (st_config st)"
  shows "store_inv (enforce_capacity (enforce_pubkey_quota pk st))"
proof -
  let ?q = "enforce_pubkey_quota pk st" and ?n = "max_events_per_pubkey (st_config st)"
  have q: "store_core ?q" "st_config ?q = st_config st"
    using evict_core [OF core] by (auto simp: enforce_pubkey_quota_evict)
  let ?c = "enforce_capacity ?q"
  have c: "store_core ?c" "st_config ?c = st_config st"
    using evict_core [OF q(1)] q(2) by (auto simp: enforce_capacity_evict)
  have "length (st_entries ?c) \<le> event_store_max (st_config st)"
    using evict_count [OF q(1), of "\<lambda>_. True" "event_store_max (st_config ?q)"] q(2)
    by (simp add: enforce_capacity_evict)
  moreover have "pubkey_count pk' ?q \<le> ?n" for pk'
  proof (cases "pk' = pk")
    case True
    then show ?thesis
      using evict_count [OF core, of "\<lambda>e. es_pubkey (en_summary e) = pk" ?n]
      by (simp add: enforce_pubkey_quota_evict pubkey_count_def case_prod_unfold)
  next
    case False
    with others pubkey_count_evict_le [OF core] show ?thesis
      by (metis enforce_pubkey_quota_evict order_trans)
  qed
  then have "pubkey_count pk' ?c \<le> ?n" for pk'
    using pubkey_count_evict_le [OF q(1)] by (metis enforce_capacity_evict order_trans)
  ultimately show ?thesis using c by (simp add: store_inv_def)
qed

lemma store_insert_inv:
  assumes "store_inv st"
  shows "store_inv (fst (store_insert now ev st))"
proof (cases rule: store_insert_cases [of now ev st])
  case (rejected r)
  with assms show ?thesis by simp
next
  case (replaced s existing)
  then have "store_core (put_entry s ev st)"
    using assms put_entry_core by (auto simp: store_inv_def admissible_def)
  with replaced assms put_entry_replace_counts [of st s existing] show ?thesis
    by (simp add: store_inv_def)
next
  case (stored s)
  then have core: "store_core (put_entry s ev st)"
    using assms put_entry_core by (auto simp: store_inv_def admissible_def)
  from stored(3) have "summary_key s \<notin> fst ` set (st_entries st)" by (simp add: map_of_eq_None_iff)
  with assms stored enforce_inv [OF core, of "es_pubkey s"] show ?thesis
    by (simp add: store_inv_def pubkey_count_put_other)
qed

subsection \<open>Sweeping\<close>

lemma fold_remove_key:
  "store_core st \<Longrightarrow> store_core (fold remove_key ks st) \<and> st_config (fold remove_key ks st) = st_config st \<and>
     st_entries (fold remove_key ks st) = filter (\<lambda>p. fst p \<notin> set ks) (st_entries st)"
proof (induction ks arbitrary: st)
  case (Cons k ks)
  from Cons.IH [OF remove_key_core(1) [OF Cons.prems]] show ?case
    by (auto simp: remove_key_core(3) [OF Cons.prems] intro: filter_cong)
qed (auto intro: filter_True [symmetric])

lemma store_sweep_entries:
  assumes "store_core st"
  shows "st_entries (fst (store_sweep now st)) =
      filter (\<lambda>(k, e). \<not> is_removable (st_config st) (en_summary e) now) (st_entries st)"
    and "store_core (fst (store_sweep now st))"
    and "st_config (fst (store_sweep now st)) = st_config st"
proof -
  let ?rem = "\<lambda>e. is_removable (st_config st) (en_summary e) now"
  let ?v = "map fst (filter (\<lambda>(k, e). ?rem e) (st_entries st))"
  note f = fold_remove_key [OF assms, of ?v]
  have "filter (\<lambda>p. fst p \<notin> set ?v) (st_entries st) = filter (\<lambda>(k, e). \<not> ?rem e) (st_entries st)"
  proof (rule filter_cong)
    fix p assume p: "p \<in> set (st_entries st)"
    have "fst p \<in> set ?v \<longleftrightarrow> ?rem (snd p)"
    proof
      assume "fst p \<in> set ?v"
      then obtain e where e: "(fst p, e) \<in> set (st_entries st)" "?rem e" by auto
      have "(fst p, snd p) \<in> set (st_entries st)" using p by simp
      from eq_key_imp_eq_value [OF store_core_distinct [OF assms] this e(1)] e(2)
      show "?rem (snd p)" by simp
    next
      assume "?rem (snd p)"
      with p show "fst p \<in> set ?v" by (simp add: split_def imageI)
    qed
    then show "(fst p \<notin> set ?v) = (case p of (k, e) \<Rightarrow> \<not> ?rem e)" by (simp add: split_def)
  qed simp
  with f show "st_entries (fst (store_sweep now st)) = filter (\<lambda>(k, e). \<not> ?rem e) (st_entries st)"
    "store_core (fst (store_sweep now st))" "st_config (fst (store_sweep now st)) = st_config st"
    by (simp_all add: store_sweep_def)
qed

lemma store_sweep_inv:
  assumes "store_inv st"
  shows "store_inv (fst (store_sweep now st))"
proof -
  have core: "store_core st" using assms by (simp add: store_inv_def)
  note e = store_sweep_entries [OF core, of now]
  have "length (st_entries (fst (store_sweep now st))) \<le> length (st_entries st)" by (simp add: e(1))
  moreover have "pubkey_count pk (fst (store_sweep now st)) \<le> pubkey_count pk st" for pk
    unfolding pubkey_count_def e(1) by (rule length_filter_filter_le)
  ultimately show ?thesis
    using assms e(2,3) by (auto simp: store_inv_def intro: order_trans)
qed

subsection \<open>Runs of the store\<close>

datatype store_op = InsertOp nat event | SweepOp nat

fun apply_op :: "store_op \<Rightarrow> event_store \<Rightarrow> event_store" where
  "apply_op (InsertOp now ev) st = fst (store_insert now ev st)"
| "apply_op (SweepOp now) st = fst (store_sweep now st)"

lemma apply_op_inv: "store_inv st \<Longrightarrow> store_inv (apply_op op st)"
  by (cases op) (simp_all add: store_insert_inv store_sweep_inv)

lemma evict_lookup:
  assumes "store_core st" and "map_of (st_entries (evict P n st)) k = Some e"
  shows "map_of (st_entries st) k = Some e"
proof -
  obtain R where "st_entries (evict P n st) = filter R (st_entries st)"
    using evict_filter [OF assms(1)] by blast
  with assms show ?thesis
    by (auto simp: store_core_distinct dest!: map_of_SomeD intro!: map_of_is_SomeI)
qed

lemma enforce_lookup:
  assumes "store_core st" and "map_of (st_entries (enforce_capacity (enforce_pubkey_quota pk st))) k = Some e"
  shows "map_of (st_entries st) k = Some e"
  using assms evict_core [OF assms(1)] unfolding enforce_capacity_evict enforce_pubkey_quota_evict
  by (meson evict_lookup)

lemma apply_op_monotone:
  assumes inv: "store_inv st" and before: "map_of (st_entries st) k = Some e"
    and after: "map_of (st_entries (apply_op op st)) k = Some e'"
  shows "rank (en_summary e) \<le> rank (en_summary e')"
proof (cases op)
  case (InsertOp now ev)
  show ?thesis
  proof (cases rule: store_insert_cases [of now ev st])
    case (rejected r)
    with InsertOp before after show ?thesis by simp
  next
    case (replaced s existing)
    with InsertOp before after show ?thesis
      by (auto simp: map_of_put_entry split: if_splits)
  next
    case (stored s)
    then have core: "store_core (put_entry s ev st)"
      using inv put_entry_core by (auto simp: store_inv_def admissible_def)
    from after stored(4) InsertOp have
      "map_of (st_entries (enforce_capacity (enforce_pubkey_quota (es_pubkey s) (put_entry s ev st)))) k = Some e'"
      by simp
    from enforce_lookup [OF core this] before stored(3) show ?thesis
      by (auto simp: map_of_put_entry split: if_splits)
  qed
next
  case (SweepOp now)
  have core: "store_core st" using inv by (simp add: store_inv_def)
  from after SweepOp before show ?thesis
    by (auto simp: store_sweep_entries [OF core] store_core_distinct [OF core] map_of_filter_value
        split: if_splits)
qed

subsection \<open>Slots that never go back\<close>

text \<open>\<open>held look k step ops s\<close>: the slot is filled before, between and after the steps.\<close>

fun held :: "('s \<Rightarrow> 'k \<Rightarrow> 'v option) \<Rightarrow> 'k \<Rightarrow> ('op \<Rightarrow> 's \<Rightarrow> 's) \<Rightarrow> 'op list \<Rightarrow> 's \<Rightarrow> bool" where
  "held look k step [] s = (look s k \<noteq> None)"
| "held look k step (p # ps) s = (look s k \<noteq> None \<and> held look k step ps (step p s))"

locale monotone_slots =
  fixes step :: "'op \<Rightarrow> 's \<Rightarrow> 's"
    and look :: "'s \<Rightarrow> 'k \<Rightarrow> 'v option"
    and rnk :: "'v \<Rightarrow> 'r::linorder"
    and inv :: "'s \<Rightarrow> bool"
  assumes inv_step: "inv s \<Longrightarrow> inv (step p s)"
    and mono_step: "inv s \<Longrightarrow> look s k = Some v \<Longrightarrow> look (step p s) k = Some v' \<Longrightarrow> rnk v \<le> rnk v'"
begin

lemma inv_run: "inv s \<Longrightarrow> inv (fold step ps s)"
  by (induction ps arbitrary: s) (auto simp: inv_step)

lemma mono_run:
  "inv s \<Longrightarrow> held look k step ps s \<Longrightarrow> look s k = Some v \<Longrightarrow>
     \<exists>v'. look (fold step ps s) k = Some v' \<and> rnk v \<le> rnk v'"
proof (induction ps arbitrary: s v)
  case (Cons p ps)
  obtain w where w: "look (step p s) k = Some w" using Cons.prems(2) by (cases ps) auto
  from Cons.IH [OF inv_step [OF Cons.prems(1)] _ w] Cons.prems(2) obtain v' where
    "look (fold step (p # ps) s) k = Some v'" "rnk w \<le> rnk v'" by auto
  with mono_step [OF Cons.prems(1,3) w] show ?case by auto
qed simp

end

definition slot :: "event_store \<Rightarrow> store_key \<Rightarrow> entry option" where
  "slot st = map_of (st_entries st)"

interpretation store_slots: monotone_slots apply_op slot "rank \<circ> en_summary" store_inv
  by unfold_locales (auto simp: apply_op_inv slot_def apply_op_monotone)

lemma store_new_inv: "store_inv (store_new config)"
  by (simp add: store_inv_def store_core_def store_new_def pubkey_count_def)

lemmas store_run_inv = store_slots.inv_run [OF store_new_inv]

text \<open>C2: the store's bookkeeping and limits hold after any sequence of insertions and sweeps: one
  entry per replacement key, filed under the key of its event, the identifier set equal to the
  identifiers of the stored events (all distinct), at most the configured number of events and
  at most the configured number of events per publisher.\<close>

theorem store_invariant: "store_inv (fold apply_op ops (store_new config))"
  by (rule store_run_inv)

text \<open>C15: StoreMonotonic. As long as a slot stays filled, the event in it is never replaced by an
  older one: over any sequence of insertions and sweeps the creation time, and at equal times the
  identifier, only grow.\<close>

theorem store_monotonic:
  assumes "st = fold apply_op ops0 (store_new config)"
    and "held slot k apply_op ops st" and "slot st k = Some e"
  shows "\<exists>e'. slot (fold apply_op ops st) k = Some e' \<and> rank (en_summary e) \<le> rank (en_summary e')"
  using store_slots.mono_run [OF _ assms(2,3)] store_run_inv assms(1) by (simp add: comp_def)

subsection \<open>Convergence\<close>

text \<open>The winner of a slot among the events received: the one of highest rank.\<close>

definition winner :: "event set \<Rightarrow> store_key \<Rightarrow> event \<Rightarrow> bool" where
  "winner S k ev \<longleftrightarrow> ev \<in> S \<and> (\<exists>s. summary_from_event ev = Some s \<and> summary_key s = k \<and>
     (\<forall>ev' \<in> S. \<forall>s'. summary_from_event ev' = Some s' \<longrightarrow> summary_key s' = k \<longrightarrow> rank s' \<le> rank s))"

definition slot_keys :: "event set \<Rightarrow> store_key set" where
  "slot_keys S = {summary_key s |s. \<exists>ev \<in> S. summary_from_event ev = Some s}"

text \<open>The store holds exactly the winners of the events received so far.\<close>

definition holds_winners :: "event set \<Rightarrow> event_store \<Rightarrow> bool" where
  "holds_winners S st \<longleftrightarrow> (\<forall>k. case slot st k of None \<Rightarrow> k \<notin> slot_keys S | Some e \<Rightarrow> winner S k (en_event e))"

definition ids_identify :: "event set \<Rightarrow> bool" where
  "ids_identify S \<longleftrightarrow> (\<forall>a \<in> S. \<forall>b \<in> S. ev_id a = ev_id b \<longrightarrow> a = b)"

definition fits :: "store_config \<Rightarrow> event set \<Rightarrow> bool" where
  "fits config S \<longleftrightarrow> finite S \<and> card (slot_keys S) \<le> event_store_max config \<and>
     (\<forall>pk. card {k \<in> slot_keys S. fst (snd k) = pk} \<le> max_events_per_pubkey config)"

definition receivable :: "store_config \<Rightarrow> nat \<Rightarrow> event \<Rightarrow> bool" where
  "receivable config now ev \<longleftrightarrow> (case summary_from_event ev of None \<Rightarrow> False
     | Some s \<Rightarrow> now \<le> es_expiration s \<and> now - es_created_at s \<le> freshness_window_sec config)"

lemma summary_id: "summary_from_event ev = Some s \<Longrightarrow> es_event_id s = ev_id ev"
  by (auto simp: summary_from_event_def split: option.splits)

lemma winner_unique:
  assumes "ids_identify S" and "winner S k a" and "winner S k b"
  shows "a = b"
proof -
  from assms(2) obtain s where s: "a \<in> S" "summary_from_event a = Some s" "summary_key s = k"
    "\<And>ev' s'. ev' \<in> S \<Longrightarrow> summary_from_event ev' = Some s' \<Longrightarrow> summary_key s' = k \<Longrightarrow> rank s' \<le> rank s"
    unfolding winner_def by blast
  from assms(3) obtain t where t: "b \<in> S" "summary_from_event b = Some t" "summary_key t = k"
    "\<And>ev' s'. ev' \<in> S \<Longrightarrow> summary_from_event ev' = Some s' \<Longrightarrow> summary_key s' = k \<Longrightarrow> rank s' \<le> rank t"
    unfolding winner_def by blast
  have "rank s = rank t" using s(4) [OF t(1-3)] t(4) [OF s(1-3)] by simp
  then have "ev_id a = ev_id b" using summary_id s(2) t(2) by (simp add: rank_def)
  with assms(1) s(1) t(1) show ?thesis by (simp add: ids_identify_def)
qed

lemma finite_slot_keys: "finite S \<Longrightarrow> finite (slot_keys S)"
proof -
  assume "finite S"
  moreover have "slot_keys S \<subseteq> (\<lambda>ev. summary_key (the (summary_from_event ev))) ` S"
    by (force simp: slot_keys_def)
  ultimately show ?thesis by (meson finite_imageI finite_subset)
qed

lemma slot_keys_insert:
  "summary_from_event ev = Some s \<Longrightarrow> slot_keys (insert ev S) = insert (summary_key s) (slot_keys S)"
  by (auto simp: slot_keys_def)

lemma winner_insert_other:
  "summary_from_event ev = Some s \<Longrightarrow> summary_key s \<noteq> k \<Longrightarrow> winner S k x \<Longrightarrow> winner (insert ev S) k x"
  by (auto simp: winner_def)

lemma winner_insert_kept:
  "summary_from_event ev = Some s \<Longrightarrow> winner S k x \<Longrightarrow> summary_from_event x = Some t \<Longrightarrow>
     rank s \<le> rank t \<Longrightarrow> winner (insert ev S) k x"
  by (auto simp: winner_def)

lemma winner_insert_new:
  assumes "summary_from_event ev = Some s" and "winner S (summary_key s) x"
    and "summary_from_event x = Some t" and "rank t \<le> rank s"
  shows "winner (insert ev S) (summary_key s) ev"
  using assms by (fastforce simp: winner_def intro: order_trans)

lemma winner_insert_first:
  "summary_from_event ev = Some s \<Longrightarrow> summary_key s \<notin> slot_keys S \<Longrightarrow>
     winner (insert ev S) (summary_key s) ev"
  by (auto simp: winner_def slot_keys_def)

lemma winner_slot_key: "winner S k x \<Longrightarrow> k \<in> slot_keys S"
  by (auto simp: winner_def slot_keys_def)

lemma holds_winners_None: "holds_winners S st \<Longrightarrow> slot st k = None \<Longrightarrow> k \<notin> slot_keys S"
  unfolding holds_winners_def by (metis option.simps(4))

lemma holds_winners_Some: "holds_winners S st \<Longrightarrow> slot st k = Some e \<Longrightarrow> winner S k (en_event e)"
  unfolding holds_winners_def by (metis option.simps(5))

lemma holds_winners_keys:
  assumes "store_core st" and "holds_winners S st"
  shows "set (map fst (st_entries st)) = slot_keys S"
proof -
  have "k \<in> fst ` set (st_entries st) \<longleftrightarrow> k \<in> slot_keys S" for k
  proof (cases "slot st k")
    case None
    then have "k \<notin> fst ` set (st_entries st)" by (simp add: slot_def map_of_eq_None_iff)
    with holds_winners_None [OF assms(2) None] show ?thesis by simp
  next
    case (Some e)
    have "k \<in> slot_keys S" using holds_winners_Some [OF assms(2) Some] by (auto simp: winner_def slot_keys_def)
    moreover have "k \<in> fst ` set (st_entries st)"
      using Some by (metis map_of_eq_None_iff option.distinct(1) slot_def)
    ultimately show ?thesis by simp
  qed
  then show ?thesis by auto
qed

lemma holds_winners_fits:
  assumes core: "store_core st" and hw: "holds_winners S st" and fits: "fits config S"
  shows "length (st_entries st) \<le> event_store_max config"
    and "pubkey_count pk st \<le> max_events_per_pubkey config"
proof -
  let ?P = "\<lambda>(k, e). es_pubkey (en_summary e) = pk"
  have d: "distinct (map fst (st_entries st))" using core by (rule store_core_distinct)
  note keys = holds_winners_keys [OF core hw]
  show "length (st_entries st) \<le> event_store_max config"
    using distinct_card [OF d] keys fits by (simp add: fits_def)
  have "distinct (map fst (filter ?P (st_entries st)))" using d by (simp add: distinct_map_filter)
  then have "pubkey_count pk st = card (set (map fst (filter ?P (st_entries st))))"
    using distinct_card by (fastforce simp: pubkey_count_def)
  also have "\<dots> \<le> card {k \<in> slot_keys S. fst (snd k) = pk}"
  proof (rule card_mono)
    show "finite {k \<in> slot_keys S. fst (snd k) = pk}" using fits finite_slot_keys by (simp add: fits_def)
    show "set (map fst (filter ?P (st_entries st))) \<subseteq> {k \<in> slot_keys S. fst (snd k) = pk}"
    proof
      fix k assume "k \<in> set (map fst (filter ?P (st_entries st)))"
      then obtain e where e: "(k, e) \<in> set (st_entries st)" "es_pubkey (en_summary e) = pk" by auto
      from e(1) have "k \<in> slot_keys S" unfolding keys [symmetric] by (simp add: rev_image_eqI)
      with store_core_entry [OF core e(1)] e(2) show "k \<in> {k \<in> slot_keys S. fst (snd k) = pk}"
        by (simp add: summary_key_def)
    qed
  qed
  also have "\<dots> \<le> max_events_per_pubkey config" using fits by (simp add: fits_def)
  finally show "pubkey_count pk st \<le> max_events_per_pubkey config" .
qed

lemma evict_noop: "length (filter (\<lambda>p. P (snd p)) (st_entries st)) \<le> n \<Longrightarrow> evict P n st = st"
  by (subst evict.simps) (simp add: Let_def)

lemma enforce_noop:
  assumes "length (st_entries st) \<le> event_store_max (st_config st)"
    and "pubkey_count pk st \<le> max_events_per_pubkey (st_config st)"
  shows "enforce_capacity (enforce_pubkey_quota pk st) = st"
  using assms by (simp add: enforce_capacity_evict enforce_pubkey_quota_evict evict_noop
      pubkey_count_def case_prod_unfold)

lemma holds_winners_put:
  assumes core: "store_core st" and hw: "holds_winners S st" and s: "summary_from_event ev = Some s"
    and newer: "\<And>e. slot st (summary_key s) = Some e \<Longrightarrow> rank (en_summary e) < rank s"
  shows "holds_winners (insert ev S) (put_entry s ev st)"
  unfolding holds_winners_def
proof
  fix k
  show "case slot (put_entry s ev st) k of None \<Rightarrow> k \<notin> slot_keys (insert ev S)
      | Some e \<Rightarrow> winner (insert ev S) k (en_event e)"
  proof (cases "k = summary_key s")
    case False
    then have same: "slot (put_entry s ev st) k = slot st k" by (simp add: slot_def map_of_put_entry)
    show ?thesis
    proof (cases "slot st k")
      case None
      with False holds_winners_None [OF hw None] same show ?thesis by (simp add: slot_keys_insert [OF s])
    next
      case (Some e)
      with False holds_winners_Some [OF hw Some] same show ?thesis
        by (simp add: winner_insert_other [OF s])
    qed
  next
    case True
    have "winner (insert ev S) (summary_key s) ev"
    proof (cases "slot st (summary_key s)")
      case None
      show ?thesis by (rule winner_insert_first [OF s holds_winners_None [OF hw None]])
    next
      case (Some e)
      note holds_winners_Some [OF hw Some]
      moreover have "summary_from_event (en_event e) = Some (en_summary e)"
        using core Some by (auto simp: slot_def dest: map_of_SomeD store_core_entry)
      ultimately show ?thesis using newer [OF Some] winner_insert_new [OF s] by (meson less_imp_le)
    qed
    with True show ?thesis by (simp add: slot_def map_of_put_entry)
  qed
qed

lemma fits_mono: "fits config T \<Longrightarrow> S \<subseteq> T \<Longrightarrow> fits config S"
proof -
  assume f: "fits config T" and sub: "S \<subseteq> T"
  have "slot_keys S \<subseteq> slot_keys T" using sub by (auto simp: slot_keys_def)
  moreover have "finite (slot_keys T)" using f finite_slot_keys by (simp add: fits_def)
  ultimately have "card (slot_keys S) \<le> card (slot_keys T)"
    "\<And>pk. card {k \<in> slot_keys S. fst (snd k) = pk} \<le> card {k \<in> slot_keys T. fst (snd k) = pk}"
    by (auto intro!: card_mono)
  with f sub show ?thesis by (auto simp: fits_def intro: order_trans finite_subset)
qed

lemma store_insert_converges:
  assumes core: "store_core st" and hw: "holds_winners S st"
    and ids: "ids_identify (insert ev S)" and fits: "fits (st_config st) (insert ev S)"
    and rec: "receivable (st_config st) now ev"
  shows "store_core (fst (store_insert now ev st)) \<and> holds_winners (insert ev S) (fst (store_insert now ev st)) \<and>
    st_config (fst (store_insert now ev st)) = st_config st"
proof -
  from rec obtain s where s: "summary_from_event ev = Some s" "now \<le> es_expiration s"
    "now - es_created_at s \<le> freshness_window_sec (st_config st)"
    by (auto simp: receivable_def split: option.splits)
  show ?thesis
  proof (cases rule: store_insert_cases [of now ev st])
    case (rejected r)
    have "holds_winners (insert ev S) st"
    proof (cases "es_event_id s \<in> st_ids st")
      case True
      then obtain k e where ke: "(k, e) \<in> set (st_entries st)" "es_event_id (en_summary e) = ev_id ev"
        using core summary_id [OF s(1)] by (auto simp: store_core_def entry_id_def)
      then have "slot st k = Some e" using store_core_distinct [OF core] by (simp add: slot_def)
      from holds_winners_Some [OF hw this] have mem: "en_event e \<in> S" by (simp add: winner_def)
      moreover have "ev_id (en_event e) = ev_id ev"
        using store_core_entry [OF core ke(1)] ke(2) summary_id by metis
      ultimately have "en_event e = ev" using ids unfolding ids_identify_def by blast
      with mem hw show ?thesis by (simp add: insert_absorb)
    next
      case False
      with rejected(2) [OF s(1)] s obtain e where e: "slot st (summary_key s) = Some e"
        "rank s \<le> rank (en_summary e)" by (auto simp: admissible_def slot_def)
      have es: "summary_from_event (en_event e) = Some (en_summary e)"
        using core e(1) by (auto simp: slot_def dest: map_of_SomeD store_core_entry)
      have "case slot st k of None \<Rightarrow> k \<notin> slot_keys (insert ev S)
          | Some d \<Rightarrow> winner (insert ev S) k (en_event d)" for k
      proof (cases "k = summary_key s")
        case True
        with winner_insert_kept [OF s(1) holds_winners_Some [OF hw e(1)] es e(2)] e(1) show ?thesis by simp
      next
        case False
        then show ?thesis
          using holds_winners_None [OF hw, of k] holds_winners_Some [OF hw, of k]
            winner_insert_other [OF s(1), of k S]
          by (cases "slot st k") (auto simp: slot_keys_insert [OF s(1)])
      qed
      then show ?thesis by (simp add: holds_winners_def)
    qed
    with rejected core show ?thesis by simp
  next
    case (replaced t existing)
    with s have t: "t = s" by simp
    have "holds_winners (insert ev S) (put_entry s ev st)"
      by (rule holds_winners_put [OF core hw s(1)]) (use replaced t in \<open>auto simp: slot_def\<close>)
    with replaced t put_entry_core [OF core s(1)] show ?thesis by (simp add: admissible_def)
  next
    case (stored t)
    with s have t: "t = s" by simp
    have hp: "holds_winners (insert ev S) (put_entry s ev st)"
      by (rule holds_winners_put [OF core hw s(1)]) (use stored t in \<open>auto simp: slot_def\<close>)
    have cp: "store_core (put_entry s ev st)"
      using stored t put_entry_core [OF core s(1)] by (simp add: admissible_def)
    have "enforce_capacity (enforce_pubkey_quota (es_pubkey s) (put_entry s ev st)) = put_entry s ev st"
      by (rule enforce_noop) (use holds_winners_fits [OF cp hp fits] in simp_all)
    with stored t hp cp show ?thesis by simp
  qed
qed

definition deliver :: "(nat \<times> event) list \<Rightarrow> event_store \<Rightarrow> event_store" where
  "deliver obs st = fold (\<lambda>(now, ev) st. fst (store_insert now ev st)) obs st"

lemma deliver_converges:
  assumes "store_core st" and "holds_winners S st" and "ids_identify (S \<union> snd ` set obs)"
    and "fits (st_config st) (S \<union> snd ` set obs)"
    and "\<forall>(now, ev) \<in> set obs. receivable (st_config st) now ev"
  shows "store_core (deliver obs st) \<and> holds_winners (S \<union> snd ` set obs) (deliver obs st)"
  using assms
proof (induction obs arbitrary: S st)
  case (Cons p obs)
  obtain now ev where p: "p = (now, ev)" by (cases p)
  have "ids_identify (insert ev S)" using Cons.prems(3) p by (auto simp: ids_identify_def)
  moreover have "fits (st_config st) (insert ev S)"
    by (rule fits_mono [OF Cons.prems(4)]) (auto simp: p)
  ultimately have step: "store_core (fst (store_insert now ev st)) \<and>
      holds_winners (insert ev S) (fst (store_insert now ev st)) \<and>
      st_config (fst (store_insert now ev st)) = st_config st"
    using Cons.prems p by (intro store_insert_converges) auto
  have "insert ev S \<union> snd ` set obs = S \<union> snd ` set (p # obs)" by (auto simp: p)
  with Cons.IH [of "fst (store_insert now ev st)" "insert ev S"] step Cons.prems p show ?case
    by (simp add: deliver_def)
qed (simp add: deliver_def)


subsection \<open>Concrete events\<close>

definition sample_event :: "string \<Rightarrow> nat \<Rightarrow> string \<Rightarrow> string \<Rightarrow> event" where
  "sample_event eid created cid st = \<lparr>ev_id = eid, ev_pubkey = ''p'', ev_created_at = created,
     ev_kind = CHANNEL_KIND, ev_tags = [[''d'', cid], [''status'', st]], ev_content = [], ev_sig = []\<rparr>"

definition sample_summary :: "string \<Rightarrow> nat \<Rightarrow> string \<Rightarrow> string \<Rightarrow> event_summary" where
  "sample_summary eid created cid st = \<lparr>es_kind = CHANNEL_KIND, es_pubkey = ''p'', es_channel_id = cid,
     es_event_id = eid, es_created_at = created,
     es_expiration = wrapping_add_u64 created EXPIRATION_OFFSET_SECS, es_ended = (st = ''ended'')\<rparr>"

lemma sample_from_event [simp]:
  "summary_from_event (sample_event eid created cid st) = Some (sample_summary eid created cid st)"
  by (simp add: summary_from_event_def sample_event_def sample_summary_def tag_value_def)

lemma sample_projections [simp]:
  "es_event_id (sample_summary eid created cid st) = eid"
  "es_created_at (sample_summary eid created cid st) = created"
  "es_pubkey (sample_summary eid created cid st) = ''p''"
  "es_ended (sample_summary eid created cid st) = (st = ''ended'')"
  "summary_key (sample_summary eid created cid st) = (CHANNEL_KIND, ''p'', cid)"
  "es_expiration (sample_summary eid created cid st) = wrapping_add_u64 created EXPIRATION_OFFSET_SECS"
  "ev_id (sample_event eid created cid st) = eid"
  "ev_created_at (sample_event eid created cid st) = created"
  by (simp_all add: sample_summary_def summary_key_def sample_event_def)

lemmas sample_store_defs = store_insert_def store_new_def default_store_config_def
  DEFAULT_FRESHNESS_WINDOW_SEC_def DEFAULT_EVENT_STORE_MAX_def DEFAULT_MAX_EVENTS_PER_PUBKEY_def
  wrapping_add_u64_def EXPIRATION_OFFSET_SECS_def is_newer_def enforce_pubkey_quota.simps
  enforce_capacity.simps keys_for_pubkey_def oldest_among_def is_older_def remove_key_def
  List.map_filter_def Let_def


theorem store_monotonic_witness:
  "\<exists>e'. slot (fold apply_op [InsertOp 1020 (sample_event ''2'' 1010 ''x'' ''ended''), SweepOp 1021]
       (fold apply_op [InsertOp 1005 (sample_event ''1'' 1000 ''x'' ''live'')] (store_new default_store_config)))
     (CHANNEL_KIND, ''p'', ''x'') = Some e' \<and> rank (sample_summary ''1'' 1000 ''x'' ''live'') \<le> rank (en_summary e')"
proof -
  let ?st = "fold apply_op [InsertOp 1005 (sample_event ''1'' 1000 ''x'' ''live'')] (store_new default_store_config)"
  have "held slot (CHANNEL_KIND, ''p'', ''x'') apply_op
      [InsertOp 1020 (sample_event ''2'' 1010 ''x'' ''ended''), SweepOp 1021] ?st"
    by (simp add: slot_def sample_store_defs store_sweep_def is_removable_def)
  moreover have "slot ?st (CHANNEL_KIND, ''p'', ''x'') = Some \<lparr>en_summary = sample_summary ''1'' 1000 ''x'' ''live'',
      en_event = sample_event ''1'' 1000 ''x'' ''live''\<rparr>"
    by (simp add: slot_def sample_store_defs)
  ultimately show ?thesis using store_monotonic [OF refl] by fastforce
qed

subsection \<open>What leaves the store\<close>

lemma enforce_evicted:
  assumes core: "store_core st"
    and out: "p \<in> set (st_entries st) - set (st_entries (enforce_capacity (enforce_pubkey_quota pk st)))"
    and kept: "q \<in> set (st_entries (enforce_capacity (enforce_pubkey_quota pk st)))"
  shows "(es_pubkey (en_summary (snd p)) = pk \<and> es_pubkey (en_summary (snd q)) = pk \<longrightarrow> entry_rank p \<le> entry_rank q) \<and>
    (es_pubkey (en_summary (snd p)) \<noteq> pk \<longrightarrow> entry_rank p \<le> entry_rank q)"
proof -
  let ?q = "enforce_pubkey_quota pk st"
  have cq: "store_core ?q" using evict_core [OF core] by (simp add: enforce_pubkey_quota_evict)
  have sub: "set (st_entries (enforce_capacity ?q)) \<subseteq> set (st_entries ?q)"
    using evict_filter [OF cq] unfolding enforce_capacity_evict by (metis filter_is_subset)
  show ?thesis
  proof (cases "p \<in> set (st_entries ?q)")
    case True
    with out have "p \<in> set (st_entries ?q) - set (st_entries (enforce_capacity ?q))" by simp
    from evict_oldest [OF cq this [unfolded enforce_capacity_evict]] kept show ?thesis
      by (simp add: enforce_capacity_evict)
  next
    case False
    with out have "p \<in> set (st_entries st) - set (st_entries ?q)" by simp
    from evict_oldest [OF core this [unfolded enforce_pubkey_quota_evict]] kept sub show ?thesis
      by (auto simp: enforce_pubkey_quota_evict)
  qed
qed

text \<open>C16: eviction takes the oldest. When the insertion of a new event makes room, an evicted entry
  of another publisher is not newer than any entry that stays, and an evicted entry of the same
  publisher is not newer than any entry of that publisher that stays. The new event itself may be
  the one evicted.\<close>

theorem eviction_takes_oldest:
  assumes "store_inv st" and "summary_from_event ev = Some s"
    and "store_insert now ev st = (st', Stored)"
    and "p \<in> insert (summary_key s, \<lparr>en_summary = s, en_event = ev\<rparr>) (set (st_entries st))"
    and "p \<notin> set (st_entries st')" and "q \<in> set (st_entries st')"
    and "es_pubkey (en_summary (snd p)) = es_pubkey s \<longrightarrow> es_pubkey (en_summary (snd q)) = es_pubkey s"
  shows "entry_rank p \<le> entry_rank q"
proof (cases rule: store_insert_cases [of now ev st])
  case (stored t)
  with assms have t: "t = s" by simp
  have core: "store_core (put_entry s ev st)"
    using stored t assms put_entry_core by (auto simp: store_inv_def admissible_def)
  have "set (st_entries (put_entry s ev st)) =
      insert (summary_key s, \<lparr>en_summary = s, en_event = ev\<rparr>) (set (st_entries st))"
    using stored(3) t by (simp add: put_entry_def update_notin_append map_of_eq_None_iff Let_def)
  with enforce_evicted [OF core, of p "es_pubkey s" q] assms stored t show ?thesis by auto
qed (use assms in auto)

text \<open>A sweep removes exactly the expired and stale entries, ended or not, returns their number,
  and afterwards the identifier set is that of the entries kept.\<close>

theorem sweep_exact:
  assumes "store_inv st" and "store_sweep now st = (st', n)"
  shows "st_entries st' = filter (\<lambda>(k, e). now \<le> es_expiration (en_summary e) \<and>
      now - es_created_at (en_summary e) \<le> freshness_window_sec (st_config st)) (st_entries st) \<and>
    n + length (st_entries st') = length (st_entries st) \<and> st_ids st' = entry_id ` set (st_entries st')"
proof -
  have core: "store_core st" using assms by (simp add: store_inv_def)
  note e = store_sweep_entries [OF core, of now, unfolded assms(2) fst_conv]
  have "n = length (filter (\<lambda>(k, e). is_removable (st_config st) (en_summary e) now) (st_entries st))"
    using assms(2) by (auto simp: store_sweep_def)
  with e sum_length_filter_compl [of "\<lambda>(k, e). is_removable (st_config st) (en_summary e) now" "st_entries st"]
  show ?thesis
    by (auto simp: store_core_def is_removable_def not_less case_prod_unfold intro!: filter_cong)
qed

text \<open>An ended broadcast cannot be brought back by replaying an older listing. While the ended
  event is held, an event for the same slot that is not newer is refused and nothing changes; and
  the ended event is not supplied to viewers and peers.\<close>

theorem tombstone_blocks_replay:
  assumes "store_inv st" and "slot st (summary_key s) = Some e" and "es_ended (en_summary e)"
    and "summary_from_event ev = Some s" and "\<not> is_newer s (en_summary e)"
  shows "(\<exists>r. store_insert now ev st = (st, Rejected r)) \<and> en_event e \<notin> set (live_fresh_events now st)"
proof
  show "\<exists>r. store_insert now ev st = (st, Rejected r)"
    by (cases rule: store_insert_cases [of now ev st]) (use assms in \<open>auto simp: slot_def is_newer_rank\<close>)
  have core: "store_core st" using assms by (simp add: store_inv_def)
  show "en_event e \<notin> set (live_fresh_events now st)"
  proof
    assume "en_event e \<in> set (live_fresh_events now st)"
    then obtain k d where d: "(k, d) \<in> set (st_entries st)" "en_event d = en_event e"
      "is_live_fresh (st_config st) (en_summary d) now"
      by (auto simp: live_fresh_events_def)
    have "en_summary d = en_summary e"
      using store_core_entry [OF core d(1)] store_core_entry [OF core, of _ e] assms(2) d(2)
      by (metis map_of_SomeD option.inject slot_def)
    with d(3) assms(3) show False by (simp add: is_live_fresh_def)
  qed
qed

lemma mem_live_fresh:
  "ev \<in> set (live_fresh_events now st) \<longleftrightarrow>
     (\<exists>p \<in> set (st_entries st). en_event (snd p) = ev \<and> is_live_fresh (st_config st) (en_summary (snd p)) now)"
  unfolding live_fresh_events_def case_prod_unfold by auto

text \<open>What the store supplies to viewers and to peers that synchronise is exactly the held
  events that are not ended, not expired and within the freshness window.\<close>

theorem live_fresh_exact:
  assumes "store_inv st"
  shows "ev \<in> set (live_fresh_events now st) \<longleftrightarrow>
    (\<exists>k e. slot st k = Some e \<and> en_event e = ev \<and> \<not> es_ended (en_summary e) \<and>
       now \<le> es_expiration (en_summary e) \<and>
       now - es_created_at (en_summary e) \<le> freshness_window_sec (st_config st))"
proof -
  have d: "distinct (map fst (st_entries st))" using assms by (simp add: store_inv_def store_core_def)
  have "slot st k = Some e \<longleftrightarrow> (k, e) \<in> set (st_entries st)" for k e using d by (simp add: slot_def)
  then show ?thesis unfolding mem_live_fresh is_live_fresh_def
    by (metis fst_conv prod.collapse snd_conv)
qed

subsection \<open>Witnesses on a store of capacity one\<close>

definition tiny_config :: store_config where
  "tiny_config = \<lparr>freshness_window_sec = 600, event_store_max = 1, max_events_per_pubkey = 64\<rparr>"

definition tiny_store :: event_store where
  "tiny_store = \<lparr>st_config = tiny_config, st_entries = [((CHANNEL_KIND, ''p'', ''x''),
     \<lparr>en_summary = sample_summary ''5'' 1010 ''x'' ''ended'', en_event = sample_event ''5'' 1010 ''x'' ''ended''\<rparr>)],
     st_ids = {''5''}\<rparr>"

lemma tiny_store_inv: "store_inv tiny_store"
proof -
  have "tiny_store = fold apply_op [InsertOp 1020 (sample_event ''5'' 1010 ''x'' ''ended'')] (store_new tiny_config)"
    by (simp add: tiny_store_def tiny_config_def sample_store_defs)
  then show ?thesis using store_run_inv by metis
qed

lemma tiny_insert_older:
  "store_insert 1020 (sample_event ''4'' 1000 ''y'' ''live'') tiny_store = (tiny_store, Stored)"
proof -
  have ids: "insert ''4'' {''5''} - {''4''} = {''5''}" by auto
  show ?thesis
    by (simp add: tiny_store_def tiny_config_def sample_store_defs ids)
qed

theorem eviction_takes_oldest_witness:
  "rank (sample_summary ''4'' 1000 ''y'' ''live'') \<le> rank (sample_summary ''5'' 1010 ''x'' ''ended'')"
  using eviction_takes_oldest [OF tiny_store_inv sample_from_event tiny_insert_older,
      of "((CHANNEL_KIND, ''p'', ''y''), \<lparr>en_summary = sample_summary ''4'' 1000 ''y'' ''live'',
            en_event = sample_event ''4'' 1000 ''y'' ''live''\<rparr>)"
         "((CHANNEL_KIND, ''p'', ''x''), \<lparr>en_summary = sample_summary ''5'' 1010 ''x'' ''ended'',
            en_event = sample_event ''5'' 1010 ''x'' ''ended''\<rparr>)"]
  by (simp add: tiny_store_def)

theorem sweep_exact_witness:
  "st_entries (fst (store_sweep 1611 tiny_store)) = [] \<and> snd (store_sweep 1611 tiny_store) = 1"
proof -
  obtain st' n where sw: "store_sweep 1611 tiny_store = (st', n)" by fastforce
  from sweep_exact [OF tiny_store_inv sw] have "st_entries st' = []" "n = 1"
    by (auto simp add: tiny_store_def tiny_config_def wrapping_add_u64_def EXPIRATION_OFFSET_SECS_def)
  then show ?thesis by (simp add: sw)
qed

theorem tombstone_blocks_replay_witness:
  "(\<exists>r. store_insert 1020 (sample_event ''4'' 1000 ''x'' ''live'') tiny_store = (tiny_store, Rejected r)) \<and>
   sample_event ''5'' 1010 ''x'' ''ended'' \<notin> set (live_fresh_events 1020 tiny_store)"
  using tombstone_blocks_replay [OF tiny_store_inv,
      where s = "sample_summary ''4'' 1000 ''x'' ''live''" and ev = "sample_event ''4'' 1000 ''x'' ''live''"
        and e = "\<lparr>en_summary = sample_summary ''5'' 1010 ''x'' ''ended'', en_event = sample_event ''5'' 1010 ''x'' ''ended''\<rparr>"
        and now = 1020]
  by (simp add: tiny_store_def slot_def is_newer_def)

theorem live_fresh_exact_witness:
  "sample_event ''5'' 1010 ''x'' ''ended'' \<notin> set (live_fresh_events 1020 tiny_store)"
  by (subst live_fresh_exact [OF tiny_store_inv]) (auto simp: tiny_store_def slot_def split: if_splits)

text \<open>An insertion may report \<open>Stored\<close>, which makes the caller propagate the event, although the
  new event is itself the oldest one and is evicted before the call returns.\<close>

theorem stored_but_evicted:
  "store_insert 1020 (sample_event ''4'' 1000 ''y'' ''live'') tiny_store = (tiny_store, Stored) \<and>
   \<not> contains_id tiny_store ''4'' \<and> should_propagate Stored"
  using tiny_insert_older by (simp add: contains_id_def tiny_store_def)

subsection \<open>The duplicate cache\<close>

definition dedup_inv :: "dedup_cache \<Rightarrow> bool" where
  "dedup_inv c \<longleftrightarrow> distinct (map fst (seen c))"

type_synonym dedup_call = "nat \<times> string"

definition dedup_step :: "dedup_call \<Rightarrow> dedup_cache \<Rightarrow> dedup_cache" where
  "dedup_step call c = fst (check_and_insert (fst call) (snd call) c)"

text \<open>The call passes the filter: the identifier was not known.\<close>

definition dedup_fresh :: "string \<Rightarrow> dedup_call \<Rightarrow> dedup_cache \<Rightarrow> bool" where
  "dedup_fresh eid call c \<longleftrightarrow> snd call = eid \<and> \<not> snd (check_and_insert (fst call) (snd call) c)"

lemma map_of_purge:
  "dedup_inv c \<Longrightarrow> map_of (seen (purge_expired now c)) eid =
     (case map_of (seen c) eid of None \<Rightarrow> None | Some t \<Rightarrow> if now - t \<le> retention_sec c then Some t else None)"
  by (simp add: purge_expired_def dedup_inv_def map_of_filter_value)

lemma purge_simps [simp]:
  "retention_sec (purge_expired now c) = retention_sec c"
  "dedup_inv c \<Longrightarrow> dedup_inv (purge_expired now c)"
  by (simp_all add: purge_expired_def dedup_inv_def distinct_map_filter)

lemma check_and_insert_cases:
  assumes "dedup_inv c"
  shows "check_and_insert now eid c = (if dedup_contains now eid c then (purge_expired now c, True)
     else ((purge_expired now c)\<lparr>seen := AList.update eid now (seen (purge_expired now c))\<rparr>, False))"
  by (simp add: check_and_insert_def dedup_contains_def map_of_purge [OF assms] Let_def split: option.splits)

interpretation dedup_windows: suppression dedup_step fst dedup_fresh
  "\<lambda>eid c. map_of (seen c) eid" "\<lambda>c. retention_sec c + 1" dedup_inv
proof
  fix eid :: string and call :: dedup_call and c :: dedup_cache
  obtain now x where call: "call = (now, x)" by (cases call)
  show "retention_sec (dedup_step call c) + 1 = retention_sec c + 1"
    by (simp add: dedup_step_def check_and_insert_def Let_def)
  assume inv: "dedup_inv c"
  note cases = check_and_insert_cases [OF inv] map_of_purge [OF inv, of now]
  show "dedup_inv (dedup_step call c)"
    using purge_simps(2) [OF inv, of now] by (auto simp: dedup_step_def cases call dedup_inv_def)
  show "map_of (seen (dedup_step call c)) eid = map_of (seen c) eid \<or>
      map_of (seen (dedup_step call c)) eid = None \<and>
      (\<exists>t. map_of (seen c) eid = Some t \<and> t + (retention_sec c + 1) \<le> fst call)"
    if "\<not> dedup_fresh eid call c"
    using that by (auto simp: dedup_step_def dedup_fresh_def cases call update_conv' split: option.splits if_splits)
  show "map_of (seen (dedup_step call c)) eid = Some (fst call) \<and>
      (\<forall>t. map_of (seen c) eid = Some t \<longrightarrow> t + (retention_sec c + 1) \<le> fst call)"
    if "dedup_fresh eid call c"
    using that by (auto simp: dedup_step_def dedup_fresh_def cases call dedup_contains_def update_conv'
        split: if_splits)
qed

text \<open>The duplicate cache lets an event identifier through at most once per retention period.
  Whatever identifiers are checked in between, with a clock that does not go back, two times at
  which the same identifier passes are more than the retention apart, which is at least the
  freshness window and at least 600 seconds.\<close>

theorem dedup_spacing:
  assumes "sorted (map fst calls)"
  shows "sorted_wrt (\<lambda>a b. a + max window 600 < b)
    (fire_times dedup_step (dedup_fresh eid) fst calls (dedup_new window))"
proof -
  have "dedup_inv (dedup_new window)" by (simp add: dedup_inv_def dedup_new_def)
  from dedup_windows.spacing [OF this assms, of eid] show ?thesis
    by (simp add: dedup_new_def DEDUP_MIN_RETENTION_SEC_def less_eq_Suc_le)
qed

theorem dedup_spacing_witness:
  "fire_times dedup_step (dedup_fresh ''a'') fst [(0, ''a''), (5, ''b''), (600, ''a''), (601, ''a'')] (dedup_new 300) = [0, 601]
   \<and> sorted_wrt (\<lambda>a b. a + max 300 600 < b)
      (fire_times dedup_step (dedup_fresh ''a'') fst [(0, ''a''), (5, ''b''), (600, ''a''), (601, ''a'')] (dedup_new 300))"
proof
  show "fire_times dedup_step (dedup_fresh ''a'') fst [(0, ''a''), (5, ''b''), (600, ''a''), (601, ''a'')] (dedup_new 300) = [0, 601]"
    by (simp add: dedup_step_def dedup_fresh_def check_and_insert_def purge_expired_def dedup_new_def
        DEDUP_MIN_RETENTION_SEC_def Let_def)
  show "sorted_wrt (\<lambda>a b. a + max 300 600 < b)
      (fire_times dedup_step (dedup_fresh ''a'') fst [(0, ''a''), (5, ''b''), (600, ''a''), (601, ''a'')] (dedup_new 300))"
    by (rule dedup_spacing) simp
qed

end
