(* ===== verification/Store_Db.thy ===== *)
theory Store_Db
  imports Yp_Security
begin

text \<open>
  The persistent store (\<open>src/store/mod.rs\<close>): the four tables of \<open>schema.sql\<close> and the statements of
  every operation, as operations on lists of rows. SQLite itself is not modelled beyond the
  meaning of those statements: \<open>rowid\<close> is the value an \<open>AUTOINCREMENT\<close> column receives, passed
  to the operations that insert a row, and failures of the engine (I/O, a poisoned lock) do not
  occur. The columns \<open>state\<close>, \<open>source\<close> and \<open>kind\<close>, which hold fixed strings, are kept as the
  values \<open>from_db\<close> reads them as. Messages for the user are named by a datatype.

  The lemmas show that the peer table keeps its keys unique, that the registration limit removes
  the least recently seen peers and never a manually registered one, and what the queries return.
\<close>

subsection \<open>Rows\<close>

definition PEER_LIMIT :: nat where
  "PEER_LIMIT = 1024"

definition ADDR_MAX_LEN :: nat where
  "ADDR_MAX_LEN = 256"

definition LABEL_MAX_CHARS :: nat where
  "LABEL_MAX_CHARS = 64"

definition PUBKEY_HEX_LEN :: nat where
  "PUBKEY_HEX_LEN = 64"

datatype validation_msg = LabelTooLong | BadPubkey | EmptyAddr | AddrTooLong | EmptyMute

datatype store_error = Backend | Locked | Duplicate | Validation validation_msg | Environment

datatype persona_state = Active | Archived

fun persona_state_as_str :: "persona_state \<Rightarrow> string" where
  "persona_state_as_str Active = ''active''"
| "persona_state_as_str Archived = ''archived''"

definition persona_state_from_db :: "string \<Rightarrow> persona_state" where
  "persona_state_from_db s = (if s = ''archived'' then Archived else Active)"

record persona =
  ps_id :: int
  ps_pubkey :: string
  ps_secret_enc :: bytes
  ps_label :: string
  ps_created_at :: int
  ps_state :: persona_state

datatype peer_source = Manual | Pex

fun peer_source_as_str :: "peer_source \<Rightarrow> string" where
  "peer_source_as_str Manual = ''manual''"
| "peer_source_as_str Pex = ''pex''"

definition peer_source_from_db :: "string \<Rightarrow> peer_source" where
  "peer_source_from_db s = (if s = ''manual'' then Manual else Pex)"

record peer_endpoint =
  pe_id :: int
  pe_addr :: string
  pe_source :: peer_source
  pe_verified :: bool
  pe_enabled :: bool
  pe_added_at :: int
  pe_last_ok_at :: "int option"
  pe_fail_count :: int
  pe_resolved_ip :: "string option"

datatype mute_kind = MutePubkey | MuteChannel

fun mute_kind_as_str :: "mute_kind \<Rightarrow> string" where
  "mute_kind_as_str MutePubkey = ''pubkey''"
| "mute_kind_as_str MuteChannel = ''channel''"

definition mute_kind_from_db :: "string \<Rightarrow> mute_kind" where
  "mute_kind_from_db s = (if s = ''channel'' then MuteChannel else MutePubkey)"

record mute_entry =
  mu_id :: int
  mu_kind :: mute_kind
  mu_value :: string
  mu_created_at :: int

record db =
  db_personas :: "persona list"
  db_peers :: "peer_endpoint list"
  db_mutes :: "mute_entry list"
  db_settings :: "(string \<times> string) list"

definition store_open :: db where
  "store_open = \<lparr>db_personas = [], db_peers = [], db_mutes = [], db_settings = []\<rparr>"

lemma from_db_as_str [simp]:
  "persona_state_from_db (persona_state_as_str a) = a"
  "peer_source_from_db (peer_source_as_str b) = b"
  "mute_kind_from_db (mute_kind_as_str c) = c"
  by (cases a; cases b; cases c;
      simp add: persona_state_from_db_def peer_source_from_db_def mute_kind_from_db_def)+

subsection \<open>Updates\<close>

text \<open>\<open>UPDATE t SET ... WHERE p\<close>: the table and the number of rows changed.\<close>

definition sql_update :: "('r \<Rightarrow> bool) \<Rightarrow> ('r \<Rightarrow> 'r) \<Rightarrow> 'r list \<Rightarrow> 'r list \<times> nat" where
  "sql_update P f rows = (map (\<lambda>r. if P r then f r else r) rows, length (filter P rows))"

definition sql_delete :: "('r \<Rightarrow> bool) \<Rightarrow> 'r list \<Rightarrow> 'r list \<times> nat" where
  "sql_delete P rows = (filter (\<lambda>r. \<not> P r) rows, length (filter P rows))"

subsection \<open>Personas\<close>

definition insert_persona ::
  "int \<Rightarrow> int \<Rightarrow> string \<Rightarrow> bytes \<Rightarrow> string \<Rightarrow> db \<Rightarrow> db \<times> (store_error + persona)" where
  "insert_persona now rowid pubkey secret_enc label d =
     (if length (utf8_chars label) > LABEL_MAX_CHARS then (d, Inl (Validation LabelTooLong))
      else if \<not> is_lower_hex pubkey PUBKEY_HEX_LEN then (d, Inl (Validation BadPubkey))
      else if list_ex (\<lambda>p. ps_pubkey p = pubkey) (db_personas d) then (d, Inl Duplicate)
      else let p = \<lparr>ps_id = rowid, ps_pubkey = pubkey, ps_secret_enc = secret_enc, ps_label = label,
                    ps_created_at = now, ps_state = Active\<rparr>
        in (d\<lparr>db_personas := db_personas d @ [p]\<rparr>, Inr p))"

definition get_persona_by_pubkey :: "string \<Rightarrow> db \<Rightarrow> persona option" where
  "get_persona_by_pubkey pubkey d = find (\<lambda>p. ps_pubkey p = pubkey) (db_personas d)"

definition list_personas :: "db \<Rightarrow> persona list" where
  "list_personas d = sort_by (\<lambda>a b. ps_id a < ps_id b) (db_personas d)"

definition update_persona_label :: "string \<Rightarrow> string \<Rightarrow> db \<Rightarrow> db \<times> (store_error + bool)" where
  "update_persona_label pubkey label d =
     (if length (utf8_chars label) > LABEL_MAX_CHARS then (d, Inl (Validation LabelTooLong))
      else case sql_update (\<lambda>p. ps_pubkey p = pubkey) (ps_label_update (\<lambda>_. label)) (db_personas d) of
        (rows, n) \<Rightarrow> (d\<lparr>db_personas := rows\<rparr>, Inr (n > 0)))"

definition update_persona_state :: "string \<Rightarrow> persona_state \<Rightarrow> db \<Rightarrow> db \<times> bool" where
  "update_persona_state pubkey st d =
     (case sql_update (\<lambda>p. ps_pubkey p = pubkey) (ps_state_update (\<lambda>_. st)) (db_personas d) of
        (rows, n) \<Rightarrow> (d\<lparr>db_personas := rows\<rparr>, n > 0))"

definition delete_persona_row :: "string \<Rightarrow> db \<Rightarrow> db \<times> bool" where
  "delete_persona_row pubkey d = (case sql_delete (\<lambda>p. ps_pubkey p = pubkey) (db_personas d) of
     (rows, n) \<Rightarrow> (d\<lparr>db_personas := rows\<rparr>, n > 0))"

subsection \<open>Peers\<close>

definition query_peer :: "string \<Rightarrow> db \<Rightarrow> peer_endpoint option" where
  "query_peer addr d = find (\<lambda>p. pe_addr p = addr) (db_peers d)"

text \<open>The order \<open>COALESCE(last_ok_at, 0) ASC, added_at ASC, id ASC\<close>.\<close>

definition lru_key :: "peer_endpoint \<Rightarrow> int \<times> int \<times> int" where
  "lru_key p = (unwrap_or 0 (pe_last_ok_at p), pe_added_at p, pe_id p)"

definition lru_victims :: "nat \<Rightarrow> peer_endpoint list \<Rightarrow> peer_endpoint list" where
  "lru_victims n rows = take n (sort_by (\<lambda>a b. lru_key a < lru_key b) (filter (\<lambda>p. pe_source p \<noteq> Manual) rows))"

definition enforce_peer_limit :: "db \<Rightarrow> db" where
  "enforce_peer_limit d = (let excess = int (length (db_peers d)) - int PEER_LIMIT in
     if excess \<le> 0 then d
     else let victims = map pe_id (lru_victims (nat excess) (db_peers d))
       in d\<lparr>db_peers := fst (sql_delete (\<lambda>p. pe_id p \<in> set victims) (db_peers d))\<rparr>)"

definition upsert_peer ::
  "int \<Rightarrow> int \<Rightarrow> string \<Rightarrow> peer_source \<Rightarrow> db \<Rightarrow> db \<times> (store_error + peer_endpoint)" where
  "upsert_peer now rowid addr source d =
     (if addr = [] then (d, Inl (Validation EmptyAddr))
      else if length addr > ADDR_MAX_LEN then (d, Inl (Validation AddrTooLong))
      else case query_peer addr d of
        Some existing \<Rightarrow>
          if source = Manual \<and> pe_source existing \<noteq> Manual then
            let d' = d\<lparr>db_peers := fst (sql_update (\<lambda>p. pe_addr p = addr) (pe_source_update (\<lambda>_. Manual)) (db_peers d))\<rparr>
            in (d', ok_or (query_peer addr d') Backend)
          else (d, Inr existing)
      | None \<Rightarrow>
          let p = \<lparr>pe_id = rowid, pe_addr = addr, pe_source = source, pe_verified = False,
                   pe_enabled = True, pe_added_at = now, pe_last_ok_at = None, pe_fail_count = 0,
                   pe_resolved_ip = None\<rparr>;
              d' = enforce_peer_limit (d\<lparr>db_peers := db_peers d @ [p]\<rparr>)
          in (d', ok_or (query_peer addr d') Backend))"

definition list_peers :: "db \<Rightarrow> peer_endpoint list" where
  "list_peers d = sort_by (\<lambda>a b. pe_id a < pe_id b) (db_peers d)"

definition get_peer :: "string \<Rightarrow> db \<Rightarrow> peer_endpoint option" where
  "get_peer addr d = query_peer addr d"

text \<open>The order \<open>COALESCE(last_ok_at, 0) DESC, id DESC\<close>.\<close>

definition recency_key :: "peer_endpoint \<Rightarrow> int \<times> int" where
  "recency_key p = (- unwrap_or 0 (pe_last_ok_at p), - pe_id p)"

definition verified_peers_by_recency :: "nat option \<Rightarrow> db \<Rightarrow> peer_endpoint list" where
  "verified_peers_by_recency limit d =
     (let rows = sort_by (\<lambda>a b. recency_key a < recency_key b)
            (filter (\<lambda>p. pe_verified p \<and> pe_enabled p) (db_peers d))
      in case limit of None \<Rightarrow> rows | Some n \<Rightarrow> take n rows)"

definition update_peers :: "string \<Rightarrow> (peer_endpoint \<Rightarrow> peer_endpoint) \<Rightarrow> db \<Rightarrow> db \<times> bool" where
  "update_peers addr f d = (case sql_update (\<lambda>p. pe_addr p = addr) f (db_peers d) of
     (rows, n) \<Rightarrow> (d\<lparr>db_peers := rows\<rparr>, n > 0))"

definition set_peer_enabled :: "string \<Rightarrow> bool \<Rightarrow> db \<Rightarrow> db \<times> bool" where
  "set_peer_enabled addr enabled d = update_peers addr (pe_enabled_update (\<lambda>_. enabled)) d"

definition delete_peer :: "string \<Rightarrow> db \<Rightarrow> db \<times> bool" where
  "delete_peer addr d = (case sql_delete (\<lambda>p. pe_addr p = addr) (db_peers d) of
     (rows, n) \<Rightarrow> (d\<lparr>db_peers := rows\<rparr>, n > 0))"

definition record_peer_success :: "string \<Rightarrow> int \<Rightarrow> db \<Rightarrow> db \<times> bool" where
  "record_peer_success addr at d =
     update_peers addr (\<lambda>p. p\<lparr>pe_verified := True, pe_last_ok_at := Some at, pe_fail_count := 0\<rparr>) d"

definition set_peer_resolved_ip :: "string \<Rightarrow> string \<Rightarrow> db \<Rightarrow> db \<times> bool" where
  "set_peer_resolved_ip addr ip d = update_peers addr (pe_resolved_ip_update (\<lambda>_. Some ip)) d"

definition record_peer_failure :: "string \<Rightarrow> db \<Rightarrow> db \<times> int option" where
  "record_peer_failure addr d =
     (case update_peers addr (\<lambda>p. p\<lparr>pe_fail_count := pe_fail_count p + 1\<rparr>) d of (d', found) \<Rightarrow>
        if \<not> found then (d', None) else (d', map_option pe_fail_count (query_peer addr d')))"

definition count_peers :: "db \<Rightarrow> nat" where
  "count_peers d = length (db_peers d)"

subsection \<open>Mutes and settings\<close>

definition find_mute :: "mute_kind \<Rightarrow> string \<Rightarrow> db \<Rightarrow> mute_entry option" where
  "find_mute kind value d = find (\<lambda>m. mu_kind m = kind \<and> mu_value m = value) (db_mutes d)"

definition insert_mute :: "int \<Rightarrow> int \<Rightarrow> mute_kind \<Rightarrow> string \<Rightarrow> db \<Rightarrow> db \<times> (store_error + mute_entry)" where
  "insert_mute now rowid kind value d =
     (if value = [] then (d, Inl (Validation EmptyMute))
      else let d' = (case find_mute kind value d of Some m \<Rightarrow> d
            | None \<Rightarrow> d\<lparr>db_mutes := db_mutes d @ [\<lparr>mu_id = rowid, mu_kind = kind, mu_value = value, mu_created_at = now\<rparr>]\<rparr>)
        in (d', ok_or (find_mute kind value d') Backend))"

definition list_mutes :: "db \<Rightarrow> mute_entry list" where
  "list_mutes d = sort_by (\<lambda>a b. mu_id a < mu_id b) (db_mutes d)"

definition delete_mute :: "int \<Rightarrow> db \<Rightarrow> db \<times> bool" where
  "delete_mute mid d = (case sql_delete (\<lambda>m. mu_id m = mid) (db_mutes d) of
     (rows, n) \<Rightarrow> (d\<lparr>db_mutes := rows\<rparr>, n > 0))"

definition get_setting :: "string \<Rightarrow> db \<Rightarrow> string option" where
  "get_setting key d = map_of (db_settings d) key"

definition set_setting :: "string \<Rightarrow> string \<Rightarrow> db \<Rightarrow> db" where
  "set_setting key value d = d\<lparr>db_settings := AList.update key value (db_settings d)\<rparr>"

definition all_settings :: "db \<Rightarrow> (string \<times> string) list" where
  "all_settings d = db_settings d"

subsection \<open>The peer table\<close>

definition peer_keys :: "db \<Rightarrow> bool" where
  "peer_keys d \<longleftrightarrow> distinct (map pe_addr (db_peers d)) \<and> distinct (map pe_id (db_peers d))"

definition manual_count :: "db \<Rightarrow> nat" where
  "manual_count d = length (filter (\<lambda>p. pe_source p = Manual) (db_peers d))"

definition peers_inv :: "db \<Rightarrow> bool" where
  "peers_inv d \<longleftrightarrow> peer_keys d \<and> count_peers d \<le> max PEER_LIMIT (manual_count d)"

lemma query_peer_Some: "query_peer addr d = Some p \<Longrightarrow> p \<in> set (db_peers d) \<and> pe_addr p = addr"
  by (auto simp: query_peer_def find_Some_iff in_set_conv_nth)

lemma query_peer_None: "query_peer addr d = None \<longleftrightarrow> addr \<notin> pe_addr ` set (db_peers d)"
  by (auto simp: query_peer_def find_None_iff)

lemma lru_victims_props:
  fixes n :: nat
  assumes "distinct (map pe_id rows)"
  defines "vs \<equiv> lru_victims n rows"
  shows "set vs \<subseteq> set rows" and "\<forall>v \<in> set vs. pe_source v \<noteq> Manual"
    and "length vs = min n (length (filter (\<lambda>p. pe_source p \<noteq> Manual) rows))"
    and "distinct vs"
    and "\<forall>v \<in> set vs. \<forall>q \<in> set rows - set vs. pe_source q \<noteq> Manual \<longrightarrow> lru_key v \<le> lru_key q"
proof -
  let ?nm = "filter (\<lambda>p. pe_source p \<noteq> Manual) rows"
  let ?s = "sort_by (\<lambda>a b. lru_key a < lru_key b) ?nm"
  have mem: "set ?s = set ?nm" by simp
  have sub: "set vs \<subseteq> set ?nm"
    using set_take_subset [of n ?s] unfolding vs_def lru_victims_def mem by blast
  show "set vs \<subseteq> set rows" "\<forall>v \<in> set vs. pe_source v \<noteq> Manual" using sub by auto
  show "length vs = min n (length ?nm)" by (simp add: vs_def lru_victims_def min.commute)
  have "distinct ?s" using assms(1) by (simp add: distinct_map)
  then show "distinct vs" by (simp add: vs_def lru_victims_def)
  show "\<forall>v \<in> set vs. \<forall>q \<in> set rows - set vs. pe_source q \<noteq> Manual \<longrightarrow> lru_key v \<le> lru_key q"
  proof (intro ballI impI)
    fix v q assume v: "v \<in> set vs" and q: "q \<in> set rows - set vs" "pe_source q \<noteq> Manual"
    then have "q \<in> set ?s" using mem by auto
    with q(1) have "q \<in> set (drop n ?s)"
      by (metis DiffD2 Un_iff append_take_drop_id lru_victims_def set_append vs_def)
    with v show "lru_key v \<le> lru_key q"
      using sorted_take_drop [OF sorted_sort_by [of lru_key ?nm]] by (simp add: vs_def lru_victims_def)
  qed
qed

lemma delete_by_id:
  assumes "distinct (map pe_id rows)" and "set vs \<subseteq> set rows"
  shows "fst (sql_delete (\<lambda>p. pe_id p \<in> set (map pe_id vs)) rows) = filter (\<lambda>p. p \<notin> set vs) rows"
proof -
  have "pe_id p \<in> pe_id ` set vs \<longleftrightarrow> p \<in> set vs" if "p \<in> set rows" for p
    using assms that by (auto simp: distinct_map inj_on_def)
  then show ?thesis by (auto simp: sql_delete_def intro: filter_cong)
qed

lemma enforce_peer_limit_rows:
  assumes "distinct (map pe_id (db_peers d))"
  obtains vs where "db_peers (enforce_peer_limit d) = filter (\<lambda>p. p \<notin> set vs) (db_peers d)"
    and "set vs \<subseteq> set (db_peers d)" and "\<forall>v \<in> set vs. pe_source v \<noteq> Manual"
    and "distinct vs"
    and "length vs = min (length (db_peers d) - PEER_LIMIT) (length (filter (\<lambda>p. pe_source p \<noteq> Manual) (db_peers d)))"
    and "\<forall>v \<in> set vs. \<forall>q \<in> set (db_peers d) - set vs. pe_source q \<noteq> Manual \<longrightarrow> lru_key v \<le> lru_key q"
proof (cases "length (db_peers d) \<le> PEER_LIMIT")
  case True
  then show ?thesis by (intro that [of "[]"]) (auto simp: enforce_peer_limit_def)
next
  case False
  let ?n = "length (db_peers d) - PEER_LIMIT"
  have "nat (int (length (db_peers d)) - int PEER_LIMIT) = ?n" by simp
  with False lru_victims_props [OF assms, of ?n] delete_by_id [OF assms lru_victims_props(1) [OF assms]]
  show ?thesis by (intro that [of "lru_victims ?n (db_peers d)"]) (auto simp: enforce_peer_limit_def Let_def)
qed

lemma length_filter_notin:
  assumes "distinct rows" and "set vs \<subseteq> set rows" and "distinct vs"
  shows "length (filter (\<lambda>p. p \<notin> set vs) rows) = length rows - length vs"
proof -
  have "set (filter (\<lambda>p. p \<notin> set vs) rows) = set rows - set vs" by auto
  then have "length (filter (\<lambda>p. p \<notin> set vs) rows) = card (set rows - set vs)"
    using assms(1) by (metis distinct_card distinct_filter)
  also have "\<dots> = length rows - length vs"
    using assms by (simp add: card_Diff_subset distinct_card)
  finally show ?thesis .
qed

lemma enforce_peer_limit_inv:
  assumes "peer_keys d"
  shows "peers_inv (enforce_peer_limit d)"
proof -
  have ids: "distinct (map pe_id (db_peers d))" using assms by (simp add: peer_keys_def)
  then have dist: "distinct (db_peers d)" by (simp add: distinct_map)
  obtain vs where vs: "db_peers (enforce_peer_limit d) = filter (\<lambda>p. p \<notin> set vs) (db_peers d)"
    "set vs \<subseteq> set (db_peers d)" "\<forall>v \<in> set vs. pe_source v \<noteq> Manual" "distinct vs"
    "length vs = min (length (db_peers d) - PEER_LIMIT) (length (filter (\<lambda>p. pe_source p \<noteq> Manual) (db_peers d)))"
    by (rule enforce_peer_limit_rows [OF ids])
  have m: "manual_count (enforce_peer_limit d) = manual_count d"
    unfolding manual_count_def vs(1) filter_filter using vs(3) by (intro arg_cong [where f = length] filter_cong) auto
  have "length (db_peers d) = manual_count d + length (filter (\<lambda>p. pe_source p \<noteq> Manual) (db_peers d))"
    unfolding manual_count_def using sum_length_filter_compl by metis
  then have "count_peers (enforce_peer_limit d) \<le> max PEER_LIMIT (manual_count d)"
    using length_filter_notin [OF dist vs(2,4)] vs(5) by (simp add: count_peers_def vs(1))
  moreover have "peer_keys (enforce_peer_limit d)"
    using assms by (auto simp: peer_keys_def vs(1) distinct_map_filter)
  ultimately show ?thesis by (simp add: peers_inv_def m)
qed

lemma sql_update_keys:
  assumes "\<And>r. key (f r) = key r"
  shows "map key (fst (sql_update P f rows)) = map key rows"
  using assms by (simp add: sql_update_def comp_def if_distrib [of key] cong: map_cong)

lemma update_peers_inv:
  assumes "peers_inv d" and "\<And>p. pe_addr (f p) = pe_addr p" and "\<And>p. pe_id (f p) = pe_id p"
    and "\<And>p. pe_source p = Manual \<Longrightarrow> pe_source (f p) = Manual"
  shows "peers_inv (d\<lparr>db_peers := fst (sql_update P f (db_peers d))\<rparr>)"
proof -
  let ?d = "d\<lparr>db_peers := fst (sql_update P f (db_peers d))\<rparr>"
  have "length (filter (\<lambda>p. pe_source p = Manual) rows) \<le>
      length (filter (\<lambda>p. pe_source p = Manual) (fst (sql_update P f rows)))" for rows
    using assms(4) by (induction rows) (auto simp: sql_update_def)
  then have "manual_count d \<le> manual_count ?d" by (simp add: manual_count_def)
  moreover have "count_peers ?d = count_peers d" by (simp add: count_peers_def sql_update_def)
  ultimately show ?thesis
    using assms(1) sql_update_keys [of pe_addr f P] sql_update_keys [of pe_id f P] assms(2,3)
    by (auto simp: peers_inv_def peer_keys_def)
qed

lemma upsert_peer_inv:
  assumes inv: "peers_inv d" and fresh: "\<forall>p \<in> set (db_peers d). pe_id p < rowid"
  shows "peers_inv (fst (upsert_peer now rowid addr source d))"
proof (cases "query_peer addr d")
  case None
  then have "addr \<notin> pe_addr ` set (db_peers d)" by (simp add: query_peer_None)
  moreover have "rowid \<notin> pe_id ` set (db_peers d)" using fresh by auto
  ultimately have "peer_keys (d\<lparr>db_peers := db_peers d @ [p]\<rparr>)"
    if "pe_addr p = addr" "pe_id p = rowid" for p
    using inv that by (auto simp: peers_inv_def peer_keys_def)
  with None inv show ?thesis
    by (simp add: upsert_peer_def Let_def enforce_peer_limit_inv)
next
  case (Some p)
  with inv show ?thesis by (auto simp: upsert_peer_def Let_def update_peers_inv)
qed

lemma delete_peer_inv:
  assumes "peers_inv d"
  shows "peers_inv (fst (delete_peer addr d))"
proof -
  let ?Q = "\<lambda>p. pe_addr p = addr" and ?M = "\<lambda>p. pe_source p = Manual"
  have "count_peers (fst (delete_peer addr d)) \<le> max PEER_LIMIT (manual_count (fst (delete_peer addr d)))"
  proof (cases "count_peers d \<le> PEER_LIMIT")
    case True
    have "length (filter (\<lambda>r. \<not> ?Q r) (db_peers d)) \<le> length (db_peers d)" by simp
    also have "\<dots> \<le> PEER_LIMIT" using True by (simp add: count_peers_def)
    finally show ?thesis by (simp add: delete_peer_def sql_delete_def count_peers_def)
  next
    case False
    with assms have "length (db_peers d) \<le> length (filter ?M (db_peers d))"
      by (auto simp: peers_inv_def count_peers_def manual_count_def max_def split: if_splits)
    then have "\<forall>p \<in> set (db_peers d). ?M p"
      using length_filter_less [of _ "db_peers d" ?M] by (meson not_less)
    then have "filter ?M (filter (\<lambda>p. \<not> ?Q p) (db_peers d)) = filter (\<lambda>p. \<not> ?Q p) (db_peers d)"
      by (intro filter_True) auto
    then show ?thesis
      by (simp add: delete_peer_def sql_delete_def count_peers_def manual_count_def del: filter_filter)
  qed
  moreover have "peer_keys (fst (delete_peer addr d))"
    using assms by (simp add: peers_inv_def peer_keys_def delete_peer_def sql_delete_def distinct_map_filter)
  ultimately show ?thesis by (simp add: peers_inv_def)
qed

subsection \<open>Runs over the peer table\<close>

datatype peer_op =
  Upsert int string peer_source | Delete string | Enable string bool | Success string int
| ResolvedIp string string | Failure string

text \<open>A run carries the next row identifier, which only grows (\<open>AUTOINCREMENT\<close>).\<close>

fun peer_step :: "peer_op \<Rightarrow> int \<times> db \<Rightarrow> int \<times> db" where
  "peer_step (Upsert now addr source) (rowid, d) = (rowid + 1, fst (upsert_peer now rowid addr source d))"
| "peer_step (Delete addr) (rowid, d) = (rowid, fst (delete_peer addr d))"
| "peer_step (Enable addr b) (rowid, d) = (rowid, fst (set_peer_enabled addr b d))"
| "peer_step (Success addr at) (rowid, d) = (rowid, fst (record_peer_success addr at d))"
| "peer_step (ResolvedIp addr ip) (rowid, d) = (rowid, fst (set_peer_resolved_ip addr ip d))"
| "peer_step (Failure addr) (rowid, d) = (rowid, fst (record_peer_failure addr d))"

definition ids_below :: "int \<times> db \<Rightarrow> bool" where
  "ids_below s \<longleftrightarrow> (\<forall>p \<in> set (db_peers (snd s)). pe_id p < fst s)"

lemma update_peers_fst: "fst (update_peers addr f d) = d\<lparr>db_peers := fst (sql_update (\<lambda>p. pe_addr p = addr) f (db_peers d))\<rparr>"
  by (simp add: update_peers_def sql_update_def)

lemma record_peer_failure_fst:
  "fst (record_peer_failure addr d) = fst (update_peers addr (\<lambda>p. p\<lparr>pe_fail_count := pe_fail_count p + 1\<rparr>) d)"
  by (simp add: record_peer_failure_def split: prod.splits)

lemma ids_below_update:
  assumes "ids_below (rowid, d)" and "\<And>p. pe_id (f p) = pe_id p"
  shows "ids_below (rowid, d\<lparr>db_peers := fst (sql_update P f (db_peers d))\<rparr>)"
  using assms by (auto simp: ids_below_def sql_update_def)

lemma set_enforce_peer_limit: "set (db_peers (enforce_peer_limit d)) \<subseteq> set (db_peers d)"
  by (auto simp: enforce_peer_limit_def sql_delete_def Let_def)

lemma upsert_peer_ids:
  "ids_below (rowid, d) \<Longrightarrow> ids_below (rowid + 1, fst (upsert_peer now rowid addr source d))"
proof -
  assume b: "ids_below (rowid, d)"
  have "ids_below (rowid + 1, enforce_peer_limit (d\<lparr>db_peers := db_peers d @ [p]\<rparr>))" if "pe_id p = rowid" for p
    using b that set_enforce_peer_limit [of "d\<lparr>db_peers := db_peers d @ [p]\<rparr>"]
    by (fastforce simp: ids_below_def)
  moreover have "ids_below (rowid + 1, d)" using b by (auto simp: ids_below_def)
  moreover have "ids_below (rowid + 1, d\<lparr>db_peers := fst (sql_update P f (db_peers d))\<rparr>)"
    if "\<And>p. pe_id (f p) = pe_id p" for P f
    using b that by (auto simp: ids_below_def sql_update_def)
  ultimately show ?thesis by (auto simp: upsert_peer_def Let_def split: option.splits)
qed

lemma peer_step_inv:
  "peers_inv (snd s) \<and> ids_below s \<Longrightarrow> peers_inv (snd (peer_step op s)) \<and> ids_below (peer_step op s)"
proof (induction op s rule: peer_step.induct)
  case (1 now addr source rowid d)
  then show ?case using upsert_peer_ids [of rowid d now addr source]
    by (simp add: upsert_peer_inv ids_below_def)
next
  case (2 addr rowid d)
  then show ?case by (auto simp: delete_peer_inv) (auto simp: ids_below_def delete_peer_def sql_delete_def)
qed (auto simp: set_peer_enabled_def record_peer_success_def set_peer_resolved_ip_def
    record_peer_failure_fst update_peers_fst update_peers_inv ids_below_update)

interpretation peer_steps: guarded_steps peer_step "\<lambda>_. True" "\<lambda>s. peers_inv (snd s) \<and> ids_below s"
  by unfold_locales (use peer_step_inv in auto)

text \<open>The peer table stays within bounds. After any sequence of registrations, deletions and
  connection records, addresses and row identifiers are unique and the number of peers is at most
  the registration limit, unless the manually registered peers alone exceed it, in which case the
  table holds nothing but them.\<close>

theorem peer_table_bounded:
  "peer_keys (snd (fold peer_step ops (1, store_open))) \<and>
   count_peers (snd (fold peer_step ops (1, store_open))) \<le>
     max PEER_LIMIT (manual_count (snd (fold peer_step ops (1, store_open))))"
proof -
  have "peers_inv (snd (1, store_open)) \<and> ids_below (1, store_open)"
    by (simp add: peers_inv_def peer_keys_def store_open_def ids_below_def count_peers_def)
  from peer_steps.run_inv [OF this, of ops] show ?thesis by (simp add: peers_inv_def count_peers_def)
qed

text \<open>Registering a peer never drops a manually registered one, and a peer that is dropped to
  keep the limit was seen no more recently (then added no later) than any peer kept that was not
  registered manually.\<close>

theorem peer_limit_lru:
  assumes "peer_keys d" and "\<forall>p \<in> set (db_peers d). pe_id p < rowid"
    and "upsert_peer now rowid addr source d = (d', r)" and "query_peer addr d = None"
    and "p \<in> set (db_peers d)" and "p \<notin> set (db_peers d')"
  shows "pe_source p \<noteq> Manual \<and>
    (\<forall>q. q \<in> set (db_peers d') \<and> pe_source q \<noteq> Manual \<longrightarrow> lru_key p \<le> lru_key q)"
proof -
  define new where "new = \<lparr>pe_id = rowid, pe_addr = addr, pe_source = source, pe_verified = False,
     pe_enabled = True, pe_added_at = now, pe_last_ok_at = None, pe_fail_count = 0, pe_resolved_ip = None\<rparr>"
  let ?d = "d\<lparr>db_peers := db_peers d @ [new]\<rparr>"
  have d': "d' = enforce_peer_limit ?d"
    using assms(3,4,5,6) by (auto simp: upsert_peer_def new_def Let_def split: if_splits)
  have "distinct (map pe_id (db_peers ?d))"
    using assms(1,2) by (auto simp: peer_keys_def new_def)
  then obtain vs where vs: "db_peers d' = filter (\<lambda>p. p \<notin> set vs) (db_peers ?d)"
    "\<forall>v \<in> set vs. pe_source v \<noteq> Manual"
    "\<forall>v \<in> set vs. \<forall>q \<in> set (db_peers ?d) - set vs. pe_source q \<noteq> Manual \<longrightarrow> lru_key v \<le> lru_key q"
    unfolding d' by (rule enforce_peer_limit_rows)
  have "p \<in> set vs" using assms(5,6) by (simp add: vs(1))
  with vs show ?thesis by auto
qed

text \<open>A new peer learned from a peer exchange can be refused with a storage error. When the
  table is full and every peer not registered manually has connected successfully before, the new
  row is itself the least recently seen one, is deleted at once, and the call reports the failure
  of reading it back instead of a result; the table is unchanged.\<close>

theorem new_pex_peer_evicted:
  assumes "peer_keys d" and "\<forall>p \<in> set (db_peers d). pe_id p < rowid"
    and "count_peers d = PEER_LIMIT" and "query_peer addr d = None"
    and "\<forall>p \<in> set (db_peers d). pe_source p \<noteq> Manual \<longrightarrow> (\<exists>t. pe_last_ok_at p = Some t \<and> 0 < t)"
    and "addr \<noteq> []" and "length addr \<le> ADDR_MAX_LEN"
  shows "upsert_peer now rowid addr Pex d = (d, Inl Backend)"
proof -
  define new where "new = \<lparr>pe_id = rowid, pe_addr = addr, pe_source = Pex, pe_verified = False,
     pe_enabled = True, pe_added_at = now, pe_last_ok_at = None, pe_fail_count = 0, pe_resolved_ip = None\<rparr>"
  let ?d = "d\<lparr>db_peers := db_peers d @ [new]\<rparr>"
  have up: "upsert_peer now rowid addr Pex d =
      (enforce_peer_limit ?d, ok_or (query_peer addr (enforce_peer_limit ?d)) Backend)"
    using assms(4,6,7) by (simp add: upsert_peer_def new_def Let_def)
  have "pe_addr new = addr" by (simp add: new_def)
  then have newnot: "new \<notin> set (db_peers d)" using assms(4) unfolding query_peer_None by blast
  have "distinct (map pe_id (db_peers ?d))"
    using assms(1,2) by (auto simp: peer_keys_def new_def)
  then obtain vs where vs: "db_peers (enforce_peer_limit ?d) = filter (\<lambda>p. p \<notin> set vs) (db_peers ?d)"
    "set vs \<subseteq> set (db_peers ?d)" "\<forall>v \<in> set vs. pe_source v \<noteq> Manual"
    "length vs = min (length (db_peers ?d) - PEER_LIMIT) (length (filter (\<lambda>p. pe_source p \<noteq> Manual) (db_peers ?d)))"
    "\<forall>v \<in> set vs. \<forall>q \<in> set (db_peers ?d) - set vs. pe_source q \<noteq> Manual \<longrightarrow> lru_key v \<le> lru_key q"
    by (rule enforce_peer_limit_rows)
  have "length vs = 1" using vs(4) assms(3) by (simp add: count_peers_def new_def)
  then obtain v where v: "vs = [v]" by (cases vs) auto
  have "v = new"
  proof (rule ccontr)
    assume ne: "v \<noteq> new"
    with vs(2,3) v have mem: "v \<in> set (db_peers d)" "pe_source v \<noteq> Manual" by auto
    with assms(5) obtain t where "pe_last_ok_at v = Some t" "0 < t" by auto
    moreover have "lru_key v \<le> lru_key new" using vs(5) v ne by (auto simp: new_def)
    ultimately show False by (simp add: lru_key_def new_def less_eq_prod_def)
  qed
  then have "db_peers (enforce_peer_limit ?d) = db_peers d"
    using vs(1) v newnot by (auto intro!: filter_True)
  moreover have "enforce_peer_limit ?d = d\<lparr>db_peers := db_peers (enforce_peer_limit ?d)\<rparr>"
    by (simp add: enforce_peer_limit_def Let_def)
  ultimately have "enforce_peer_limit ?d = d" by simp
  then show ?thesis using up assms(4) by simp
qed

subsection \<open>A full table\<close>

definition full_row :: "int option \<Rightarrow> nat \<Rightarrow> peer_endpoint" where
  "full_row ok i = \<lparr>pe_id = int i, pe_addr = show_nat i, pe_source = Pex, pe_verified = ok \<noteq> None,
     pe_enabled = True, pe_added_at = 100, pe_last_ok_at = ok, pe_fail_count = 0, pe_resolved_ip = None\<rparr>"

definition full_table :: "int option \<Rightarrow> db" where
  "full_table ok = store_open\<lparr>db_peers := map (full_row ok) [0..<1024]\<rparr>"

lemma full_table_keys:
  "peer_keys (full_table ok)" "\<forall>p \<in> set (db_peers (full_table ok)). pe_id p < 1024"
  "count_peers (full_table ok) = PEER_LIMIT" "query_peer ''x'' (full_table ok) = None"
proof -
  have "inj_on show_nat A" for A by (metis digits_value_show inj_onI)
  then show "peer_keys (full_table ok)"
    by (auto simp: peer_keys_def full_table_def full_row_def distinct_map comp_def inj_on_def)
  show "\<forall>p \<in> set (db_peers (full_table ok)). pe_id p < 1024"
    by (auto simp: full_table_def full_row_def)
  show "count_peers (full_table ok) = PEER_LIMIT"
    by (simp add: count_peers_def full_table_def PEER_LIMIT_def)
  have "show_nat i \<noteq> ''x''" for i
    using show_nat_digits [of i] by (auto simp: is_ascii_digit_iff)
  then have "''x'' \<notin> range show_nat" by (metis rangeE)
  then show "query_peer ''x'' (full_table ok) = None"
    by (auto simp: query_peer_None full_table_def full_row_def)
qed

theorem new_pex_peer_evicted_witness:
  "upsert_peer 200 1024 ''x'' Pex (full_table (Some 50)) = (full_table (Some 50), Inl Backend)"
  by (rule new_pex_peer_evicted [OF full_table_keys])
    (auto simp: full_table_def full_row_def ADDR_MAX_LEN_def)

theorem peer_limit_lru_witness:
  "\<exists>p \<in> set (db_peers (full_table None)).
     p \<notin> set (db_peers (fst (upsert_peer 200 1024 ''x'' Manual (full_table None)))) \<and> pe_source p \<noteq> Manual"
proof -
  let ?d = "full_table None"
  define new where "new = \<lparr>pe_id = 1024, pe_addr = ''x'', pe_source = Manual, pe_verified = False,
     pe_enabled = True, pe_added_at = 200, pe_last_ok_at = None, pe_fail_count = 0, pe_resolved_ip = None\<rparr>"
  let ?e = "?d\<lparr>db_peers := db_peers ?d @ [new]\<rparr>"
  obtain d' r where up: "upsert_peer 200 1024 ''x'' Manual ?d = (d', r)" by fastforce
  then have d': "d' = enforce_peer_limit ?e"
    using full_table_keys(4) by (simp add: upsert_peer_def new_def Let_def ADDR_MAX_LEN_def)
  have ids: "distinct (map pe_id (db_peers ?e))"
    using full_table_keys(1,2) [of None] by (auto simp: peer_keys_def new_def)
  have nonmanual: "filter (\<lambda>p. pe_source p \<noteq> Manual) (db_peers ?e) = db_peers ?d"
    by (simp add: full_table_def full_row_def new_def)
  have len: "length (db_peers ?d) = 1024" by (simp add: full_table_def)
  obtain vs where vs: "db_peers d' = filter (\<lambda>p. p \<notin> set vs) (db_peers ?e)"
    "set vs \<subseteq> set (db_peers ?e)" "\<forall>v \<in> set vs. pe_source v \<noteq> Manual"
    "length vs = min (length (db_peers ?e) - PEER_LIMIT) (length (filter (\<lambda>p. pe_source p \<noteq> Manual) (db_peers ?e)))"
    unfolding d' by (rule enforce_peer_limit_rows [OF ids])
  have "length vs = 1" using vs(4) unfolding nonmanual len by (simp add: len PEER_LIMIT_def)
  then obtain v where v: "vs = [v]" by (cases vs) auto
  with vs(2,3) have mem: "v \<in> set (db_peers ?d)" by (auto simp: new_def)
  moreover have gone: "v \<notin> set (db_peers d')" by (simp add: vs(1) v)
  moreover have "pe_source v \<noteq> Manual"
    using peer_limit_lru [OF full_table_keys(1,2) up full_table_keys(4) mem gone] by simp
  ultimately show ?thesis using up by (intro bexI [of _ v]) simp_all
qed

end
