(* ===== verification/Event_View.thy ===== *)
theory Event_View
  imports Event_Store Store_Db
begin

text \<open>
  The viewer's channel list (\<open>src/event/view.rs\<close>): the mute set and the aggregation of the store's
  live events into rows, sorted newest first. The lemmas show that the list has exactly the rows
  of the unmuted events and that it does not depend on the order in which the hash map of the
  store happens to yield the events.
\<close>

record discovered_channel =
  dc_author_pubkey :: string
  dc_channel_id :: string
  dc_listing :: channel_listing
  dc_created_at :: nat
  dc_source_peers :: "string list"

type_synonym source_map = "(store_key \<times> string list) list"

record mute_set =
  ms_pubkeys :: "string set"
  ms_channels :: "string set"

definition mute_set_default :: mute_set where
  "mute_set_default = \<lparr>ms_pubkeys = {}, ms_channels = {}\<rparr>"

definition mute_set_from_entries :: "mute_entry list \<Rightarrow> mute_set" where
  "mute_set_from_entries es = fold (\<lambda>e s. case mu_kind e of
       MutePubkey \<Rightarrow> s\<lparr>ms_pubkeys := insert (mu_value e) (ms_pubkeys s)\<rparr>
     | MuteChannel \<Rightarrow> s\<lparr>ms_channels := insert (mu_value e) (ms_channels s)\<rparr>) es mute_set_default"

definition is_muted :: "mute_set \<Rightarrow> string \<Rightarrow> string \<Rightarrow> bool" where
  "is_muted s author cid \<longleftrightarrow> author \<in> ms_pubkeys s \<or> cid \<in> ms_channels s"

definition view_row :: "source_map \<Rightarrow> mute_set \<Rightarrow> event \<Rightarrow> discovered_channel option" where
  "view_row sources mutes ev = (case summary_from_event ev of None \<Rightarrow> None
     | Some s \<Rightarrow>
       if is_muted mutes (es_pubkey s) (es_channel_id s) then None
       else case listing_from_event ev of Inl _ \<Rightarrow> None
         | Inr l \<Rightarrow> Some \<lparr>dc_author_pubkey = es_pubkey s, dc_channel_id = es_channel_id s, dc_listing = l,
             dc_created_at = es_created_at s,
             dc_source_peers = unwrap_or [] (map_of sources (summary_key s))\<rparr>)"

definition dc_before :: "discovered_channel \<Rightarrow> discovered_channel \<Rightarrow> bool" where
  "dc_before a b \<longleftrightarrow> dc_created_at b < dc_created_at a \<or>
     dc_created_at a = dc_created_at b \<and> (dc_author_pubkey a < dc_author_pubkey b \<or>
       dc_author_pubkey a = dc_author_pubkey b \<and> dc_channel_id a < dc_channel_id b)"

definition aggregate :: "event list \<Rightarrow> source_map \<Rightarrow> mute_set \<Rightarrow> discovered_channel list" where
  "aggregate events sources mutes = sort_by dc_before (List.map_filter (view_row sources mutes) events)"

subsection \<open>Lemmas\<close>

definition dc_key :: "discovered_channel \<Rightarrow> int \<times> string \<times> string" where
  "dc_key d = (- int (dc_created_at d), dc_author_pubkey d, dc_channel_id d)"

lemma dc_before_key: "dc_before a b \<longleftrightarrow> dc_key a < dc_key b"
  by (auto simp: dc_before_def dc_key_def less_prod_def)

lemma dc_before_fun: "dc_before = (\<lambda>a b. dc_key a < dc_key b)"
  by (intro ext) (simp add: dc_before_key)

lemma mute_set_from_entries_eq:
  "mute_set_from_entries es = \<lparr>ms_pubkeys = mu_value ` {e \<in> set es. mu_kind e = MutePubkey},
     ms_channels = mu_value ` {e \<in> set es. mu_kind e = MuteChannel}\<rparr>"
proof -
  have "fold (\<lambda>e s. case mu_kind e of
       MutePubkey \<Rightarrow> s\<lparr>ms_pubkeys := insert (mu_value e) (ms_pubkeys s)\<rparr>
     | MuteChannel \<Rightarrow> s\<lparr>ms_channels := insert (mu_value e) (ms_channels s)\<rparr>) es s =
     \<lparr>ms_pubkeys = ms_pubkeys s \<union> mu_value ` {e \<in> set es. mu_kind e = MutePubkey},
     ms_channels = ms_channels s \<union> mu_value ` {e \<in> set es. mu_kind e = MuteChannel}\<rparr>" for s
  proof (induction es arbitrary: s)
    case (Cons e es)
    have "{x \<in> set (e # es). mu_kind x = k} = (if mu_kind e = k then insert e {x \<in> set es. mu_kind x = k}
        else {x \<in> set es. mu_kind x = k})" for k by auto
    with Cons show ?case by (cases "mu_kind e") simp_all
  qed simp
  then show ?thesis by (simp add: mute_set_from_entries_def mute_set_default_def)
qed

lemma is_muted_entries:
  "is_muted (mute_set_from_entries es) author cid \<longleftrightarrow>
     (\<exists>e \<in> set es. mu_kind e = MutePubkey \<and> mu_value e = author \<or> mu_kind e = MuteChannel \<and> mu_value e = cid)"
  by (auto simp: is_muted_def mute_set_from_entries_eq)

lemma set_map_filter: "set (List.map_filter f xs) = {y. \<exists>x \<in> set xs. f x = Some y}"
  by (force simp: List.map_filter_def)

lemma set_aggregate: "set (aggregate evs sources mutes) = {d. \<exists>ev \<in> set evs. view_row sources mutes ev = Some d}"
  by (simp add: aggregate_def set_map_filter)

lemma view_row_Some:
  "view_row sources mutes ev = Some d \<longleftrightarrow> (\<exists>s l. summary_from_event ev = Some s \<and>
     \<not> is_muted mutes (es_pubkey s) (es_channel_id s) \<and> listing_from_event ev = Inr l \<and>
     d = \<lparr>dc_author_pubkey = es_pubkey s, dc_channel_id = es_channel_id s, dc_listing = l,
       dc_created_at = es_created_at s, dc_source_peers = unwrap_or [] (map_of sources (summary_key s))\<rparr>)"
  by (cases "summary_from_event ev"; cases "listing_from_event ev") (auto simp: view_row_def)

text \<open>The channel list is what the user asked for. It has one row for each supplied event that
  restores to a listing and whose author and channel are not muted, it shows no muted author and
  no muted channel, and it is sorted by creation time, newest first.\<close>

theorem aggregate_rows:
  "set (aggregate evs sources (mute_set_from_entries es)) =
     {\<lparr>dc_author_pubkey = es_pubkey s, dc_channel_id = es_channel_id s, dc_listing = l,
       dc_created_at = es_created_at s, dc_source_peers = unwrap_or [] (map_of sources (summary_key s))\<rparr> | ev s l.
      ev \<in> set evs \<and> summary_from_event ev = Some s \<and> listing_from_event ev = Inr l \<and>
      (\<nexists>e. e \<in> set es \<and> (mu_kind e = MutePubkey \<and> mu_value e = es_pubkey s \<or>
                     mu_kind e = MuteChannel \<and> mu_value e = es_channel_id s))} \<and>
   sorted_wrt (\<lambda>a b. dc_created_at b \<le> dc_created_at a) (aggregate evs sources (mute_set_from_entries es))"
  (is "?rows \<and> ?sorted")
proof
  show ?rows
    unfolding set_aggregate view_row_Some is_muted_entries by blast
  have "sorted (map dc_key (aggregate evs sources (mute_set_from_entries es)))"
    unfolding aggregate_def dc_before_fun by (rule sorted_sort_by)
  then show ?sorted
    unfolding sorted_map
    by (rule sorted_wrt_mono_rel [rotated]) (auto simp: dc_key_def less_eq_prod_def)
qed

lemma map_filter_mset: "mset xs = mset ys \<Longrightarrow> mset (List.map_filter f xs) = mset (List.map_filter f ys)"
  by (simp add: List.map_filter_def)

text \<open>The channel list is deterministic. It does not depend on the order in which the store
  yields its events, as long as no two of them are for the same author and channel, which the
  store's replacement key guarantees.\<close>

theorem aggregate_order_independent:
  assumes "mset evs = mset evs'"
    and "inj_on (\<lambda>d. (dc_author_pubkey d, dc_channel_id d)) (set (aggregate evs sources mutes))"
  shows "aggregate evs sources mutes = aggregate evs' sources mutes"
  unfolding aggregate_def dc_before_fun
proof (rule sort_by_cong_mset)
  show "mset (List.map_filter (view_row sources mutes) evs) = mset (List.map_filter (view_row sources mutes) evs')"
    by (rule map_filter_mset [OF assms(1)])
  show "inj_on dc_key (set (List.map_filter (view_row sources mutes) evs))"
    using assms(2) by (auto simp: aggregate_def inj_on_def dc_key_def)
qed

theorem aggregate_order_independent_witness:
  "aggregate [demo_event, sample_event ''1'' 5 ''x'' ''live''] [] mute_set_default =
   aggregate [sample_event ''1'' 5 ''x'' ''live'', demo_event] [] mute_set_default"
proof (rule aggregate_order_independent)
  have "listing_from_event (sample_event ''1'' 5 ''x'' ''live'') = Inl (InvalidFormat ''missing title tag'')"
    by (simp add: listing_from_event_def sample_event_def tag_value_def)
  then show "inj_on (\<lambda>d. (dc_author_pubkey d, dc_channel_id d))
      (set (aggregate [demo_event, sample_event ''1'' 5 ''x'' ''live''] [] mute_set_default))"
    by (auto simp: set_aggregate view_row_def inj_on_def split: option.splits sum.splits if_splits)
qed simp

end
