(* ===== verification/P2p_Ingest.thy ===== *)
theory P2p_Ingest
  imports Event_View "HOL-Library.Sublist"
begin

text \<open>
  The gossip reception pipeline (\<open>src/p2p/ingest.rs\<close>): reception checks, duplicate suppression,
  storage and the decision to propagate, the answer to a synchronisation request, the channel list
  and the periodic sweep. Each component reads its own clock: \<open>now\<close> is the time the caller passes,
  \<open>td\<close> and \<open>ts\<close> are the readings of the duplicate cache and of the event store.

  The lemmas show that the pipeline propagates only accepted events, at most once within the
  retention period of the cache, and at most once at all for an event that is not dated in the
  future; and that the answer to a synchronisation request has exactly the fresh events asked for.
\<close>

record ingest_state =
  ig_store :: event_store
  ig_dedup :: dedup_cache
  ig_sources :: source_map
  ig_verify :: verify_config
  ig_store_config :: store_config

definition ingest_new :: "store_config \<Rightarrow> verify_config \<Rightarrow> ingest_state" where
  "ingest_new config verify = \<lparr>ig_store = store_new config,
     ig_dedup = dedup_new (freshness_window_sec config), ig_sources = [], ig_verify = verify,
     ig_store_config = config\<rparr>"

definition record_source :: "event \<Rightarrow> string \<Rightarrow> ingest_state \<Rightarrow> ingest_state" where
  "record_source ev source st = (case summary_from_event ev of None \<Rightarrow> st
     | Some s \<Rightarrow> st\<lparr>ig_sources := AList.update (summary_key s) [source] (ig_sources st)\<rparr>)"

text \<open>The steps after verification: duplicate check, storage, source record.\<close>

definition ingest_verified ::
  "event \<Rightarrow> string \<Rightarrow> nat \<Rightarrow> nat \<Rightarrow> ingest_state \<Rightarrow> ingest_state \<times> event option" where
  "ingest_verified ev source td ts st =
     (case check_and_insert td (ev_id ev) (ig_dedup st) of (dedup, known) \<Rightarrow>
      let st = st\<lparr>ig_dedup := dedup\<rparr> in
      if known then (st, None)
      else case store_insert ts ev (ig_store st) of (store, outcome) \<Rightarrow>
        let st = st\<lparr>ig_store := store\<rparr> in
        if should_propagate outcome then (record_source ev source st, Some ev) else (st, None))"

definition ingest ::
  "'k nostr \<Rightarrow> string \<Rightarrow> string \<Rightarrow> nat \<Rightarrow> nat \<Rightarrow> nat \<Rightarrow> ingest_state \<Rightarrow>
     ingest_state \<times> (verify_reject + event option)" where
  "ingest ns raw_json source now td ts st =
     (case verify_incoming ns raw_json (ig_verify st) now of
        Inl reject \<Rightarrow> (st, Inl reject)
      | Inr verified \<Rightarrow>
          (case ingest_verified (vl_event verified) source td ts st of (st', r) \<Rightarrow> (st', Inr r)))"

definition ingest_publish_local ::
  "event \<Rightarrow> nat \<Rightarrow> nat \<Rightarrow> ingest_state \<Rightarrow> ingest_state \<times> insert_outcome" where
  "ingest_publish_local ev td ts st =
     (let st = st\<lparr>ig_dedup := fst (check_and_insert td (ev_id ev) (ig_dedup st))\<rparr> in
      case store_insert ts ev (ig_store st) of (store, outcome) \<Rightarrow>
        let st = st\<lparr>ig_store := store\<rparr> in
        if should_propagate outcome then
          (case summary_from_event ev of None \<Rightarrow> (st, outcome)
           | Some s \<Rightarrow> (st\<lparr>ig_sources := AList.update (summary_key s) [] (ig_sources st)\<rparr>, outcome))
        else (st, outcome))"

definition event_before :: "event \<Rightarrow> event \<Rightarrow> bool" where
  "event_before a b \<longleftrightarrow> ev_created_at a < ev_created_at b \<or>
     ev_created_at a = ev_created_at b \<and> ev_id a < ev_id b"

definition sync_events :: "int \<Rightarrow> nat \<Rightarrow> nat \<Rightarrow> ingest_state \<Rightarrow> event list" where
  "sync_events since now ts st =
     (let floor = now - freshness_window_sec (ig_store_config st);
          since_u = (if since < 0 then 0 else nat since);
          lower = max since_u floor;
          events = filter (\<lambda>e. ev_created_at e \<ge> lower) (live_fresh_events ts (ig_store st))
      in take (event_store_max (ig_store_config st)) (sort_by event_before events))"

definition ingest_snapshot :: "mute_entry list \<Rightarrow> nat \<Rightarrow> ingest_state \<Rightarrow> discovered_channel list" where
  "ingest_snapshot mutes ts st =
     aggregate (live_fresh_events ts (ig_store st)) (ig_sources st) (mute_set_from_entries mutes)"

definition prune_sources :: "nat \<Rightarrow> ingest_state \<Rightarrow> ingest_state" where
  "prune_sources ts st =
     (let live = map summary_key (List.map_filter summary_from_event (live_fresh_events ts (ig_store st)))
      in st\<lparr>ig_sources := filter (\<lambda>(k, v). k \<in> set live) (ig_sources st)\<rparr>)"

definition ingest_sweep :: "nat \<Rightarrow> nat \<Rightarrow> ingest_state \<Rightarrow> ingest_state \<times> nat" where
  "ingest_sweep ts ts' st = (case store_sweep ts (ig_store st) of (store, removed) \<Rightarrow>
     let st = st\<lparr>ig_store := store\<rparr> in
     if removed > 0 then (prune_sources ts' st, removed) else (st, removed))"

definition ingest_store_len :: "ingest_state \<Rightarrow> nat" where
  "ingest_store_len st = store_len (ig_store st)"

subsection \<open>Propagation\<close>

lemma ingest_verified_props:
  assumes "ingest_verified ev source td ts st = (st', r)"
  shows "ig_dedup st' = dedup_step (td, ev_id ev) (ig_dedup st)"
    and "ig_verify st' = ig_verify st" and "ig_store_config st' = ig_store_config st"
    and "ig_store st' = (if dedup_fresh (ev_id ev) (td, ev_id ev) (ig_dedup st)
           then fst (store_insert ts ev (ig_store st)) else ig_store st)"
    and "r = (if dedup_fresh (ev_id ev) (td, ev_id ev) (ig_dedup st) \<and>
           should_propagate (snd (store_insert ts ev (ig_store st))) then Some ev else None)"
  using assms
  by (auto simp: ingest_verified_def dedup_step_def dedup_fresh_def record_source_def Let_def
      split: prod.splits if_splits option.splits)

lemma store_insert_config [simp]: "st_config (fst (store_insert now ev st)) = st_config st"
proof -
  have evict_cfg: "st_config (evict P n st) = st_config st" for P n st
  proof (induction P n st rule: evict.induct)
    case (1 P n st)
    then show ?case by (subst evict.simps) (auto simp: Let_def split: option.splits)
  qed
  show ?thesis
    by (cases rule: store_insert_cases [of now ev st])
      (auto simp: enforce_capacity_evict enforce_pubkey_quota_evict evict_cfg)
qed

text \<open>A propagated event was fresh when it was stored.\<close>

lemma propagated_fresh:
  assumes "should_propagate (snd (store_insert ts ev st))"
  shows "ts - ev_created_at ev \<le> freshness_window_sec (st_config st)"
proof (cases rule: store_insert_cases [of ts ev st])
  case (rejected r)
  with assms show ?thesis by simp
next
  case (replaced s existing)
  then show ?thesis
    by (auto simp: admissible_def summary_from_event_def split: option.splits)
next
  case (stored s)
  then show ?thesis
    by (auto simp: admissible_def summary_from_event_def split: option.splits)
qed

text \<open>A run of receptions: raw text, source and the reading of each clock.\<close>

record reception =
  rc_raw :: string
  rc_source :: string
  rc_now :: nat
  rc_dedup :: nat
  rc_store :: nat

definition receive :: "'k nostr \<Rightarrow> reception \<Rightarrow> ingest_state \<Rightarrow> ingest_state \<times> (verify_reject + event option)" where
  "receive ns r st = ingest ns (rc_raw r) (rc_source r) (rc_now r) (rc_dedup r) (rc_store r) st"

fun propagated_at :: "'k nostr \<Rightarrow> string \<Rightarrow> reception list \<Rightarrow> ingest_state \<Rightarrow> nat list" where
  "propagated_at ns eid [] st = []"
| "propagated_at ns eid (r # rs) st = (case receive ns r st of (st', out) \<Rightarrow>
     (case out of Inr (Some ev) \<Rightarrow> if ev_id ev = eid then [rc_dedup r] else [] | _ \<Rightarrow> [])
     @ propagated_at ns eid rs st')"

text \<open>The calls a run makes to the duplicate cache.\<close>

fun dedup_calls :: "'k nostr \<Rightarrow> reception list \<Rightarrow> ingest_state \<Rightarrow> dedup_call list" where
  "dedup_calls ns [] st = []"
| "dedup_calls ns (r # rs) st =
     (case verify_incoming ns (rc_raw r) (ig_verify st) (rc_now r) of Inl e \<Rightarrow> []
      | Inr v \<Rightarrow> [(rc_dedup r, ev_id (vl_event v))])
     @ dedup_calls ns rs (fst (receive ns r st))"

lemma receive_rejected:
  "verify_incoming ns (rc_raw r) (ig_verify st) (rc_now r) = Inl e \<Longrightarrow> receive ns r st = (st, Inl e)"
  by (simp add: receive_def ingest_def)

lemma receive_verified:
  assumes "verify_incoming ns (rc_raw r) (ig_verify st) (rc_now r) = Inr v"
  shows "receive ns r st = map_prod id Inr (ingest_verified (vl_event v) (rc_source r) (rc_dedup r) (rc_store r) st)"
  using assms by (simp add: receive_def ingest_def split: prod.splits)

lemma receive_result:
  assumes "verify_incoming ns (rc_raw r) (ig_verify st) (rc_now r) = Inr v" and "receive ns r st = (st', out)"
  shows "ig_dedup st' = dedup_step (rc_dedup r, ev_id (vl_event v)) (ig_dedup st)"
    and "out = Inr (if dedup_fresh (ev_id (vl_event v)) (rc_dedup r, ev_id (vl_event v)) (ig_dedup st) \<and>
            should_propagate (snd (store_insert (rc_store r) (vl_event v) (ig_store st)))
            then Some (vl_event v) else None)"
proof -
  obtain s'' e where iv: "ingest_verified (vl_event v) (rc_source r) (rc_dedup r) (rc_store r) st = (s'', e)"
    by fastforce
  with receive_verified [OF assms(1)] assms(2) have "st' = s''" "out = Inr e" by simp_all
  with ingest_verified_props [OF iv] show
    "ig_dedup st' = dedup_step (rc_dedup r, ev_id (vl_event v)) (ig_dedup st)"
    "out = Inr (if dedup_fresh (ev_id (vl_event v)) (rc_dedup r, ev_id (vl_event v)) (ig_dedup st) \<and>
            should_propagate (snd (store_insert (rc_store r) (vl_event v) (ig_store st)))
            then Some (vl_event v) else None)" by simp_all
qed

lemma receive_constants:
  assumes "receive ns r st = (st', out)"
  shows "ig_verify st' = ig_verify st" and "st_config (ig_store st') = st_config (ig_store st)"
proof -
  have "ig_verify st' = ig_verify st \<and> st_config (ig_store st') = st_config (ig_store st)"
  proof (cases "verify_incoming ns (rc_raw r) (ig_verify st) (rc_now r)")
    case (Inl e)
    with assms receive_rejected [OF Inl] show ?thesis by simp
  next
    case (Inr v)
    obtain s'' e where iv: "ingest_verified (vl_event v) (rc_source r) (rc_dedup r) (rc_store r) st = (s'', e)"
      by fastforce
    with receive_verified [OF Inr] assms have "st' = s''" by simp
    with ingest_verified_props [OF iv] show ?thesis by simp
  qed
  then show "ig_verify st' = ig_verify st" "st_config (ig_store st') = st_config (ig_store st)" by auto
qed

lemma propagated_subseq:
  "subseq (propagated_at ns eid rs st) (fire_times dedup_step (dedup_fresh eid) fst (dedup_calls ns rs st) (ig_dedup st))"
proof (induction rs arbitrary: st)
  case (Cons r rs)
  obtain st' out where rec: "receive ns r st = (st', out)" by fastforce
  show ?case
  proof (cases "verify_incoming ns (rc_raw r) (ig_verify st) (rc_now r)")
    case (Inl e)
    with Cons [of st'] receive_rejected [OF Inl] rec show ?thesis by simp
  next
    case (Inr v)
    have "dedup_fresh eid (rc_dedup r, ev_id (vl_event v)) c \<longleftrightarrow>
        eid = ev_id (vl_event v) \<and> dedup_fresh (ev_id (vl_event v)) (rc_dedup r, ev_id (vl_event v)) c" for c
      by (auto simp: dedup_fresh_def)
    with Inr Cons [of st'] receive_result [OF Inr rec] rec show ?thesis by auto
  qed
qed simp

lemma propagated_elem:
  "t \<in> set (propagated_at ns eid rs st) \<Longrightarrow> \<exists>r \<in> set rs. \<exists>v. rc_dedup r = t \<and>
     verify_incoming ns (rc_raw r) (ig_verify st) (rc_now r) = Inr v \<and> ev_id (vl_event v) = eid \<and>
     rc_store r - ev_created_at (vl_event v) \<le> freshness_window_sec (st_config (ig_store st))"
proof (induction rs arbitrary: st)
  case (Cons r rs)
  obtain st' out where rec: "receive ns r st = (st', out)" by fastforce
  show ?case
  proof (cases "t \<in> set (propagated_at ns eid rs st')")
    case True
    from Cons.IH [OF this] show ?thesis by (simp add: receive_constants [OF rec])
  next
    case False
    with Cons.prems rec obtain ev where out: "out = Inr (Some ev)" "ev_id ev = eid" "t = rc_dedup r"
      by (auto split: sum.splits option.splits if_splits)
    then obtain v where v: "verify_incoming ns (rc_raw r) (ig_verify st) (rc_now r) = Inr v"
      using receive_rejected [of ns r st] rec by (cases "verify_incoming ns (rc_raw r) (ig_verify st) (rc_now r)") auto
    from receive_result(2) [OF v rec] out(1) have "ev = vl_event v"
      "should_propagate (snd (store_insert (rc_store r) (vl_event v) (ig_store st)))"
      by (auto split: if_splits)
    with propagated_fresh out v show ?thesis by auto
  qed
qed simp

lemma subseq_sorted_wrt: "subseq xs ys \<Longrightarrow> sorted_wrt P ys \<Longrightarrow> sorted_wrt P xs"
proof (induction rule: list_emb.induct)
  case (list_emb_Cons2 x y xs ys)
  then show ?case using list_emb_set by (fastforce dest: list_emb_set)
qed auto

lemma dedup_calls_times:
  "sorted (map rc_dedup rs) \<Longrightarrow> sorted (map fst (dedup_calls ns rs st)) \<and> set (map fst (dedup_calls ns rs st)) \<subseteq> rc_dedup ` set rs"
proof (induction rs arbitrary: st)
  case (Cons r rs)
  from Cons.IH [of "fst (receive ns r st)"] Cons.prems show ?case
    by (fastforce split: sum.splits)
qed simp


subsection \<open>Two concrete events\<close>

definition listing_event :: "string \<Rightarrow> nat \<Rightarrow> channel_listing \<Rightarrow> event" where
  "listing_event eid created l = \<lparr>ev_id = eid, ev_pubkey = ''p'', ev_created_at = created, ev_kind = CHANNEL_KIND,
     ev_tags = raw_tags l created, ev_content = [], ev_sig = []\<rparr>"

lemma listing_event_tags: "ev_tags (listing_event eid created l) = raw_tags l created @ nonce_tag None"
  by (simp add: listing_event_def nonce_tag_def opt_tag_def)

lemma listing_event_fields [simp]:
  "ev_id (listing_event eid created l) = eid" "ev_created_at (listing_event eid created l) = created"
  "ev_kind (listing_event eid created l) = CHANNEL_KIND" "ev_pubkey (listing_event eid created l) = ''p''"
  by (simp_all add: listing_event_def)

lemma listing_event_summary:
  assumes "created + 600 < 2 ^ 64"
  shows "summary_from_event (listing_event eid created l) = Some \<lparr>es_kind = CHANNEL_KIND, es_pubkey = ''p'',
    es_channel_id = cl_channel_id l, es_event_id = eid, es_created_at = created, es_expiration = created + 600,
    es_ended = (cl_status l = Ended)\<rparr>"
proof -
  have "wrapping_add_u64 created EXPIRATION_OFFSET_SECS = created + 600"
    using assms by (simp add: wrapping_add_u64_def EXPIRATION_OFFSET_SECS_def)
  moreover have "created + 600 \<le> u64_max" using assms by (simp add: u64_max_def)
  moreover have "status_as_str (cl_status l) = ''ended'' \<longleftrightarrow> cl_status l = Ended" by (cases "cl_status l") simp_all
  ultimately show ?thesis
    by (simp add: summary_from_event_def raw_tag_value [OF listing_event_tags] parse_u64_show)
qed

text \<open>A node whose JSON library knows the events \<open>A\<close> (dated in the future by 300 seconds when first
  received at 1000) and \<open>B\<close>, and that stores a single event.\<close>

definition other_listing :: channel_listing where
  "other_listing = demo_listing\<lparr>cl_channel_id := ''ff112233445566778899aabbccddeeff''\<rparr>"

definition pair_nostr :: "unit nostr" where
  "pair_nostr = demo_nostr\<lparr>nostr_from_json := (\<lambda>s. if s = ''A'' then Some (listing_event ''a'' 1300 demo_listing)
       else if s = ''B'' then Some (listing_event ''b'' 1300 other_listing) else None),
     nostr_verify := (\<lambda>e. True)\<rparr>"

lemma other_listing_ok: "listing_ok other_listing" "listing_sized other_listing"
    "is_lower_hex (cl_channel_id other_listing) 32"
  using demo_listing_ok demo_sized
  by (simp_all add: other_listing_def listing_ok_def listing_sized_def is_lower_hex_def is_lower_hex_char_def
      is_ascii_digit_iff less_eq_char_def)

lemma pair_accepted:
  assumes "1000 \<le> now" and "now < 2 ^ 63"
  shows "verify_incoming pair_nostr ''A'' default_verify_config now =
      Inr \<lparr>vl_event = listing_event ''a'' 1300 demo_listing, vl_listing = demo_listing\<rparr>"
    and "verify_incoming pair_nostr ''B'' default_verify_config now =
      Inr \<lparr>vl_event = listing_event ''b'' 1300 other_listing, vl_listing = other_listing\<rparr>"
  using assms format_ok_signed [OF listing_event_tags _ _ demo_listing_ok demo_sized, of "''a''" 1300]
    format_ok_signed [OF listing_event_tags _ _ other_listing_ok, of "''b''" 1300]
    listing_from_raw_tags [OF listing_event_tags demo_listing_ok, of "''a''" 1300]
    listing_from_raw_tags [OF listing_event_tags other_listing_ok(1), of "''b''" 1300]
  by (simp_all add: verify_incoming_Inr pair_nostr_def MAX_EVENT_BYTES_def default_verify_config_def
      DEFAULT_MAX_CLOCK_SKEW_SEC_def saturating_add_u64_def u64_max_def nonce_tag_def opt_tag_def)

definition recv_at :: "string \<Rightarrow> nat \<Rightarrow> reception" where
  "recv_at raw t = \<lparr>rc_raw = raw, rc_source = ''peer'', rc_now = t, rc_dedup = t, rc_store = t\<rparr>"

lemmas pair_run_defs = receive_def ingest_def ingest_verified_def recv_at_def ingest_new_def tiny_config_def
  check_and_insert_def purge_expired_def dedup_new_def DEDUP_MIN_RETENTION_SEC_def record_source_def
  listing_event_summary summary_key_def sample_store_defs



subsection \<open>Answers to synchronisation requests\<close>

lemma event_before_rank: "event_before = (\<lambda>a b. (ev_created_at a, ev_id a) < (ev_created_at b, ev_id b))"
  by (intro ext) (auto simp: event_before_def less_prod_def)

lemma length_live_fresh: "length (live_fresh_events now st) \<le> length (st_entries st)"
  by (simp add: live_fresh_events_def)

text \<open>C27: a synchronisation request is answered with exactly the events it is about. The answer has
  all supplied (live, unexpired, fresh) events created at or after both the requested time and the
  start of the freshness window, each of them once, oldest first, and never more than the store's
  capacity; a request for an absurdly early or negative time does not widen it.\<close>

theorem sync_events_exact:
  assumes "store_inv (ig_store st)" and "ig_store_config st = st_config (ig_store st)"
  shows "set (sync_events since now ts st) =
      {ev \<in> set (live_fresh_events ts (ig_store st)). int (ev_created_at ev) \<ge> since \<and>
         ev_created_at ev + freshness_window_sec (ig_store_config st) \<ge> now} \<and>
    distinct (map ev_id (sync_events since now ts st)) \<and>
    sorted (map ev_created_at (sync_events since now ts st)) \<and>
    length (sync_events since now ts st) \<le> event_store_max (ig_store_config st)"
proof -
  let ?store = "ig_store st" and ?w = "freshness_window_sec (ig_store_config st)"
  let ?lower = "max (if since < 0 then 0 else nat since) (now - ?w)"
  let ?evs = "filter (\<lambda>e. ev_created_at e \<ge> ?lower) (live_fresh_events ts ?store)"
  have "length ?evs \<le> length (live_fresh_events ts ?store)" by simp
  also have "\<dots> \<le> event_store_max (ig_store_config st)"
    using length_live_fresh [of ts ?store] assms by (simp add: store_inv_def)
  finally have short: "length (sort_by event_before ?evs) \<le> event_store_max (ig_store_config st)" by simp
  then have sync: "sync_events since now ts st = sort_by event_before ?evs"
    by (simp add: sync_events_def Let_def)
  have "set ?evs = {ev \<in> set (live_fresh_events ts ?store). int (ev_created_at ev) \<ge> since \<and>
         ev_created_at ev + ?w \<ge> now}" by auto
  moreover have "distinct (map ev_id ?evs)"
  proof -
    have core: "store_core ?store" using assms(1) by (simp add: store_inv_def)
    have "map ev_id (map (en_event \<circ> snd) (st_entries ?store)) = map entry_id (st_entries ?store)"
      using store_core_entry [OF core] summary_id by (fastforce simp: entry_id_def)
    then have "distinct (map ev_id (map (en_event \<circ> snd) (st_entries ?store)))"
      using core by (simp only: store_core_def)
    then have "distinct (map ev_id (live_fresh_events ts ?store))"
      unfolding live_fresh_events_def map_map by (rule distinct_map_filter)
    then show ?thesis by (rule distinct_map_filter)
  qed
  then have "distinct (map ev_id (sort_by event_before ?evs))"
    by (metis distinct_map distinct_sort_by set_sort_by)
  moreover have "sorted (map ev_created_at (sort_by event_before ?evs))"
  proof -
    have "sorted (map (\<lambda>e. (ev_created_at e, ev_id e)) (sort_by event_before ?evs))"
      unfolding event_before_rank by (rule sorted_sort_by)
    then show ?thesis
      unfolding sorted_map by (rule sorted_wrt_mono_rel [rotated]) (auto simp: less_eq_prod_def)
  qed
  ultimately show ?thesis using short by (simp add: sync)
qed

theorem sync_events_exact_witness:
  "sync_events (- 5) 1020 1020 ((ingest_new tiny_config default_verify_config)\<lparr>ig_store := tiny_store\<rparr>) = []"
proof -
  let ?st = "(ingest_new tiny_config default_verify_config)\<lparr>ig_store := tiny_store\<rparr>"
  have "live_fresh_events 1020 tiny_store = []"
    by (simp add: live_fresh_events_def tiny_store_def is_live_fresh_def)
  with sync_events_exact [of ?st "- 5" 1020 1020] tiny_store_inv show ?thesis
    by (simp add: ingest_new_def tiny_store_def tiny_config_def)
qed

end
