(* ===== verification/P2p_Session.thy ===== *)
theory P2p_Session
  imports Complex_Main P2p_Frame Time_Windows
begin

text \<open>
  The gossip session state machine, its reception rate limiter and the keepalive timer
  (\<open>src/p2p/session.rs\<close>). Monotonic clock readings, \<open>f64\<close> seconds in the code, are exact rational
  numbers passed as \<open>now\<close>; the wall-clock time put into a HELLO is the argument \<open>ts\<close>.

  A session is driven by \<open>start\<close> and by received frames. The reachable sessions are an inductive
  predicate; the lemmas show by rule induction that a session is established only after a HELLO
  with the same protocol version and another node's nonce, that only established sessions deliver
  messages, and that a closed session stays closed. The rate limiter and the keepalive timer are
  instances of the interfaces of \<open>Time_Windows\<close>.
\<close>

subsection \<open>Constants and configuration\<close>

definition PROTOCOL_VERSION :: nat where
  "PROTOCOL_VERSION = 1"

definition DEFAULT_MAX_BYTES_PER_SEC :: nat where
  "DEFAULT_MAX_BYTES_PER_SEC = 256 * 1024"

definition DEFAULT_MAX_MSGS_PER_SEC :: nat where
  "DEFAULT_MAX_MSGS_PER_SEC = 200"

definition KEEPALIVE_INTERVAL_SECS :: rat where
  "KEEPALIVE_INTERVAL_SECS = 60"

definition KEEPALIVE_TIMEOUT_SECS :: rat where
  "KEEPALIVE_TIMEOUT_SECS = 120"

datatype direction = Outbound | Inbound

datatype session_state = Connecting | HelloSent | HelloReceived | Established | Closed

record session_config =
  local_version :: nat
  local_nonce :: nat
  local_listen_port :: nat
  local_features :: "string list"
  max_bytes_per_sec :: nat
  max_msgs_per_sec :: nat

definition default_session_config :: session_config where
  "default_session_config = \<lparr>local_version = PROTOCOL_VERSION, local_nonce = 0, local_listen_port = 0,
     local_features = [], max_bytes_per_sec = DEFAULT_MAX_BYTES_PER_SEC,
     max_msgs_per_sec = DEFAULT_MAX_MSGS_PER_SEC\<rparr>"

datatype 'v session_action =
  Send "'v message" | EstablishedNotice | Deliver "'v message" | PeerClosed string

record disconnect =
  dis_reason :: string
  dis_category :: "security_category option"

definition disconnect_security :: "security_category \<Rightarrow> string \<Rightarrow> disconnect" where
  "disconnect_security c reason = \<lparr>dis_reason = reason, dis_category = Some c\<rparr>"

definition disconnect_benign :: "string \<Rightarrow> disconnect" where
  "disconnect_benign reason = \<lparr>dis_reason = reason, dis_category = None\<rparr>"

subsection \<open>Rate limiter\<close>

record rate_limiter =
  rl_window_start :: rat
  rl_bytes :: nat
  rl_msgs :: nat
  rl_max_bytes :: nat
  rl_max_msgs :: nat
  rl_initialized :: bool

definition rate_limiter_new :: "nat \<Rightarrow> nat \<Rightarrow> rate_limiter" where
  "rate_limiter_new mb mm = \<lparr>rl_window_start = 0, rl_bytes = 0, rl_msgs = 0,
     rl_max_bytes = mb, rl_max_msgs = mm, rl_initialized = False\<rparr>"

definition charge :: "rat \<Rightarrow> nat \<Rightarrow> rate_limiter \<Rightarrow> rate_limiter \<times> (disconnect + unit)" where
  "charge now frame_bytes rl =
     (let rl = (if \<not> rl_initialized rl \<or> now - rl_window_start rl \<ge> 1
                then rl\<lparr>rl_window_start := now, rl_bytes := 0, rl_msgs := 0, rl_initialized := True\<rparr>
                else rl);
          rl = rl\<lparr>rl_bytes := rl_bytes rl + frame_bytes, rl_msgs := rl_msgs rl + 1\<rparr>
      in if rl_msgs rl > rl_max_msgs rl \<or> rl_bytes rl > rl_max_bytes rl
         then (rl, Inl (disconnect_security P2pRateLimited RATE_LIMITED))
         else (rl, Inr ()))"

subsection \<open>Keepalive\<close>

datatype keepalive_action = Idle | SendPing | Timeout

record keepalive =
  ka_interval :: rat
  ka_timeout :: rat
  ka_last_recv :: rat
  ka_last_ping :: rat

definition keepalive_with_params :: "rat \<Rightarrow> rat \<Rightarrow> rat \<Rightarrow> keepalive" where
  "keepalive_with_params interval timeout now =
     \<lparr>ka_interval = interval, ka_timeout = timeout, ka_last_recv = now, ka_last_ping = now\<rparr>"

definition keepalive_new :: "rat \<Rightarrow> keepalive" where
  "keepalive_new now = keepalive_with_params KEEPALIVE_INTERVAL_SECS KEEPALIVE_TIMEOUT_SECS now"

definition on_recv :: "rat \<Rightarrow> keepalive \<Rightarrow> keepalive" where
  "on_recv now ka = ka\<lparr>ka_last_recv := now\<rparr>"

definition keepalive_poll :: "rat \<Rightarrow> keepalive \<Rightarrow> keepalive \<times> keepalive_action" where
  "keepalive_poll now ka =
     (if now - ka_last_recv ka \<ge> ka_timeout ka then (ka, Timeout)
      else if now - ka_last_ping ka \<ge> ka_interval ka then (ka\<lparr>ka_last_ping := now\<rparr>, SendPing)
      else (ka, Idle))"

subsection \<open>Session\<close>

record session =
  se_direction :: direction
  se_state :: session_state
  se_config :: session_config
  se_source :: string
  se_peer :: "hello option"
  se_rate :: rate_limiter

definition session_new :: "direction \<Rightarrow> session_config \<Rightarrow> string \<Rightarrow> session" where
  "session_new dir config source = \<lparr>se_direction = dir, se_state = Connecting, se_config = config,
     se_source = source, se_peer = None,
     se_rate = rate_limiter_new (max_bytes_per_sec config) (max_msgs_per_sec config)\<rparr>"

definition local_hello :: "int \<Rightarrow> session \<Rightarrow> hello" where
  "local_hello ts s = \<lparr>he_version = local_version (se_config s), he_listen_port = local_listen_port (se_config s),
     he_features = local_features (se_config s), he_nonce = local_nonce (se_config s), he_ts = ts\<rparr>"

definition session_start :: "int \<Rightarrow> session \<Rightarrow> session \<times> 'v message option" where
  "session_start ts s = (case se_direction s of
     Outbound \<Rightarrow> (s\<lparr>se_state := HelloSent\<rparr>, Some (Hello (local_hello ts s)))
   | Inbound \<Rightarrow> (s, None))"

definition fail_invalid_frame :: "session \<Rightarrow> session \<times> (disconnect + 'v session_action list)" where
  "fail_invalid_frame s =
     (s\<lparr>se_state := Closed\<rparr>, Inl (disconnect_security P2pInvalidFrame INVALID_FRAME))"

definition accept_peer_hello :: "hello \<Rightarrow> session \<Rightarrow> session \<times> (disconnect + unit)" where
  "accept_peer_hello h s =
     (if he_version h \<noteq> local_version (se_config s)
        then (s\<lparr>se_state := Closed\<rparr>, Inl (disconnect_benign INCOMPATIBLE))
      else if he_nonce h = local_nonce (se_config s)
        then (s\<lparr>se_state := Closed\<rparr>, Inl (disconnect_benign SELF_CONNECT))
      else (s\<lparr>se_peer := Some h\<rparr>, Inr ()))"

definition handle_handshake ::
  "int \<Rightarrow> 'v message \<Rightarrow> session \<Rightarrow> session \<times> (disconnect + 'v session_action list)" where
  "handle_handshake ts m s = (case (se_direction s, m) of
     (Inbound, Hello h) \<Rightarrow>
       (case accept_peer_hello h (s\<lparr>se_state := HelloReceived\<rparr>) of
          (s', Inl d) \<Rightarrow> (s', Inl d)
        | (s', Inr _) \<Rightarrow> let s' = s'\<lparr>se_state := Established\<rparr> in
            (s', Inr [Send (HelloAck (local_hello ts s')), EstablishedNotice]))
   | (Outbound, HelloAck h) \<Rightarrow>
       (case accept_peer_hello h s of
          (s', Inl d) \<Rightarrow> (s', Inl d)
        | (s', Inr _) \<Rightarrow> (s'\<lparr>se_state := Established\<rparr>, Inr [EstablishedNotice]))
   | (_, Close reason) \<Rightarrow> (s\<lparr>se_state := Closed\<rparr>, Inr [PeerClosed reason])
   | _ \<Rightarrow> fail_invalid_frame s)"

definition handle_established :: "'v message \<Rightarrow> session \<Rightarrow> session \<times> (disconnect + 'v session_action list)" where
  "handle_established m s = (case m of
     Hello _ \<Rightarrow> fail_invalid_frame s
   | HelloAck _ \<Rightarrow> fail_invalid_frame s
   | Close reason \<Rightarrow> (s\<lparr>se_state := Closed\<rparr>, Inr [PeerClosed reason])
   | _ \<Rightarrow> (s, Inr [Deliver m]))"

definition on_frame ::
  "rat \<Rightarrow> int \<Rightarrow> nat \<Rightarrow> 'v message \<Rightarrow> session \<Rightarrow> session \<times> (disconnect + 'v session_action list)" where
  "on_frame now ts wire_len m s = (case charge now wire_len (se_rate s) of
     (rl, Inl d) \<Rightarrow> (s\<lparr>se_rate := rl, se_state := Closed\<rparr>, Inl d)
   | (rl, Inr _) \<Rightarrow> let s = s\<lparr>se_rate := rl\<rparr> in
       (case se_state s of
          Connecting \<Rightarrow> handle_handshake ts m s
        | HelloSent \<Rightarrow> handle_handshake ts m s
        | Established \<Rightarrow> handle_established m s
        | HelloReceived \<Rightarrow> fail_invalid_frame s
        | Closed \<Rightarrow> fail_invalid_frame s))"

text \<open>The log call \<open>note_disconnect\<close> makes, when a log is configured and a category is set.\<close>

definition note_disconnect :: "bool \<Rightarrow> disconnect \<Rightarrow> session \<Rightarrow> (security_category \<times> string \<times> string) option" where
  "note_disconnect has_log d s = (case dis_category d of
     Some c \<Rightarrow> if has_log then Some (c, se_source s, dis_reason d) else None
   | None \<Rightarrow> None)"

subsection \<open>Rate limiting\<close>

definition limiter_restarts :: "rat \<times> nat \<Rightarrow> rate_limiter \<Rightarrow> bool" where
  "limiter_restarts c rl \<longleftrightarrow> \<not> rl_initialized rl \<or> fst c - rl_window_start rl \<ge> 1"

definition limiter_charge :: "rat \<times> nat \<Rightarrow> rate_limiter \<Rightarrow> rate_limiter \<times> bool" where
  "limiter_charge c rl = (case charge (fst c) (snd c) rl of (rl', r) \<Rightarrow> (rl', r = Inr ()))"

lemma limiter_charge_eq:
  "limiter_charge c rl =
     (let b = (if limiter_restarts c rl then 0 else rl_bytes rl) + snd c;
          m = (if limiter_restarts c rl then 0 else rl_msgs rl) + 1;
          w = (if limiter_restarts c rl then fst c else rl_window_start rl)
      in (rl\<lparr>rl_window_start := w, rl_bytes := b, rl_msgs := m, rl_initialized := True\<rparr>,
          m \<le> rl_max_msgs rl \<and> b \<le> rl_max_bytes rl))"
  by (cases rl) (auto simp: limiter_charge_def charge_def limiter_restarts_def Let_def not_less)

interpretation limiter_msgs: fixed_window_limiter limiter_charge limiter_restarts "\<lambda>_. 1" rl_msgs rl_max_msgs
  by unfold_locales (auto simp: limiter_charge_eq Let_def)

interpretation limiter_bytes: fixed_window_limiter limiter_charge limiter_restarts snd rl_bytes rl_max_bytes
  by unfold_locales (auto simp: limiter_charge_eq Let_def)

text \<open>The reception rate of a peer is bounded. From the frame that opens a one-second window to
  the last frame of that window, no more frames are admitted than the message limit and no more
  bytes than the byte limit of the session.\<close>

theorem rate_limit_per_window:
  assumes "limiter_restarts c rl" and "same_window limiter_charge limiter_restarts cs (fst (limiter_charge c rl))"
  shows "admitted_weight limiter_charge (\<lambda>_. 1) (c # cs) rl \<le> rl_max_msgs rl \<and>
    admitted_weight limiter_charge snd (c # cs) rl \<le> rl_max_bytes rl"
  using limiter_msgs.window_bound [OF assms] limiter_bytes.window_bound [OF assms] by simp

theorem rate_limit_per_window_witness:
  "admitted_weight limiter_charge (\<lambda>_. 1) [(0, 60), (1/2, 30), (3/4, 30)] (rate_limiter_new 100 5) = 2 \<and>
   admitted_weight limiter_charge snd [(0, 60), (1/2, 30), (3/4, 30)] (rate_limiter_new 100 5) \<le> 100"
proof -
  have "admitted_weight limiter_charge snd ((0, 60) # [(1/2, 30), (3/4, 30)]) (rate_limiter_new 100 5) \<le>
      rl_max_bytes (rate_limiter_new 100 5)"
    by (rule rate_limit_per_window [THEN conjunct2])
      (simp_all add: limiter_restarts_def limiter_charge_eq rate_limiter_new_def Let_def)
  then show ?thesis
    by (simp add: limiter_restarts_def limiter_charge_eq rate_limiter_new_def Let_def)
qed

subsection \<open>Keepalive timer\<close>

datatype keepalive_input = Recv rat | Poll rat

fun keepalive_time :: "keepalive_input \<Rightarrow> rat" where
  "keepalive_time (Recv t) = t"
| "keepalive_time (Poll t) = t"

fun keepalive_step :: "keepalive_input \<Rightarrow> keepalive \<Rightarrow> keepalive" where
  "keepalive_step (Recv t) ka = on_recv t ka"
| "keepalive_step (Poll t) ka = fst (keepalive_poll t ka)"

fun pings :: "keepalive_input \<Rightarrow> keepalive \<Rightarrow> bool" where
  "pings (Recv t) ka = False"
| "pings (Poll t) ka = (snd (keepalive_poll t ka) = SendPing)"

interpretation keepalive_pings: suppression keepalive_step keepalive_time "\<lambda>_ :: unit. pings"
  "\<lambda>_ ka. Some (ka_last_ping ka)" ka_interval "\<lambda>_. True"
proof
  fix c ka
  show "ka_interval (keepalive_step c ka) = ka_interval ka"
    by (cases c) (auto simp: on_recv_def keepalive_poll_def)
  show "\<not> pings c ka \<Longrightarrow> Some (ka_last_ping (keepalive_step c ka)) = Some (ka_last_ping ka) \<or>
      Some (ka_last_ping (keepalive_step c ka)) = None \<and>
      (\<exists>t. Some (ka_last_ping ka) = Some t \<and> t + ka_interval ka \<le> keepalive_time c)"
    by (cases c) (auto simp: on_recv_def keepalive_poll_def split: if_splits)
  show "pings c ka \<Longrightarrow> Some (ka_last_ping (keepalive_step c ka)) = Some (keepalive_time c) \<and>
      (\<forall>t. Some (ka_last_ping ka) = Some t \<longrightarrow> t + ka_interval ka \<le> keepalive_time c)"
    by (cases c) (auto simp: keepalive_poll_def algebra_simps split: if_splits)
qed simp

lemma keepalive_last_recv:
  "ka_last_recv (fold keepalive_step cs ka) = (case filter (\<lambda>c. \<exists>t. c = Recv t) cs of
     [] \<Rightarrow> ka_last_recv ka | rs \<Rightarrow> keepalive_time (last rs))"
proof (induction cs rule: rev_induct)
  case (snoc c cs)
  then show ?case
    by (cases c) (auto simp: on_recv_def keepalive_poll_def split: list.splits if_splits)
qed simp

lemma keepalive_params:
  "ka_timeout (fold keepalive_step cs ka) = ka_timeout ka \<and> ka_interval (fold keepalive_step cs ka) = ka_interval ka"
proof (induction cs arbitrary: ka)
  case (Cons c cs)
  then show ?case by (cases c) (auto simp: on_recv_def keepalive_poll_def)
qed simp

text \<open>The keepalive timer times out exactly the silent peers and does not flood the others. After
  any frames and polls, a poll reports a timeout if and only if no frame has been received for 120
  seconds; and, with a clock that does not go back, pings are at least 60 seconds apart.\<close>

theorem keepalive_correct:
  "(snd (keepalive_poll now (fold keepalive_step cs (keepalive_new start))) = Timeout \<longleftrightarrow>
     now - (case filter (\<lambda>c. \<exists>t. c = Recv t) cs of [] \<Rightarrow> start | rs \<Rightarrow> keepalive_time (last rs)) \<ge> 120) \<and>
   (sorted (map keepalive_time cs) \<longrightarrow>
     sorted_wrt (\<lambda>a b. a + 60 \<le> b) (fire_times keepalive_step pings keepalive_time cs (keepalive_new start)))"
proof
  let ?ka = "fold keepalive_step cs (keepalive_new start)"
  have p: "ka_timeout ?ka = 120" "ka_interval (keepalive_new start) = 60"
    using keepalive_params [of cs "keepalive_new start"]
    by (simp_all add: keepalive_new_def keepalive_with_params_def KEEPALIVE_TIMEOUT_SECS_def KEEPALIVE_INTERVAL_SECS_def)
  have r: "ka_last_recv ?ka = (case filter (\<lambda>c. \<exists>t. c = Recv t) cs of [] \<Rightarrow> start | rs \<Rightarrow> keepalive_time (last rs))"
    unfolding keepalive_last_recv by (simp add: keepalive_new_def keepalive_with_params_def split: list.split)
  show "snd (keepalive_poll now ?ka) = Timeout \<longleftrightarrow>
     now - (case filter (\<lambda>c. \<exists>t. c = Recv t) cs of [] \<Rightarrow> start | rs \<Rightarrow> keepalive_time (last rs)) \<ge> 120"
    unfolding r [symmetric] by (simp add: keepalive_poll_def p)
  show "sorted (map keepalive_time cs) \<longrightarrow>
     sorted_wrt (\<lambda>a b. a + 60 \<le> b) (fire_times keepalive_step pings keepalive_time cs (keepalive_new start))"
    using keepalive_pings.spacing [where s = "keepalive_new start" and cs = cs] by (simp add: p)
qed

theorem keepalive_correct_witness:
  "snd (keepalive_poll 200 (fold keepalive_step [Poll 60, Recv 80, Poll 120] (keepalive_new 0))) = Timeout"
  using keepalive_correct [of 200 "[Poll 60, Recv 80, Poll 120]" 0] by simp

subsection \<open>The protocol of a session\<close>

text \<open>Reachable sessions with the results of the frames received so far.\<close>

inductive session_trace ::
  "direction \<Rightarrow> session_config \<Rightarrow> string \<Rightarrow> (disconnect + 'v session_action list) list \<Rightarrow> session \<Rightarrow> bool"
  for dir config source where
  trace_new: "session_trace dir config source [] (session_new dir config source)"
| trace_start: "session_start ts (session_new dir config source) = (s, hello :: 'v message option) \<Longrightarrow>
    session_trace dir config source [] s"
| trace_frame: "session_trace dir config source outs s \<Longrightarrow> on_frame now ts n m s = (s', out) \<Longrightarrow>
    session_trace dir config source (outs @ [out]) s'"

inductive_cases session_trace_snoc: "session_trace dir config source (outs @ [out]) s"

text \<open>The three shapes of results: the one that establishes the session, deliveries, and closing.\<close>

definition establishing :: "direction \<Rightarrow> session_config \<Rightarrow> disconnect + 'v session_action list \<Rightarrow> bool" where
  "establishing dir config out \<longleftrightarrow> (case dir of
     Outbound \<Rightarrow> out = Inr [EstablishedNotice]
   | Inbound \<Rightarrow> \<exists>h. out = Inr [Send (HelloAck h), EstablishedNotice] \<and> he_version h = local_version config \<and>
       he_nonce h = local_nonce config)"

definition delivery :: "disconnect + 'v session_action list \<Rightarrow> bool" where
  "delivery out \<longleftrightarrow> (\<exists>m. out = Inr [Deliver m] \<and>
     (case m of Hello _ \<Rightarrow> False | HelloAck _ \<Rightarrow> False | Close _ \<Rightarrow> False | _ \<Rightarrow> True))"

definition closing :: "disconnect + 'v session_action list \<Rightarrow> bool" where
  "closing out \<longleftrightarrow> (\<exists>d. out = Inl d) \<or> (\<exists>r. out = Inr [PeerClosed r])"

definition peer_accepted :: "session \<Rightarrow> bool" where
  "peer_accepted s \<longleftrightarrow> (\<exists>h. se_peer s = Some h \<and> he_version h = local_version (se_config s) \<and>
     he_nonce h \<noteq> local_nonce (se_config s))"

definition open_trace :: "direction \<Rightarrow> session_config \<Rightarrow> (disconnect + 'v session_action list) list \<Rightarrow> bool" where
  "open_trace dir config outs \<longleftrightarrow> (\<exists>a ds. outs = a # ds \<and> establishing dir config a \<and> (\<forall>d \<in> set ds. delivery d))"

definition closed_trace :: "direction \<Rightarrow> session_config \<Rightarrow> (disconnect + 'v session_action list) list \<Rightarrow> bool" where
  "closed_trace dir config outs \<longleftrightarrow> (\<exists>pre c post. outs = pre @ c # post \<and> closing c \<and>
     (pre = [] \<or> open_trace dir config pre) \<and> (\<forall>x \<in> set post. \<exists>d. x = Inl d))"

lemma open_trace_snoc: "open_trace dir config outs \<Longrightarrow> delivery d \<Longrightarrow> open_trace dir config (outs @ [d])"
  by (auto simp: open_trace_def)

lemma closed_trace_snoc: "closed_trace dir config outs \<Longrightarrow> closed_trace dir config (outs @ [Inl d])"
  unfolding closed_trace_def
  by (elim exE conjE, rule_tac x = pre in exI, rule_tac x = c in exI, rule_tac x = "post @ [Inl d]" in exI) auto

lemma closed_trace_first: "outs = [] \<or> open_trace dir config outs \<Longrightarrow> closing c \<Longrightarrow> closed_trace dir config (outs @ [c])"
  unfolding closed_trace_def by (intro exI [of _ outs] exI [of _ c] exI [of _ "[]"]) auto

text \<open>What one frame does, by the state it finds.\<close>

lemma on_frame_charged:
  "on_frame now ts n m s = (s', out) \<Longrightarrow>
     se_state s' = Closed \<and> (\<exists>d. out = Inl d) \<and> se_config s' = se_config s \<and> se_direction s' = se_direction s \<or>
     (\<exists>rl. (s', out) = (case se_state s of
          Connecting \<Rightarrow> handle_handshake ts m (s\<lparr>se_rate := rl\<rparr>)
        | HelloSent \<Rightarrow> handle_handshake ts m (s\<lparr>se_rate := rl\<rparr>)
        | Established \<Rightarrow> handle_established m (s\<lparr>se_rate := rl\<rparr>)
        | HelloReceived \<Rightarrow> fail_invalid_frame (s\<lparr>se_rate := rl\<rparr>)
        | Closed \<Rightarrow> fail_invalid_frame (s\<lparr>se_rate := rl\<rparr>)))"
proof -
  assume f: "on_frame now ts n m s = (s', out)"
  obtain rl r where c: "charge now n (se_rate s) = (rl, r)" by fastforce
  show ?thesis
  proof (cases r)
    case (Inl d)
    with f c show ?thesis by (auto simp: on_frame_def)
  next
    case (Inr u)
    with f c have "(s', out) = (case se_state s of
          Connecting \<Rightarrow> handle_handshake ts m (s\<lparr>se_rate := rl\<rparr>)
        | HelloSent \<Rightarrow> handle_handshake ts m (s\<lparr>se_rate := rl\<rparr>)
        | Established \<Rightarrow> handle_established m (s\<lparr>se_rate := rl\<rparr>)
        | HelloReceived \<Rightarrow> fail_invalid_frame (s\<lparr>se_rate := rl\<rparr>)
        | Closed \<Rightarrow> fail_invalid_frame (s\<lparr>se_rate := rl\<rparr>))"
      by (simp add: on_frame_def Let_def)
    then show ?thesis by blast
  qed
qed

lemma handle_handshake_results:
  assumes "handle_handshake ts m s = (s', out)"
  shows "se_config s' = se_config s \<and> se_direction s' = se_direction s \<and>
    (se_state s' = Established \<and> establishing (se_direction s) (se_config s) out \<and> peer_accepted s' \<or>
     se_state s' = Closed \<and> closing out)"
  using assms
  by (auto simp: handle_handshake_def accept_peer_hello_def fail_invalid_frame_def establishing_def closing_def
      peer_accepted_def local_hello_def Let_def split: direction.splits message.splits if_splits)

lemma handle_established_results:
  assumes "handle_established m s = (s', out)"
  shows "se_config s' = se_config s \<and> se_direction s' = se_direction s \<and> se_peer s' = se_peer s \<and>
    (se_state s' = se_state s \<and> delivery out \<or> se_state s' = Closed \<and> closing out)"
  using assms
  by (auto simp: handle_established_def fail_invalid_frame_def delivery_def closing_def split: message.splits)

definition session_ok ::
  "direction \<Rightarrow> session_config \<Rightarrow> (disconnect + 'v session_action list) list \<Rightarrow> session \<Rightarrow> bool" where
  "session_ok dir config outs s \<longleftrightarrow> se_direction s = dir \<and> se_config s = config \<and>
     (case se_state s of
        Connecting \<Rightarrow> outs = []
      | HelloSent \<Rightarrow> outs = [] \<and> dir = Outbound
      | HelloReceived \<Rightarrow> False
      | Established \<Rightarrow> open_trace dir config outs \<and> peer_accepted s
      | Closed \<Rightarrow> closed_trace dir config outs)"

lemma session_trace_ok: "session_trace dir config source outs s \<Longrightarrow> session_ok dir config outs s"
proof (induction rule: session_trace.induct)
  case trace_new
  then show ?case by (simp add: session_ok_def session_new_def)
next
  case (trace_start ts s hello)
  then show ?case
    by (auto simp: session_ok_def session_start_def session_new_def split: direction.splits)
next
  case (trace_frame outs s now ts n m s' out)
  note ok = trace_frame.IH [unfolded session_ok_def]
  have pre: "outs = [] \<or> open_trace dir config outs \<or> se_state s = Closed"
    using ok by (auto split: session_state.splits)
  from on_frame_charged [OF trace_frame.hyps(2)] show ?case
  proof (elim disjE exE)
    assume a: "se_state s' = Closed \<and> (\<exists>d. out = Inl d) \<and> se_config s' = se_config s \<and> se_direction s' = se_direction s"
    then have "closed_trace dir config (outs @ [out])"
      using pre ok closed_trace_first [of outs dir config out] closed_trace_snoc
      by (cases "se_state s") (auto simp: closing_def)
    with a ok show ?thesis by (simp add: session_ok_def)
  next
    fix rl assume r: "(s', out) = (case se_state s of
          Connecting \<Rightarrow> handle_handshake ts m (s\<lparr>se_rate := rl\<rparr>)
        | HelloSent \<Rightarrow> handle_handshake ts m (s\<lparr>se_rate := rl\<rparr>)
        | Established \<Rightarrow> handle_established m (s\<lparr>se_rate := rl\<rparr>)
        | HelloReceived \<Rightarrow> fail_invalid_frame (s\<lparr>se_rate := rl\<rparr>)
        | Closed \<Rightarrow> fail_invalid_frame (s\<lparr>se_rate := rl\<rparr>))"
    have hs: "session_ok dir config (outs @ [out]) s'"
      if "outs = []" "handle_handshake ts m (s\<lparr>se_rate := rl\<rparr>) = (s', out)"
      using handle_handshake_results [OF that(2)] that(1) ok closed_trace_first [of outs dir config out]
      by (auto simp: session_ok_def open_trace_def)
    show ?thesis
    proof (cases "se_state s")
      case Established
      with r have "handle_established m (s\<lparr>se_rate := rl\<rparr>) = (s', out)" by simp
      from handle_established_results [OF this] Established ok
        open_trace_snoc [of dir config outs out] closed_trace_first [of outs dir config out]
      show ?thesis by (auto simp: session_ok_def peer_accepted_def)
    next
      case Closed
      with r ok closed_trace_snoc show ?thesis by (auto simp: session_ok_def fail_invalid_frame_def)
    qed (use r ok hs in auto)
  qed
qed

text \<open>C11: a gossip session follows its protocol. In every reachable session, whatever the peer sends:
  nothing has been handed to the upper layers before the session is established; an established
  session has accepted a HELLO of the same version that does not carry this node's own nonce, its
  first result was the establishment (with the HELLO_ACK on the inbound side) and all later ones
  are deliveries of non-handshake messages; and once closed, by the peer or by a violation, every
  further frame is refused.\<close>

theorem session_protocol:
  assumes "session_trace dir config source outs s"
  shows "case se_state s of
      Connecting \<Rightarrow> outs = []
    | HelloSent \<Rightarrow> outs = [] \<and> dir = Outbound
    | HelloReceived \<Rightarrow> False
    | Established \<Rightarrow> open_trace dir config outs \<and> peer_accepted s
    | Closed \<Rightarrow> closed_trace dir config outs"
  using session_trace_ok [OF assms] by (simp add: session_ok_def)

definition demo_config :: session_config where
  "demo_config = default_session_config\<lparr>local_nonce := 7\<rparr>"

definition demo_hello :: hello where
  "demo_hello = \<lparr>he_version = 1, he_listen_port = 7146, he_features = [], he_nonce = 8, he_ts = 1000\<rparr>"

theorem session_protocol_witness:
  "open_trace Outbound demo_config
     [Inr [EstablishedNotice], Inr [Deliver (Ping 3 :: unit message)]]"
proof -
  let ?s0 = "fst (session_start 5 (session_new Outbound demo_config ''p'') :: session \<times> unit message option)"
  have s0: "session_trace Outbound demo_config ''p'' ([] :: (disconnect + unit session_action list) list) ?s0"
    by (rule trace_start [of 5 _ _ _ _ "snd (session_start 5 (session_new Outbound demo_config ''p''))"]) simp
  obtain s1 o1 where f1: "on_frame 1 5 100 (HelloAck demo_hello :: unit message) ?s0 = (s1, o1)" by fastforce
  obtain s2 o2 where f2: "on_frame 2 5 100 (Ping 3 :: unit message) s1 = (s2, o2)" by fastforce
  note defs = on_frame_def charge_def session_start_def session_new_def rate_limiter_new_def demo_config_def
    demo_hello_def default_session_config_def DEFAULT_MAX_BYTES_PER_SEC_def DEFAULT_MAX_MSGS_PER_SEC_def
    handle_handshake_def handle_established_def accept_peer_hello_def PROTOCOL_VERSION_def Let_def
  have o1: "o1 = Inr [EstablishedNotice] \<and> se_state s1 = Established \<and> rl_msgs (se_rate s1) = 1 \<and>
      rl_max_msgs (se_rate s1) = 200 \<and> rl_max_bytes (se_rate s1) = 262144"
    using f1 by (auto simp: defs)
  then have o2: "o2 = Inr [Deliver (Ping 3)] \<and> se_state s2 = Established"
    using f2 f1 by (auto simp: defs split: if_splits)
  from session_protocol [OF trace_frame [OF trace_frame [OF s0 f1] f2]] o1 o2 show ?thesis by simp
qed

end
