(* ===== verification/P2p_Hub.thy ===== *)
theory P2p_Hub
  imports P2p_Ingest P2p_Session
begin

text \<open>
  The gossip hub (\<open>src/p2p/hub.rs\<close>): the table of established connections with their send queues,
  reception with re-propagation, local publication, synchronisation answers and the channel list.
  A send queue (\<open>UnboundedSender\<close>) is the list of the messages put into it with a flag that tells
  whether its receiving end still exists; sending to a closed queue has no effect. The security
  log is shared with the rest of the program; the hub's operations return the calls they make to
  it. \<open>to_value\<close> and \<open>null\<close> are \<open>serde_json\<close>'s conversion of an event and its null value.
\<close>

record 'v peer_link =
  pl_addr :: string
  pl_direction :: direction
  pl_queue :: "'v message list"
  pl_open :: bool
  pl_clock_skew_sec :: int

record 'v gossip_hub =
  hub_state :: ingest_state
  hub_db :: db
  hub_peers :: "(nat \<times> 'v peer_link) list"
  hub_next_id :: nat
  hub_store_config :: store_config
  hub_verify :: verify_config

type_synonym log_call_args = "security_category \<times> string \<times> string"

definition event_to_message :: "(event \<Rightarrow> 'v option) \<Rightarrow> 'v \<Rightarrow> event \<Rightarrow> 'v message" where
  "event_to_message to_value null ev = EventMsg (unwrap_or null (to_value ev))"

definition hub_new :: "db \<Rightarrow> store_config \<Rightarrow> verify_config \<Rightarrow> 'v gossip_hub" where
  "hub_new d config verify = \<lparr>hub_state = ingest_new config verify, hub_db = d, hub_peers = [], hub_next_id = 1,
     hub_store_config = config, hub_verify = verify\<rparr>"

definition next_conn_id :: "'v gossip_hub \<Rightarrow> 'v gossip_hub \<times> nat" where
  "next_conn_id h = (h\<lparr>hub_next_id := wrapping_add_u64 (hub_next_id h) 1\<rparr>, hub_next_id h)"

definition register_peer :: "nat \<Rightarrow> string \<Rightarrow> direction \<Rightarrow> int \<Rightarrow> 'v gossip_hub \<Rightarrow> 'v gossip_hub" where
  "register_peer conn_id addr dir skew h = h\<lparr>hub_peers := AList.update conn_id
     \<lparr>pl_addr = addr, pl_direction = dir, pl_queue = [], pl_open = True, pl_clock_skew_sec = skew\<rparr> (hub_peers h)\<rparr>"

definition unregister_peer :: "nat \<Rightarrow> 'v gossip_hub \<Rightarrow> 'v gossip_hub" where
  "unregister_peer conn_id h = h\<lparr>hub_peers := AList.delete conn_id (hub_peers h)\<rparr>"

definition established_addrs :: "'v gossip_hub \<Rightarrow> string list" where
  "established_addrs h = map (pl_addr \<circ> snd) (hub_peers h)"

definition clock_skew_samples :: "'v gossip_hub \<Rightarrow> int list" where
  "clock_skew_samples h = map (pl_clock_skew_sec \<circ> snd) (hub_peers h)"

definition established_counts :: "'v gossip_hub \<Rightarrow> nat \<times> nat" where
  "established_counts h = fold (\<lambda>(i, l) (inbound, outbound). case pl_direction l of
       Inbound \<Rightarrow> (inbound + 1, outbound) | Outbound \<Rightarrow> (inbound, outbound + 1)) (hub_peers h) (0, 0)"

definition push :: "'v message \<Rightarrow> 'v peer_link \<Rightarrow> 'v peer_link" where
  "push m l = (if pl_open l then l\<lparr>pl_queue := pl_queue l @ [m]\<rparr> else l)"

definition broadcast_event ::
  "(event \<Rightarrow> 'v option) \<Rightarrow> 'v \<Rightarrow> event \<Rightarrow> nat option \<Rightarrow> 'v gossip_hub \<Rightarrow> 'v gossip_hub" where
  "broadcast_event to_value null ev exclude h = (let m = event_to_message to_value null ev in
     h\<lparr>hub_peers := map (\<lambda>(i, l). if Some i = exclude then (i, l) else (i, push m l)) (hub_peers h)\<rparr>)"

definition log_reject :: "verify_reject \<Rightarrow> string \<Rightarrow> log_call_args" where
  "log_reject reject source = (reject_category reject, source, reject_detail reject)"

definition hub_on_event ::
  "'k nostr \<Rightarrow> (event \<Rightarrow> 'v option) \<Rightarrow> 'v \<Rightarrow> string \<Rightarrow> string \<Rightarrow> nat \<Rightarrow> nat \<Rightarrow> nat \<Rightarrow> nat \<Rightarrow> 'v gossip_hub \<Rightarrow>
     'v gossip_hub \<times> log_call_args list" where
  "hub_on_event ns to_value null raw_json source conn_id now td ts h =
     (case ingest ns raw_json source now td ts (hub_state h) of (st, result) \<Rightarrow>
      let h = h\<lparr>hub_state := st\<rparr> in
      case result of
        Inr (Some ev) \<Rightarrow>
          let logs = (case listing_from_event ev of
                Inr l \<Rightarrow> if url_needs_warning (unwrap_or [] (cl_contact l))
                        then [(UrlWarning, source, ''contact url scheme is not http/https'')] else []
              | Inl _ \<Rightarrow> [])
          in (broadcast_event to_value null ev (Some conn_id) h, logs)
      | Inr None \<Rightarrow> (h, [])
      | Inl reject \<Rightarrow> (h, [log_reject reject source]))"

definition send_to :: "nat \<Rightarrow> 'v message \<Rightarrow> 'v gossip_hub \<Rightarrow> 'v gossip_hub \<times> bool" where
  "send_to conn_id m h = (case map_of (hub_peers h) conn_id of
     None \<Rightarrow> (h, False)
   | Some l \<Rightarrow> (h\<lparr>hub_peers := AList.update conn_id (push m l) (hub_peers h)\<rparr>, pl_open l))"

definition hub_publish_local ::
  "(event \<Rightarrow> 'v option) \<Rightarrow> 'v \<Rightarrow> event \<Rightarrow> nat \<Rightarrow> nat \<Rightarrow> 'v gossip_hub \<Rightarrow> 'v gossip_hub \<times> insert_outcome" where
  "hub_publish_local to_value null ev td ts h =
     (case ingest_publish_local ev td ts (hub_state h) of (st, outcome) \<Rightarrow>
      let h = h\<lparr>hub_state := st\<rparr> in
      if should_propagate outcome then (broadcast_event to_value null ev None h, outcome) else (h, outcome))"

definition sync_response ::
  "(event \<Rightarrow> 'v option) \<Rightarrow> 'v \<Rightarrow> int \<Rightarrow> nat \<Rightarrow> nat \<Rightarrow> 'v gossip_hub \<Rightarrow> 'v message list \<times> nat" where
  "sync_response to_value null since now ts h = (let events = sync_events since now ts (hub_state h) in
     (map (event_to_message to_value null) events, length events mod 2 ^ 32))"

definition hub_snapshot :: "nat \<Rightarrow> 'v gossip_hub \<Rightarrow> discovered_channel list" where
  "hub_snapshot ts h = ingest_snapshot (list_mutes (hub_db h)) ts (hub_state h)"

definition hub_sweep :: "nat \<Rightarrow> nat \<Rightarrow> 'v gossip_hub \<Rightarrow> 'v gossip_hub \<times> nat" where
  "hub_sweep ts ts' h = (case ingest_sweep ts ts' (hub_state h) of (st, n) \<Rightarrow> (h\<lparr>hub_state := st\<rparr>, n))"

subsection \<open>Who receives what\<close>

lemma map_of_broadcast:
  "map_of (hub_peers (broadcast_event to_value null ev exclude h)) i =
     map_option (\<lambda>l. if Some i = exclude then l else push (event_to_message to_value null ev) l) (map_of (hub_peers h) i)"
proof -
  have "map_of (map (\<lambda>(i, l). if Some i = exclude then (i, l) else (i, f l)) ps) i =
      map_option (\<lambda>l. if Some i = exclude then l else f l) (map_of ps i)"
    for f :: "'a peer_link \<Rightarrow> 'a peer_link" and ps
    by (induction ps) auto
  then show ?thesis by (simp add: broadcast_event_def Let_def)
qed



lemma established_counts_sum:
  "fst (established_counts h) + snd (established_counts h) = length (hub_peers h)"
proof -
  have "fst (fold (\<lambda>(i, l) (inbound, outbound). case pl_direction l of
       Inbound \<Rightarrow> (inbound + 1, outbound) | Outbound \<Rightarrow> (inbound, outbound + 1)) ps c) +
     snd (fold (\<lambda>(i, l) (inbound, outbound). case pl_direction l of
       Inbound \<Rightarrow> (inbound + 1, outbound) | Outbound \<Rightarrow> (inbound, outbound + 1)) ps c) =
     length ps + fst c + snd c" for ps :: "(nat \<times> 'a peer_link) list" and c :: "nat \<times> nat"
    by (induction ps arbitrary: c) (auto split: direction.splits)
  from this [of "hub_peers h" "(0, 0)"] show ?thesis by (simp add: established_counts_def)
qed

end
