(* ===== verification/P2p_Sync.thy ===== *)
theory P2p_Sync
  imports P2p_Session
begin

text \<open>
  Synchronisation at connection time (\<open>src/p2p/sync.rs\<close>): the requested start time, the paced
  sending of an answer, and the counter that bounds the answer a peer may send.

  Time in the paced sender is an exact rational number of seconds. Each turn of its loop takes the
  message, the time that passes before the turn (\<open>delay\<close>) and whether the connection still
  accepts messages; the result is the list of the messages sent with the times of sending.
\<close>

definition SYNC_SAFE_MSGS_PER_SEC :: nat where
  "SYNC_SAFE_MSGS_PER_SEC = 150"

definition SYNC_SAFE_BYTES_PER_SEC :: nat where
  "SYNC_SAFE_BYTES_PER_SEC = 192 * 1024"

definition sync_req_since :: "nat \<Rightarrow> nat \<Rightarrow> int" where
  "sync_req_since now window = u64_as_i64 (now - window)"

definition est_wire_bytes :: "('v message \<Rightarrow> bytes option) \<Rightarrow> 'v message \<Rightarrow> nat" where
  "est_wire_bytes to_vec m = (case to_vec m of None \<Rightarrow> 4 | Some v \<Rightarrow> length v + 4)"

record pacer =
  pc_now :: rat
  pc_window_start :: rat
  pc_msgs :: nat
  pc_bytes :: nat

record 'v turn =
  tu_message :: "'v message"
  tu_delay :: rat
  tu_open :: bool

text \<open>The wait at the top of a turn: a new window begins when the next message would exceed the
  budget of the current one, and not before a second has passed.\<close>

definition pace_wait :: "nat \<Rightarrow> pacer \<Rightarrow> pacer" where
  "pace_wait sz p =
     (if pc_msgs p + 1 > SYNC_SAFE_MSGS_PER_SEC \<or> pc_bytes p + sz > SYNC_SAFE_BYTES_PER_SEC then
        (let elapsed = pc_now p - pc_window_start p;
             now = (if elapsed < 1 then pc_now p + (1 - elapsed) else pc_now p)
         in p\<lparr>pc_now := now, pc_window_start := now, pc_msgs := 0, pc_bytes := 0\<rparr>)
      else p)"

fun stream_turns ::
  "('v message \<Rightarrow> bytes option) \<Rightarrow> nat \<Rightarrow> 'v turn list \<Rightarrow> pacer \<Rightarrow> (rat \<times> 'v message) list" where
  "stream_turns to_vec n [] p = [(pc_now p, SyncDone n)]"
| "stream_turns to_vec n (t # ts) p =
     (let sz = est_wire_bytes to_vec (tu_message t);
          p = pace_wait sz (p\<lparr>pc_now := pc_now p + tu_delay t\<rparr>)
      in if \<not> tu_open t then []
         else (pc_now p, tu_message t) #
           stream_turns to_vec n ts (p\<lparr>pc_msgs := pc_msgs p + 1, pc_bytes := pc_bytes p + sz\<rparr>))"

definition stream_sync_response ::
  "('v message \<Rightarrow> bytes option) \<Rightarrow> nat \<Rightarrow> rat \<Rightarrow> 'v turn list \<Rightarrow> (rat \<times> 'v message) list" where
  "stream_sync_response to_vec n start ts = stream_turns to_vec n ts
     \<lparr>pc_now = start, pc_window_start = start, pc_msgs = 0, pc_bytes = 0\<rparr>"

record sync_counter =
  sc_pending :: bool
  sc_received :: nat
  sc_max :: nat

definition sync_counter_new :: "nat \<Rightarrow> sync_counter" where
  "sync_counter_new n = \<lparr>sc_pending = False, sc_received = 0, sc_max = n\<rparr>"

definition sync_begin :: "sync_counter \<Rightarrow> sync_counter" where
  "sync_begin c = c\<lparr>sc_pending := True, sc_received := 0\<rparr>"

definition sync_on_event :: "sync_counter \<Rightarrow> sync_counter \<times> bool" where
  "sync_on_event c = (if \<not> sc_pending c then (c, False)
     else let c = c\<lparr>sc_received := sc_received c + 1\<rparr> in (c, sc_received c > sc_max c))"

definition sync_on_done :: "sync_counter \<Rightarrow> sync_counter" where
  "sync_on_done c = c\<lparr>sc_pending := False\<rparr>"

subsection \<open>Lemmas\<close>

text \<open>\<open>n\<close> events received after the request: the results of the calls.\<close>

fun sync_events_results :: "nat \<Rightarrow> sync_counter \<Rightarrow> bool list" where
  "sync_events_results 0 c = []"
| "sync_events_results (Suc n) c = (case sync_on_event c of (c', over) \<Rightarrow> over # sync_events_results n c')"

lemma sync_results:
  "sc_pending c \<Longrightarrow> sync_events_results n c = map (\<lambda>i. sc_received c + i + 1 > sc_max c) [0..<n]"
proof (induction n arbitrary: c)
  case (Suc n)
  have "map (\<lambda>i. sc_received c + i + 1 > sc_max c) [0..<Suc n] =
      (sc_received c + 1 > sc_max c) # map (\<lambda>i. sc_received c + Suc i + 1 > sc_max c) [0..<n]"
    unfolding upt_conv_Cons [OF zero_less_Suc] by (simp add: map_Suc_upt [symmetric] comp_def del: map_Suc_upt upt_Suc)
  with Suc show ?case by (simp add: sync_on_event_def Let_def del: upt_Suc)
qed simp

text \<open>A peer cannot answer a synchronisation request with more events than the store holds. The
  counter first reports the excess at event number maximum plus one after the request, and never
  when no request is pending.\<close>

theorem sync_counter_exact:
  "sync_events_results n (sync_begin c) = map (\<lambda>i. sc_max c < i) [1..<n + 1] \<and>
   snd (sync_on_event (sync_on_done c)) = False"
proof -
  have "sync_events_results n (sync_begin c) = map (\<lambda>i. sc_max c < Suc i) [0..<n]"
    by (simp add: sync_results sync_begin_def)
  also have "\<dots> = map (\<lambda>i. sc_max c < i) (map Suc [0..<n])" by (simp add: comp_def)
  also have "\<dots> = map (\<lambda>i. sc_max c < i) [1..<n + 1]" by (simp only: map_Suc_upt) simp
  finally show ?thesis by (simp add: sync_on_event_def sync_on_done_def)
qed

text \<open>The budget of a pacing window is never exceeded, except by a single message that alone is
  larger than the byte budget.\<close>

definition pacer_ok :: "pacer \<Rightarrow> bool" where
  "pacer_ok p \<longleftrightarrow> pc_msgs p \<le> SYNC_SAFE_MSGS_PER_SEC \<and> (pc_msgs p \<le> 1 \<or> pc_bytes p \<le> SYNC_SAFE_BYTES_PER_SEC)"

lemma pacer_ok_turn:
  "pacer_ok p \<Longrightarrow> pacer_ok (let p = pace_wait sz (p\<lparr>pc_now := t\<rparr>) in p\<lparr>pc_msgs := pc_msgs p + 1, pc_bytes := pc_bytes p + sz\<rparr>)"
  by (auto simp: pacer_ok_def pace_wait_def Let_def SYNC_SAFE_MSGS_PER_SEC_def)

text \<open>A new pacing window begins at least a second after the previous one.\<close>

lemma pace_wait_restart:
  "pc_window_start (pace_wait sz p) \<noteq> pc_window_start p \<Longrightarrow> pc_window_start p + 1 \<le> pc_window_start (pace_wait sz p)"
  by (auto simp: pace_wait_def Let_def split: if_splits)

subsection \<open>Pacing and the receiver's limiter\<close>

text \<open>What the receiver's limiter says to a sequence of frames with their arrival times.\<close>

fun limiter_admits :: "(rat \<times> nat) list \<Rightarrow> rate_limiter \<Rightarrow> bool list" where
  "limiter_admits [] rl = []"
| "limiter_admits (c # cs) rl = (case limiter_charge c rl of (rl', ok) \<Rightarrow> ok # limiter_admits cs rl')"

definition big_event :: "unit message \<Rightarrow> bytes option" where
  "big_event m = Some (replicate 59996 0)"

lemma est_big_event [simp]: "est_wire_bytes big_event m = 60000"
  by (simp only: est_wire_bytes_def big_event_def option.case length_replicate)

lemma turn_within:
  assumes "tu_open t" and "est_wire_bytes to_vec (tu_message t) = sz"
    and "m + 1 \<le> SYNC_SAFE_MSGS_PER_SEC" and "b + sz \<le> SYNC_SAFE_BYTES_PER_SEC"
  shows "stream_turns to_vec n (t # ts) \<lparr>pc_now = a, pc_window_start = w, pc_msgs = m, pc_bytes = b\<rparr> =
    (a + tu_delay t, tu_message t) # stream_turns to_vec n ts
      \<lparr>pc_now = a + tu_delay t, pc_window_start = w, pc_msgs = m + 1, pc_bytes = b + sz\<rparr>"
  using assms by (simp add: pace_wait_def)

lemma turn_new_window:
  assumes "tu_open t" and "est_wire_bytes to_vec (tu_message t) = sz"
    and "SYNC_SAFE_BYTES_PER_SEC < b + sz" and "a + tu_delay t < w + 1"
  shows "stream_turns to_vec n (t # ts) \<lparr>pc_now = a, pc_window_start = w, pc_msgs = m, pc_bytes = b\<rparr> =
    (w + 1, tu_message t) # stream_turns to_vec n ts
      \<lparr>pc_now = w + 1, pc_window_start = w + 1, pc_msgs = 1, pc_bytes = sz\<rparr>"
  using assms by (simp add: pace_wait_def Let_def add.commute)

lemma admits_restart:
  "\<not> i \<or> 1 \<le> t - w \<Longrightarrow>
   limiter_admits ((t, n) # cs) \<lparr>rl_window_start = w, rl_bytes = b, rl_msgs = m, rl_max_bytes = mb, rl_max_msgs = mm, rl_initialized = i\<rparr> =
     (1 \<le> mm \<and> n \<le> mb) # limiter_admits cs \<lparr>rl_window_start = t, rl_bytes = n, rl_msgs = 1, rl_max_bytes = mb, rl_max_msgs = mm, rl_initialized = True\<rparr>"
  by (auto simp: limiter_charge_eq limiter_restarts_def Let_def)

lemma admits_same:
  "t - w < 1 \<Longrightarrow>
   limiter_admits ((t, n) # cs) \<lparr>rl_window_start = w, rl_bytes = b, rl_msgs = m, rl_max_bytes = mb, rl_max_msgs = mm, rl_initialized = True\<rparr> =
     (m + 1 \<le> mm \<and> b + n \<le> mb) # limiter_admits cs \<lparr>rl_window_start = w, rl_bytes = b + n, rl_msgs = m + 1, rl_max_bytes = mb, rl_max_msgs = mm, rl_initialized = True\<rparr>"
  by (auto simp: limiter_charge_eq limiter_restarts_def Let_def)

definition slow_turns :: "unit turn list" where
  "slow_turns = map (\<lambda>d. \<lparr>tu_message = EventMsg (), tu_delay = d, tu_open = True\<rparr>) [0, 6/10, 3/10, 0, 0, 0]"

text \<open>The pacing of a synchronisation answer does not protect it from the receiver's limiter.
  Both sides count in fixed one-second windows, and a receiver's window can overlap two windows of
  the sender. Here six events of 60000 bytes are sent within the sender's budget of 196608 bytes
  per window, without any delay in the network; the receiver, whose window began half a second
  earlier with a small frame, admits five of them and refuses the sixth, which disconnects the
  peer in the middle of a legitimate answer.\<close>

theorem paced_answer_disconnected:
  "map fst (stream_sync_response big_event 6 0 slow_turns) = [0, 6/10, 9/10, 1, 1, 1, 1] \<and>
   limiter_admits ((- (1/2), 100) # map (\<lambda>(t, m). (t, est_wire_bytes big_event m))
       (butlast (stream_sync_response big_event 6 0 slow_turns)))
     (rate_limiter_new DEFAULT_MAX_BYTES_PER_SEC DEFAULT_MAX_MSGS_PER_SEC)
   = [True, True, True, True, True, True, False]"
proof -
  have run: "stream_sync_response big_event 6 0 slow_turns =
      [(0, EventMsg ()), (6/10, EventMsg ()), (9/10, EventMsg ()), (1, EventMsg ()), (1, EventMsg ()), (1, EventMsg ()), (1, SyncDone 6)]"
    by (simp add: stream_sync_response_def slow_turns_def turn_within turn_new_window
        SYNC_SAFE_MSGS_PER_SEC_def SYNC_SAFE_BYTES_PER_SEC_def del: stream_turns.simps(2))
  show ?thesis
    by (simp add: run admits_restart admits_same rate_limiter_new_def
        DEFAULT_MAX_BYTES_PER_SEC_def DEFAULT_MAX_MSGS_PER_SEC_def del: limiter_admits.simps(2))
qed

end
