(* ===== verification/P2p_Peers.thy ===== *)
theory P2p_Peers
  imports Complex_Main Store_Db Std_Net Time_Windows
begin

text \<open>
  Peer management (\<open>src/p2p/peers.rs\<close>): the validation and canonical form of peer addresses, the
  registration of peers in the store, the choice of candidates, the accounting of connection
  slots, the backoff and the reachability flag. The connection state of the manager is a record;
  the store is part of it. Monotonic time in seconds is an exact rational.

  The lemmas show that the canonical form of an address is a fixed point of the parser, so that it
  can serve as a key; that the candidate list is the sorted list of exactly the peers that may be
  dialled; that connection slots are bounded and never shared; that unverified candidates are
  dialled at most once per interval; and that the backoff loop computes the documented formula.
\<close>

definition DEFAULT_OUTBOUND_TARGET :: nat where
  "DEFAULT_OUTBOUND_TARGET = 8"

definition DEFAULT_INBOUND_MAX :: nat where
  "DEFAULT_INBOUND_MAX = 32"

definition DEFAULT_FAIL_DEMOTE_THRESHOLD :: int where
  "DEFAULT_FAIL_DEMOTE_THRESHOLD = 8"

definition DEFAULT_BACKOFF_INITIAL_SECS :: nat where
  "DEFAULT_BACKOFF_INITIAL_SECS = 5"

definition DEFAULT_BACKOFF_FACTOR :: nat where
  "DEFAULT_BACKOFF_FACTOR = 2"

definition DEFAULT_BACKOFF_CAP_SECS :: nat where
  "DEFAULT_BACKOFF_CAP_SECS = 300"

definition DEFAULT_NEW_CANDIDATE_MIN_INTERVAL_SECS :: rat where
  "DEFAULT_NEW_CANDIDATE_MIN_INTERVAL_SECS = 1"

subsection \<open>Addresses\<close>

datatype addr_error =
  AddrEmpty | AddrTooLongErr | MissingPort | InvalidPort | AmbiguousColons | InvalidIpv6 | InvalidHost

record peer_addr =
  pa_host :: string
  pa_port :: nat
  pa_is_ipv6 :: bool
  pa_is_hostname :: bool

definition canonical :: "peer_addr \<Rightarrow> string" where
  "canonical p = (if pa_is_ipv6 p then ''['' @ pa_host p @ '']:'' @ show_nat (pa_port p)
     else pa_host p @ '':'' @ show_nat (pa_port p))"

definition from_socket_addr :: "socket_addr \<Rightarrow> peer_addr" where
  "from_socket_addr sa = \<lparr>pa_host = show_ip (socket_ip sa), pa_port = socket_port sa,
     pa_is_ipv6 = (case sa of SocketV4 _ _ \<Rightarrow> False | SocketV6 _ _ _ \<Rightarrow> True), pa_is_hostname = False\<rparr>"

definition HOSTNAME_MAX_LEN :: nat where
  "HOSTNAME_MAX_LEN = 253"

definition HOSTNAME_LABEL_MAX_LEN :: nat where
  "HOSTNAME_LABEL_MAX_LEN = 63"

definition parse_port :: "string \<Rightarrow> addr_error + nat" where
  "parse_port s = and_then (ok_or (parse_uint 65535 s) InvalidPort) (\<lambda>port.
     if port = 0 then Inl InvalidPort else Inr port)"

definition is_alnum_byte :: "char \<Rightarrow> bool" where
  "is_alnum_byte c \<longleftrightarrow> (let b = byte_of c :: nat in
     48 \<le> b \<and> b \<le> 57 \<or> 65 \<le> b \<and> b \<le> 90 \<or> 97 \<le> b \<and> b \<le> 122)"

definition label_ok :: "string \<Rightarrow> bool" where
  "label_ok l \<longleftrightarrow> l \<noteq> [] \<and> length l \<le> HOSTNAME_LABEL_MAX_LEN \<and> hd l \<noteq> CHR ''-'' \<and> last l \<noteq> CHR ''-'' \<and>
     list_all (\<lambda>c. is_alnum_byte c \<or> c = CHR ''-'') l"

definition validate_hostname :: "string \<Rightarrow> addr_error + string" where
  "validate_hostname host =
     (if \<not> list_all (\<lambda>c. byte_of c < (128 :: nat)) host \<or> length host > HOSTNAME_MAX_LEN then Inl InvalidHost
      else if \<not> list_all label_ok (split_at CHR ''.'' host) then Inl InvalidHost
      else Inr (to_ascii_lowercase host))"

definition strip_last_dot :: "string \<Rightarrow> string" where
  "strip_last_dot host = (if host \<noteq> [] \<and> last host = CHR ''.'' then butlast host else host)"

definition parse_addr :: "string \<Rightarrow> addr_error + peer_addr" where
  "parse_addr input =
     (if input = [] then Inl AddrEmpty
      else if length input > ADDR_MAX_LEN then Inl AddrTooLongErr
      else if hd input = CHR ''['' then
        (let rest = tl input; inner = takeWhile (\<lambda>c. c \<noteq> CHR '']'') rest in
         if length inner = length rest then Inl InvalidIpv6
         else case drop (length inner + 1) rest of
             [] \<Rightarrow> Inl MissingPort
           | c # port_str \<Rightarrow>
               if c \<noteq> CHR '':'' then Inl MissingPort
               else and_then (parse_port port_str) (\<lambda>port.
                 and_then (ok_or (parse_with read_ipv6_addr inner) InvalidIpv6) (\<lambda>ip.
                   Inr \<lparr>pa_host = show_ipv6 ip, pa_port = port, pa_is_ipv6 = True, pa_is_hostname = False\<rparr>)))
      else if CHR '':'' \<notin> set input then Inl MissingPort
      else if length (filter (\<lambda>c. c = CHR '':'') input) > 1 then Inl AmbiguousColons
      else
        let host = takeWhile (\<lambda>c. c \<noteq> CHR '':'') input; port_str = drop (length host + 1) input in
        if host = [] then Inl InvalidHost
        else and_then (parse_port port_str) (\<lambda>port.
          let host = strip_last_dot host in
          if host = [] then Inl InvalidHost
          else case parse_ipv4_addr host of
              Some v4 \<Rightarrow> Inr \<lparr>pa_host = show_ipv4 v4, pa_port = port, pa_is_ipv6 = False, pa_is_hostname = False\<rparr>
            | None \<Rightarrow> and_then (validate_hostname host) (\<lambda>host.
                Inr \<lparr>pa_host = host, pa_port = port, pa_is_ipv6 = False, pa_is_hostname = True\<rparr>)))"

subsection \<open>Manager\<close>

record peer_manager_config =
  outbound_target :: nat
  inbound_max :: nat
  fail_demote_threshold :: int
  backoff_initial_secs :: nat
  backoff_factor :: nat
  backoff_cap_secs :: nat
  new_candidate_min_interval_secs :: rat

definition default_peer_manager_config :: peer_manager_config where
  "default_peer_manager_config = \<lparr>outbound_target = DEFAULT_OUTBOUND_TARGET, inbound_max = DEFAULT_INBOUND_MAX,
     fail_demote_threshold = DEFAULT_FAIL_DEMOTE_THRESHOLD, backoff_initial_secs = DEFAULT_BACKOFF_INITIAL_SECS,
     backoff_factor = DEFAULT_BACKOFF_FACTOR, backoff_cap_secs = DEFAULT_BACKOFF_CAP_SECS,
     new_candidate_min_interval_secs = DEFAULT_NEW_CANDIDATE_MIN_INTERVAL_SECS\<rparr>"

datatype peer_error = AddrErr addr_error | SelfAddressErr | StoreErr store_error

datatype candidate_mode = NormalMode | AllUnreachable

datatype outbound_outcome = Started | OutAlreadyActive | OutSelfAddress | Throttled

datatype inbound_outcome = InAccepted | InAlreadyActive | AtCapacity

record peer_manager =
  pm_db :: db
  pm_config :: peer_manager_config
  pm_self_addrs :: "string set"
  pm_outbound :: "string set"
  pm_inbound :: "string set"
  pm_last_new_dial :: "rat option"

definition peer_manager_new :: "db \<Rightarrow> peer_manager_config \<Rightarrow> peer_manager" where
  "peer_manager_new d config = \<lparr>pm_db = d, pm_config = config, pm_self_addrs = {}, pm_outbound = {},
     pm_inbound = {}, pm_last_new_dial = None\<rparr>"

definition add_self_addr :: "string \<Rightarrow> peer_manager \<Rightarrow> peer_manager" where
  "add_self_addr addr m = (case parse_addr addr of Inl _ \<Rightarrow> m
     | Inr p \<Rightarrow> m\<lparr>pm_self_addrs := insert (canonical p) (pm_self_addrs m)\<rparr>)"

definition is_self_addr :: "string \<Rightarrow> peer_manager \<Rightarrow> bool" where
  "is_self_addr c m \<longleftrightarrow> c \<in> pm_self_addrs m"

definition note_self_connect :: "string \<Rightarrow> peer_manager \<Rightarrow> peer_manager \<times> bool" where
  "note_self_connect addr m = (case parse_addr addr of Inl _ \<Rightarrow> (m, False)
     | Inr p \<Rightarrow> (case delete_peer (canonical p) (pm_db m) of (d, deleted) \<Rightarrow>
         (m\<lparr>pm_self_addrs := insert (canonical p) (pm_self_addrs m), pm_db := d\<rparr>, deleted)))"

definition add_peer ::
  "int \<Rightarrow> int \<Rightarrow> string \<Rightarrow> peer_source \<Rightarrow> peer_manager \<Rightarrow> peer_manager \<times> (peer_error + peer_endpoint)" where
  "add_peer now rowid addr source m = (case parse_addr addr of Inl e \<Rightarrow> (m, Inl (AddrErr e))
     | Inr p \<Rightarrow>
         if is_self_addr (canonical p) m then (m, Inl SelfAddressErr)
         else case upsert_peer now rowid (canonical p) source (pm_db m) of
             (d, Inl e) \<Rightarrow> (m\<lparr>pm_db := d\<rparr>, Inl (StoreErr e))
           | (d, Inr row) \<Rightarrow> (m\<lparr>pm_db := d\<rparr>, Inr row))"

text \<open>The operations on a registered peer look it up under its canonical address.\<close>

definition on_peer ::
  "(string \<Rightarrow> db \<Rightarrow> db \<times> 'a) \<Rightarrow> string \<Rightarrow> peer_manager \<Rightarrow> peer_manager \<times> (peer_error + 'a)" where
  "on_peer f addr m = (case parse_addr addr of Inl e \<Rightarrow> (m, Inl (AddrErr e))
     | Inr p \<Rightarrow> (case f (canonical p) (pm_db m) of (d, x) \<Rightarrow> (m\<lparr>pm_db := d\<rparr>, Inr x)))"

definition manager_get_peer :: "string \<Rightarrow> peer_manager \<Rightarrow> peer_error + peer_endpoint option" where
  "manager_get_peer addr m = snd (on_peer (\<lambda>a d. (d, get_peer a d)) addr m)"

definition manager_set_enabled :: "string \<Rightarrow> bool \<Rightarrow> peer_manager \<Rightarrow> peer_manager \<times> (peer_error + bool)" where
  "manager_set_enabled addr enabled = on_peer (\<lambda>a. set_peer_enabled a enabled) addr"

definition remove_peer :: "string \<Rightarrow> peer_manager \<Rightarrow> peer_manager \<times> (peer_error + bool)" where
  "remove_peer = on_peer delete_peer"

definition record_success :: "string \<Rightarrow> int \<Rightarrow> peer_manager \<Rightarrow> peer_manager \<times> (peer_error + bool)" where
  "record_success addr now = on_peer (\<lambda>a. record_peer_success a now) addr"

definition record_resolved_ip :: "string \<Rightarrow> string \<Rightarrow> peer_manager \<Rightarrow> peer_manager \<times> (peer_error + bool)" where
  "record_resolved_ip addr ip = on_peer (\<lambda>a. set_peer_resolved_ip a ip) addr"

definition record_failure :: "string \<Rightarrow> peer_manager \<Rightarrow> peer_manager \<times> (peer_error + int option)" where
  "record_failure = on_peer record_peer_failure"

definition is_demoted :: "int \<Rightarrow> peer_manager \<Rightarrow> bool" where
  "is_demoted fail_count m \<longleftrightarrow> fail_count \<ge> fail_demote_threshold (pm_config m)"


subsection \<open>Candidates\<close>

definition I64_MIN :: int where
  "I64_MIN = - (2 ^ 63)"

definition manual_rank :: "peer_endpoint \<Rightarrow> nat" where
  "manual_rank p = (if pe_source p = Manual then 0 else 1)"

definition last_ok :: "peer_endpoint \<Rightarrow> int" where
  "last_ok p = unwrap_or I64_MIN (pe_last_ok_at p)"

definition cmp_base :: "peer_endpoint \<Rightarrow> peer_endpoint \<Rightarrow> ordering" where
  "cmp_base a b = then_with (then_with (then_with (cmp (manual_rank a) (manual_rank b))
     (cmp (last_ok b) (last_ok a))) (cmp (pe_fail_count a) (pe_fail_count b))) (cmp (pe_id a) (pe_id b))"

definition demoted_rank :: "peer_manager \<Rightarrow> peer_endpoint \<Rightarrow> nat" where
  "demoted_rank m p = (if pe_fail_count p \<ge> fail_demote_threshold (pm_config m) then 1 else 0)"

definition cmp_candidates :: "candidate_mode \<Rightarrow> peer_manager \<Rightarrow> peer_endpoint \<Rightarrow> peer_endpoint \<Rightarrow> ordering" where
  "cmp_candidates mode m a b = (if mode = NormalMode then
     (case cmp (demoted_rank m a) (demoted_rank m b) of OrdEqual \<Rightarrow> cmp_base a b | non_eq \<Rightarrow> non_eq)
     else cmp_base a b)"

definition dialable :: "peer_manager \<Rightarrow> peer_endpoint \<Rightarrow> bool" where
  "dialable m p \<longleftrightarrow> pe_enabled p \<and> pe_addr p \<notin> pm_self_addrs m \<and>
     pe_addr p \<notin> pm_outbound m \<union> pm_inbound m \<and> \<not> isl (parse_addr (pe_addr p))"

definition candidates :: "candidate_mode \<Rightarrow> peer_manager \<Rightarrow> peer_endpoint list" where
  "candidates mode m = sort_by (\<lambda>a b. cmp_candidates mode m a b = OrdLess) (filter (dialable m) (list_peers (pm_db m)))"

subsection \<open>Connection slots\<close>

definition outbound_count :: "peer_manager \<Rightarrow> nat" where
  "outbound_count m = card (pm_outbound m)"

definition inbound_count :: "peer_manager \<Rightarrow> nat" where
  "inbound_count m = card (pm_inbound m)"

definition outbound_deficit :: "peer_manager \<Rightarrow> nat" where
  "outbound_deficit m = outbound_target (pm_config m) - outbound_count m"

definition begin_outbound :: "rat \<Rightarrow> string \<Rightarrow> bool \<Rightarrow> peer_manager \<Rightarrow> peer_manager \<times> outbound_outcome" where
  "begin_outbound now addr verified m = (case parse_addr addr of Inl _ \<Rightarrow> (m, OutSelfAddress)
     | Inr p \<Rightarrow> let c = canonical p in
         if c \<in> pm_self_addrs m then (m, OutSelfAddress)
         else if c \<in> pm_outbound m \<or> c \<in> pm_inbound m then (m, OutAlreadyActive)
         else if verified then (m\<lparr>pm_outbound := insert c (pm_outbound m)\<rparr>, Started)
         else if (case pm_last_new_dial m of None \<Rightarrow> False
             | Some t \<Rightarrow> now - t < new_candidate_min_interval_secs (pm_config m)) then (m, Throttled)
         else (m\<lparr>pm_last_new_dial := Some now, pm_outbound := insert c (pm_outbound m)\<rparr>, Started))"

definition end_outbound :: "string \<Rightarrow> peer_manager \<Rightarrow> peer_manager" where
  "end_outbound addr m = (case parse_addr addr of Inl _ \<Rightarrow> m
     | Inr p \<Rightarrow> m\<lparr>pm_outbound := pm_outbound m - {canonical p}\<rparr>)"

text \<open>An inbound address that does not parse is accounted under its raw text.\<close>

definition inbound_key :: "string \<Rightarrow> string" where
  "inbound_key addr = (case parse_addr addr of Inl _ \<Rightarrow> addr | Inr p \<Rightarrow> canonical p)"

definition begin_inbound :: "string \<Rightarrow> peer_manager \<Rightarrow> peer_manager \<times> inbound_outcome" where
  "begin_inbound addr m = (let c = inbound_key addr in
     if c \<in> pm_inbound m \<or> c \<in> pm_outbound m then (m, InAlreadyActive)
     else if inbound_count m \<ge> inbound_max (pm_config m) then (m, AtCapacity)
     else (m\<lparr>pm_inbound := insert c (pm_inbound m)\<rparr>, InAccepted))"

definition end_inbound :: "string \<Rightarrow> peer_manager \<Rightarrow> peer_manager" where
  "end_inbound addr m = m\<lparr>pm_inbound := pm_inbound m - {inbound_key addr}\<rparr>"

subsection \<open>Backoff\<close>

fun backoff_loop :: "nat \<Rightarrow> nat \<Rightarrow> nat \<Rightarrow> nat \<Rightarrow> nat" where
  "backoff_loop factor cap 0 delay = min delay cap"
| "backoff_loop factor cap (Suc n) delay =
     (let delay = saturating_mul_u64 delay factor in
      if delay \<ge> cap then cap else backoff_loop factor cap n delay)"

definition backoff_delay_secs :: "nat \<Rightarrow> peer_manager_config \<Rightarrow> nat" where
  "backoff_delay_secs failures c = (if failures = 0 then 0
     else backoff_loop (backoff_factor c) (backoff_cap_secs c) (failures - 1) (backoff_initial_secs c))"

subsection \<open>Reachability\<close>

text \<open>\<open>Notify::notify_one\<close> stores at most one permit; \<open>notified\<close> takes it, and waits (no
  result) when there is none.\<close>

record reachability_state =
  rs_all_unreachable :: bool
  rs_permit :: bool

definition reachability_new :: reachability_state where
  "reachability_new = \<lparr>rs_all_unreachable = False, rs_permit = False\<rparr>"

definition mark_reachable :: "reachability_state \<Rightarrow> reachability_state" where
  "mark_reachable r = (if rs_all_unreachable r then r\<lparr>rs_all_unreachable := False, rs_permit := True\<rparr> else r)"

definition mark_all_unreachable :: "reachability_state \<Rightarrow> reachability_state" where
  "mark_all_unreachable r = r\<lparr>rs_all_unreachable := True\<rparr>"

definition recovered :: "reachability_state \<Rightarrow> reachability_state option" where
  "recovered r = (if rs_permit r then Some (r\<lparr>rs_permit := False\<rparr>) else None)"

subsection \<open>The canonical form is a fixed point of the parser\<close>

lemma parse_port_Inr:
  assumes "parse_port s = Inr n"
  shows "0 < n" "n \<le> 65535" "parse_port (show_nat n) = Inr n" "length (show_nat n) \<le> length s"
proof -
  from assms have n: "parse_uint 65535 s = Some n" "0 < n"
    by (auto simp: parse_port_def and_then_Inr_iff ok_or_Inr_iff split: if_splits)
  show "0 < n" and le: "n \<le> 65535" using n parse_uint_le by auto
  with n(2) show "parse_port (show_nat n) = Inr n" by (simp add: parse_port_def parse_uint_show)
  from n(1) obtain ds where "ds \<noteq> []" "list_all is_ascii_digit ds" "n = digits_value ds" "length ds \<le> length s"
    by (auto simp: parse_uint_def Let_def split: if_splits list.splits)
  then show "length (show_nat n) \<le> length s"
    using length_show_nat_le [of n "length ds"] digits_value_less [of ds] by fastforce
qed

lemma digits_no_colon: "CHR '':'' \<notin> set (show_nat n)"
  using show_nat_digits [of n] by (auto simp: list_all_iff is_ascii_digit_iff)

lemma parse_addr_plain:
  assumes "host \<noteq> []" "hd host \<noteq> CHR ''[''" "CHR '':'' \<notin> set host" "last host \<noteq> CHR ''.''"
    and "parse_port (show_nat port) = Inr port" "length (host @ '':'' @ show_nat port) \<le> ADDR_MAX_LEN"
  shows "parse_addr (host @ '':'' @ show_nat port) = (case parse_ipv4_addr host of
      Some v4 \<Rightarrow> Inr \<lparr>pa_host = show_ipv4 v4, pa_port = port, pa_is_ipv6 = False, pa_is_hostname = False\<rparr>
    | None \<Rightarrow> and_then (validate_hostname host) (\<lambda>host.
        Inr \<lparr>pa_host = host, pa_port = port, pa_is_ipv6 = False, pa_is_hostname = True\<rparr>))"
proof -
  let ?s = "host @ '':'' @ show_nat port"
  have "filter (\<lambda>c. c = CHR '':'') host = []" "filter (\<lambda>c. c = CHR '':'') (show_nat port) = []"
    using assms(3) digits_no_colon by (auto simp: filter_empty_conv)
  moreover have "takeWhile (\<lambda>c. c \<noteq> CHR '':'') ?s = host"
    using assms(3) by (subst takeWhile_append2) auto
  ultimately show ?thesis using assms by (simp add: parse_addr_def strip_last_dot_def Let_def)
qed

lemma parse_addr_bracket:
  assumes "CHR '']'' \<notin> set inner" and "parse_port (show_nat port) = Inr port"
    and "length (''['' @ inner @ '']:'' @ show_nat port) \<le> ADDR_MAX_LEN"
    and "parse_with read_ipv6_addr inner = Some ip"
  shows "parse_addr (''['' @ inner @ '']:'' @ show_nat port) =
    Inr \<lparr>pa_host = show_ipv6 ip, pa_port = port, pa_is_ipv6 = True, pa_is_hostname = False\<rparr>"
proof -
  have "takeWhile (\<lambda>c. c \<noteq> CHR '']'') (inner @ '']:'' @ show_nat port) = inner"
    using assms(1) by (subst takeWhile_append2) auto
  with assms(2-) show ?thesis by (simp add: parse_addr_def Let_def)
qed

text \<open>Hostnames are closed under lower case.\<close>

lemma ascii_lower_eq: "byte_of d < (65 :: nat) \<Longrightarrow> ascii_lower c = d \<longleftrightarrow> c = d"
proof
  assume d: "byte_of d < (65 :: nat)" "ascii_lower c = d"
  then have "\<not> (65 \<le> byte_of c \<and> byte_of c \<le> (90 :: nat))" using byte_lower [of c] by auto
  with d(2) show "c = d" by (simp add: ascii_lower_def less_eq_char_def)
qed (simp add: ascii_lower_def less_eq_char_def)

lemma ascii_lower_idem: "ascii_lower (ascii_lower c) = ascii_lower c"
proof -
  have "\<not> (65 \<le> byte_of (ascii_lower c) \<and> byte_of (ascii_lower c) \<le> (90 :: nat))" by (auto simp: byte_lower)
  then show ?thesis unfolding ascii_lower_def [of "ascii_lower c"] less_eq_char_def by auto
qed

lemma split_at_lower: "split_at CHR ''.'' (map ascii_lower s) = map (map ascii_lower) (split_at CHR ''.'' s)"
  by (induction s) (auto simp: ascii_lower_eq split: list.splits)

lemma label_ok_lower: "label_ok (map ascii_lower l) \<longleftrightarrow> label_ok l"
proof -
  have a: "is_alnum_byte (ascii_lower c) \<longleftrightarrow> is_alnum_byte c" for c
    by (auto simp: is_alnum_byte_def byte_lower Let_def)
  show ?thesis by (cases l) (auto simp: label_ok_def hd_map last_map ascii_lower_eq a list_all_iff)
qed

lemma validate_hostname_lower:
  assumes "validate_hostname host = Inr h"
  shows "h = map ascii_lower host" "validate_hostname h = Inr h"
proof -
  show h: "h = map ascii_lower host"
    using assms by (auto simp: validate_hostname_def to_ascii_lowercase_map split: if_splits)
  have b: "byte_of (ascii_lower c) < (128 :: nat) \<longleftrightarrow> byte_of c < (128 :: nat)" for c by (auto simp: byte_lower)
  from assms show "validate_hostname h = Inr h"
    by (auto simp: validate_hostname_def h split_at_lower label_ok_lower to_ascii_lowercase_map ascii_lower_idem b list_all_iff
        split: if_splits)
qed

lemma valid_hostname_shape:
  assumes "validate_hostname h = Inr h'"
  shows "CHR '':'' \<notin> set h" "h \<noteq> []" "hd h \<noteq> CHR ''[''" "last h \<noteq> CHR ''.''"
proof -
  have ok: "\<And>l. l \<in> set (split_at CHR ''.'' h) \<Longrightarrow> label_ok l"
    using assms by (auto simp: validate_hostname_def list_all_iff split: if_splits)
  have c: "c = CHR ''.'' \<or> c = CHR ''-'' \<or> is_alnum_byte c" if "c \<in> set h" for c
    using split_at_members [OF that, of "CHR ''.''"] ok by (auto simp: label_ok_def list_all_iff)
  show "CHR '':'' \<notin> set h" using c [of "CHR '':''"] by (auto simp: is_alnum_byte_def)
  show n: "h \<noteq> []" using ok [of "[]"] by (auto simp: label_ok_def)
  show "hd h \<noteq> CHR ''[''" using c [OF hd_in_set [OF n]] by (auto simp: is_alnum_byte_def)
  show "last h \<noteq> CHR ''.''"
  proof
    assume "last h = CHR ''.''"
    with n have "h = butlast h @ [CHR ''.'']" by (metis append_butlast_last_id)
    with split_at_last [of "CHR ''.''" "butlast h"] have "[] \<in> set (split_at CHR ''.'' h)" by auto
    with ok show False by (auto simp: label_ok_def)
  qed
qed

lemma ipv4_lower:
  assumes "parse_ipv4_addr (map ascii_lower h) = Some os"
  shows "map ascii_lower h = h"
proof (rule map_idI)
  fix c
  assume "c \<in> set h"
  with parse_ipv4_text [OF assms] have "dotted_char (ascii_lower c)" by (simp add: list_all_iff)
  then have "byte_of (ascii_lower c) < (65 :: nat)" by (auto simp: dotted_char_def is_ascii_digit_iff)
  then show "ascii_lower c = c" using ascii_lower_eq [of "ascii_lower c" c] by simp
qed

text \<open>The three ways in which an address is accepted.\<close>

lemma parse_addr_cases:
  assumes "parse_addr a = Inr p"
  obtains (ipv6) gs port where "wf_segments gs" "0 < port" "port \<le> 65535"
      "p = \<lparr>pa_host = show_ipv6 gs, pa_port = port, pa_is_ipv6 = True, pa_is_hostname = False\<rparr>"
  | (ipv4) os port where "wf_octets os" "0 < port" "port \<le> 65535"
      "p = \<lparr>pa_host = show_ipv4 os, pa_port = port, pa_is_ipv6 = False, pa_is_hostname = False\<rparr>"
  | (hostname) h port where "validate_hostname h = Inr h" "parse_ipv4_addr h = None" "0 < port" "port \<le> 65535"
      "length h + 1 + length (show_nat port) \<le> ADDR_MAX_LEN"
      "p = \<lparr>pa_host = h, pa_port = port, pa_is_ipv6 = False, pa_is_hostname = True\<rparr>"
proof (cases "hd a = CHR ''[''")
  case True
  let ?inner = "takeWhile (\<lambda>c. c \<noteq> CHR '']'') (tl a)"
  from True assms obtain c port_str where after: "drop (length ?inner + 1) (tl a) = c # port_str"
    by (cases "drop (length ?inner + 1) (tl a)") (auto simp: parse_addr_def Let_def split: if_splits)
  from True assms have "and_then (parse_port port_str) (\<lambda>port.
      and_then (ok_or (parse_with read_ipv6_addr ?inner) InvalidIpv6) (\<lambda>ip.
        Inr \<lparr>pa_host = show_ipv6 ip, pa_port = port, pa_is_ipv6 = True, pa_is_hostname = False\<rparr>)) = Inr p"
    unfolding parse_addr_def Let_def after by (simp split: if_splits)
  then obtain port gs where "parse_with read_ipv6_addr ?inner = Some gs" "parse_port port_str = Inr port"
    "p = \<lparr>pa_host = show_ipv6 gs, pa_port = port, pa_is_ipv6 = True, pa_is_hostname = False\<rparr>"
    unfolding and_then_Inr_iff ok_or_Inr_iff by blast
  from ipv6 [OF parse_ipv6_wf [OF this(1)] parse_port_Inr(1,2) [OF this(2)] this(3)] show ?thesis .
next
  case False
  let ?host = "takeWhile (\<lambda>c. c \<noteq> CHR '':'') a"
  let ?h = "strip_last_dot ?host"
  from False assms obtain port where port: "parse_port (drop (length ?host + 1) a) = Inr port" and len: "length a \<le> ADDR_MAX_LEN"
    and colon: "CHR '':'' \<in> set a"
    and r: "(case parse_ipv4_addr ?h of
              Some v4 \<Rightarrow> Inr \<lparr>pa_host = show_ipv4 v4, pa_port = port, pa_is_ipv6 = False, pa_is_hostname = False\<rparr>
            | None \<Rightarrow> and_then (validate_hostname ?h) (\<lambda>host.
                Inr \<lparr>pa_host = host, pa_port = port, pa_is_ipv6 = False, pa_is_hostname = True\<rparr>)) = Inr p"
    by (auto simp: parse_addr_def Let_def and_then_Inr_iff split: if_splits)
  note port' = parse_port_Inr [OF port]
  show ?thesis
  proof (cases "parse_ipv4_addr ?h")
    case (Some v4)
    then show ?thesis using r ipv4 port'(1,2) parse_ipv4_text by fastforce
  next
    case None
    with r obtain h where h: "validate_hostname ?h = Inr h"
      and p: "p = \<lparr>pa_host = h, pa_port = port, pa_is_ipv6 = False, pa_is_hostname = True\<rparr>"
      by (auto simp: and_then_Inr_iff)
    note low = validate_hostname_lower [OF h]
    have n: "parse_ipv4_addr h = None"
    proof (rule ccontr)
      assume "parse_ipv4_addr h \<noteq> None"
      then obtain os where "parse_ipv4_addr (map ascii_lower ?h) = Some os" unfolding low(1) by auto
      from this ipv4_lower [OF this] None show False by (simp del: map_eq_conv)
    qed
    have "length ?h \<le> length ?host" by (simp add: strip_last_dot_def)
    moreover have "length ?host < length a" using colon by (induction a) auto
    ultimately have "length h + 1 + length (show_nat port) \<le> ADDR_MAX_LEN"
      using low(1) port'(4) len by simp
    from hostname [OF low(2) n port'(1,2) this p] show ?thesis .
  qed
qed

lemma parse_canonical_ipv4:
  assumes "wf_octets os" "0 < port" "port \<le> 65535"
  shows "parse_addr (show_ipv4 os @ '':'' @ show_nat port) =
    Inr \<lparr>pa_host = show_ipv4 os, pa_port = port, pa_is_ipv6 = False, pa_is_hostname = False\<rparr>"
proof -
  have "length (show_nat port) \<le> 5" using length_show_nat_le [of port 5] assms(3) by simp
  moreover note t = show_ipv4_text [OF assms(1)]
  moreover have "CHR '':'' \<notin> set (show_ipv4 os)" "hd (show_ipv4 os) \<noteq> CHR ''[''" "last (show_ipv4 os) \<noteq> CHR ''.''"
    using t by (auto simp: list_all_iff dotted_char_def is_ascii_digit_iff dest!: hd_in_set)
  ultimately show ?thesis
    using parse_addr_plain [of "show_ipv4 os" port] parse_show_ipv4 [OF assms(1)] assms
    by (simp add: parse_port_def parse_uint_show ADDR_MAX_LEN_def)
qed

lemma parse_canonical_ipv6:
  assumes "wf_segments gs" "0 < port" "port \<le> 65535"
  shows "parse_addr (''['' @ show_ipv6 gs @ '']:'' @ show_nat port) =
    Inr \<lparr>pa_host = show_ipv6 gs, pa_port = port, pa_is_ipv6 = True, pa_is_hostname = False\<rparr>"
proof -
  have "length (show_nat port) \<le> 5" using length_show_nat_le [of port 5] assms(3) by simp
  then show ?thesis
    using parse_addr_bracket [of "show_ipv6 gs" port gs] show_ipv6_text [OF assms(1)] parse_show_ipv6 [OF assms(1)] assms
    by (simp add: parse_port_def parse_uint_show ADDR_MAX_LEN_def)
qed

lemma canonical_fixpoint:
  assumes "parse_addr a = Inr p"
  shows "parse_addr (canonical p) = Inr p"
  using assms
proof (cases rule: parse_addr_cases)
  case (ipv6 gs port)
  then show ?thesis using parse_canonical_ipv6 by (simp add: canonical_def)
next
  case (ipv4 os port)
  then show ?thesis using parse_canonical_ipv4 by (simp add: canonical_def)
next
  case (hostname h port)
  then show ?thesis using parse_addr_plain [of h port] valid_hostname_shape [OF hostname(1)]
    by (simp add: canonical_def parse_port_def parse_uint_show)
qed

text \<open>The canonical form of a peer address is a fixed point of the validator: an accepted
  address, printed in canonical form, is accepted again and yields the same address (host, port and
  kind). Two spellings that are accepted as the same address therefore have one key, and a key of the
  peer table or of the connection slots always denotes the address it was made from.\<close>

theorem parse_addr_canonical:
  "parse_addr a = Inr p \<Longrightarrow> parse_addr (canonical p) = Inr p"
  by (rule canonical_fixpoint)

lemma parse_example:
  "parse_addr ''Yp.:080'' = Inr \<lparr>pa_host = ''yp'', pa_port = 80, pa_is_ipv6 = False, pa_is_hostname = True\<rparr>"
  "canonical \<lparr>pa_host = ''yp'', pa_port = 80, pa_is_ipv6 = False, pa_is_hostname = True\<rparr> = ''yp:80''"
proof -
  have "parse_ipv4_addr ''Yp'' = None"
    using parse_ipv4_text [of "''Yp''"] by (cases "parse_ipv4_addr ''Yp''") (auto simp: dotted_char_def is_ascii_digit_iff)
  then show "parse_addr ''Yp.:080'' = Inr \<lparr>pa_host = ''yp'', pa_port = 80, pa_is_ipv6 = False, pa_is_hostname = True\<rparr>"
    by (simp add: parse_addr_def ADDR_MAX_LEN_def Let_def parse_port_def parse_uint_def is_ascii_digit_iff digits_value_def
        digit_value_def strip_last_dot_def validate_hostname_def HOSTNAME_MAX_LEN_def label_ok_def
        HOSTNAME_LABEL_MAX_LEN_def is_alnum_byte_def to_ascii_lowercase_def less_eq_char_def char_of_def bit_0)
  show "canonical \<lparr>pa_host = ''yp'', pa_port = 80, pa_is_ipv6 = False, pa_is_hostname = True\<rparr> = ''yp:80''"
    by (simp add: canonical_def show_nat.simps digit_char_def char_of_def bit_0)
qed

theorem parse_addr_canonical_witness:
  "parse_addr ''Yp.:080'' = Inr \<lparr>pa_host = ''yp'', pa_port = 80, pa_is_ipv6 = False, pa_is_hostname = True\<rparr>
   \<and> parse_addr ''yp:80'' = Inr \<lparr>pa_host = ''yp'', pa_port = 80, pa_is_ipv6 = False, pa_is_hostname = True\<rparr>"
  using parse_addr_canonical [OF parse_example(1)] parse_example by simp

lemma parse_yp: "parse_addr ''yp:80'' = Inr \<lparr>pa_host = ''yp'', pa_port = 80, pa_is_ipv6 = False, pa_is_hostname = True\<rparr>"
  using canonical_fixpoint [OF parse_example(1)] parse_example by simp

subsection \<open>Runs of the manager\<close>

datatype manager_op =
  AddSelf string | NoteSelf string | AddPeer int int string peer_source | SetEnabled string bool
| RemovePeer string | RecordSuccess string int | RecordResolved string string | RecordFailure string
| BeginOutbound string bool | EndOutbound string | BeginInbound string | EndInbound string

text \<open>A step carries the monotonic time at which it runs; only \<open>begin_outbound\<close> reads it.\<close>

fun manager_step :: "rat \<times> manager_op \<Rightarrow> peer_manager \<Rightarrow> peer_manager" where
  "manager_step (t, AddSelf a) m = add_self_addr a m"
| "manager_step (t, NoteSelf a) m = fst (note_self_connect a m)"
| "manager_step (t, AddPeer now rowid a source) m = fst (add_peer now rowid a source m)"
| "manager_step (t, SetEnabled a b) m = fst (manager_set_enabled a b m)"
| "manager_step (t, RemovePeer a) m = fst (remove_peer a m)"
| "manager_step (t, RecordSuccess a now) m = fst (record_success a now m)"
| "manager_step (t, RecordResolved a ip) m = fst (record_resolved_ip a ip m)"
| "manager_step (t, RecordFailure a) m = fst (record_failure a m)"
| "manager_step (t, BeginOutbound a verified) m = fst (begin_outbound t a verified m)"
| "manager_step (t, EndOutbound a) m = end_outbound a m"
| "manager_step (t, BeginInbound a) m = fst (begin_inbound a m)"
| "manager_step (t, EndInbound a) m = end_inbound a m"

definition is_canonical :: "string \<Rightarrow> bool" where
  "is_canonical a \<longleftrightarrow> (case parse_addr a of Inl _ \<Rightarrow> False | Inr p \<Rightarrow> canonical p = a)"

definition slots_inv :: "peer_manager \<Rightarrow> bool" where
  "slots_inv m \<longleftrightarrow> finite (pm_inbound m) \<and> finite (pm_outbound m) \<and>
     inbound_count m \<le> inbound_max (pm_config m) \<and> pm_inbound m \<inter> pm_outbound m = {}"

lemma is_canonical_canonical: "parse_addr a = Inr p \<Longrightarrow> is_canonical (canonical p)"
  by (simp add: is_canonical_def canonical_fixpoint)

lemma is_canonical_iff: "is_canonical a \<longleftrightarrow> (\<exists>p. parse_addr a = Inr p \<and> canonical p = a)"
  by (auto simp: is_canonical_def split: sum.splits)

lemma on_peer_slots:
  "pm_inbound (fst (on_peer f a m)) = pm_inbound m" "pm_outbound (fst (on_peer f a m)) = pm_outbound m"
  "pm_self_addrs (fst (on_peer f a m)) = pm_self_addrs m" "pm_config (fst (on_peer f a m)) = pm_config m"
  "pm_last_new_dial (fst (on_peer f a m)) = pm_last_new_dial m"
  by (simp_all add: on_peer_def split: sum.splits prod.splits)

lemma add_peer_slots:
  "pm_inbound (fst (add_peer now rowid a source m)) = pm_inbound m"
  "pm_outbound (fst (add_peer now rowid a source m)) = pm_outbound m"
  "pm_self_addrs (fst (add_peer now rowid a source m)) = pm_self_addrs m"
  "pm_config (fst (add_peer now rowid a source m)) = pm_config m"
  "pm_last_new_dial (fst (add_peer now rowid a source m)) = pm_last_new_dial m"
  by (simp_all add: add_peer_def split: sum.splits prod.splits)

lemmas manager_defs = manager_set_enabled_def remove_peer_def record_success_def record_resolved_ip_def record_failure_def

lemmas slot_defs = add_self_addr_def note_self_connect_def begin_outbound_def end_outbound_def begin_inbound_def end_inbound_def

lemma manager_config: "pm_config (manager_step c m) = pm_config m"
  by (induction c m rule: manager_step.induct)
    (auto simp: on_peer_slots add_peer_slots manager_defs slot_defs Let_def split: sum.splits prod.splits)

lemma slots_inv_step: "slots_inv m \<Longrightarrow> slots_inv (manager_step c m)"
proof (induction c m rule: manager_step.induct)
  case (12 t a m)
  have "card (pm_inbound m - {inbound_key a}) \<le> card (pm_inbound m)" by (rule card_Diff1_le)
  with 12 show ?case by (auto simp: slots_inv_def inbound_count_def end_inbound_def)
qed (auto simp: slots_inv_def inbound_count_def on_peer_slots add_peer_slots manager_defs slot_defs Let_def
    split: sum.splits prod.splits option.splits)

subsection \<open>Keys of the peer table are canonical\<close>

lemma sql_update_addrs:
  "(\<And>p. pe_addr (f p) = pe_addr p) \<Longrightarrow> pe_addr ` set (fst (sql_update P f rows)) = pe_addr ` set rows"
  using sql_update_keys [of pe_addr f P rows] by (simp add: set_map [symmetric] del: set_map)

lemma delete_peer_addrs: "pe_addr ` set (db_peers (fst (delete_peer a d))) \<subseteq> pe_addr ` set (db_peers d)"
  by (auto simp: delete_peer_def sql_delete_def)

lemma upsert_peer_addrs:
  "pe_addr ` set (db_peers (fst (upsert_peer now rowid a source d))) \<subseteq> insert a (pe_addr ` set (db_peers d))"
proof -
  have "pe_addr ` set (db_peers (enforce_peer_limit (d\<lparr>db_peers := db_peers d @ [p]\<rparr>))) \<subseteq> insert a (pe_addr ` set (db_peers d))"
    if "pe_addr p = a" for p
    using image_mono [OF set_enforce_peer_limit, of pe_addr "d\<lparr>db_peers := db_peers d @ [p]\<rparr>"] that by simp
  then show ?thesis by (auto simp: upsert_peer_def Let_def sql_update_addrs split: option.splits)
qed

definition canonical_table :: "db \<Rightarrow> bool" where
  "canonical_table d \<longleftrightarrow> (\<forall>a \<in> pe_addr ` set (db_peers d). is_canonical a)"

lemma canonical_table_mono:
  "canonical_table d \<Longrightarrow> pe_addr ` set (db_peers d') \<subseteq> pe_addr ` set (db_peers d) \<Longrightarrow> canonical_table d'"
  unfolding canonical_table_def by blast

lemma manager_db:
  "pm_db (fst (on_peer f a m)) = (case parse_addr a of Inl _ \<Rightarrow> pm_db m | Inr p \<Rightarrow> fst (f (canonical p) (pm_db m)))"
  "pm_db (fst (note_self_connect a m)) = (case parse_addr a of Inl _ \<Rightarrow> pm_db m | Inr p \<Rightarrow> fst (delete_peer (canonical p) (pm_db m)))"
  "pm_db (fst (add_peer now rowid a source m)) = (case parse_addr a of Inl _ \<Rightarrow> pm_db m
     | Inr p \<Rightarrow> if is_self_addr (canonical p) m then pm_db m else fst (upsert_peer now rowid (canonical p) source (pm_db m)))"
  by (simp_all add: on_peer_def note_self_connect_def add_peer_def split: sum.splits prod.splits)

lemma on_peer_table:
  assumes "canonical_table (pm_db m)" and "\<And>a d. pe_addr ` set (db_peers (fst (f a d))) \<subseteq> pe_addr ` set (db_peers d)"
  shows "canonical_table (pm_db (fst (on_peer f a m)))"
  using assms(1) canonical_table_mono [OF assms(1) assms(2)] by (simp add: manager_db split: sum.splits)

lemma store_ops_addrs:
  "pe_addr ` set (db_peers (fst (set_peer_enabled a b d))) \<subseteq> pe_addr ` set (db_peers d)"
  "pe_addr ` set (db_peers (fst (record_peer_success a t d))) \<subseteq> pe_addr ` set (db_peers d)"
  "pe_addr ` set (db_peers (fst (set_peer_resolved_ip a ip d))) \<subseteq> pe_addr ` set (db_peers d)"
  "pe_addr ` set (db_peers (fst (record_peer_failure a d))) \<subseteq> pe_addr ` set (db_peers d)"
  by (simp_all add: set_peer_enabled_def record_peer_success_def set_peer_resolved_ip_def record_peer_failure_fst
      update_peers_fst sql_update_addrs)

lemma canonical_table_insert:
  "canonical_table d \<Longrightarrow> is_canonical a \<Longrightarrow> pe_addr ` set (db_peers d') \<subseteq> insert a (pe_addr ` set (db_peers d)) \<Longrightarrow>
     canonical_table d'"
  unfolding canonical_table_def by blast

lemma canonical_table_step: "canonical_table (pm_db m) \<Longrightarrow> canonical_table (pm_db (manager_step c m))"
proof (induction c m rule: manager_step.induct)
  case (2 t a m)
  then show ?case using canonical_table_mono [OF _ delete_peer_addrs] by (simp add: manager_db split: sum.splits)
next
  case (3 t now rowid a source m)
  show ?case
  proof (cases "parse_addr a")
    case (Inr p)
    from canonical_table_insert [OF 3 is_canonical_canonical [OF Inr] upsert_peer_addrs] 3 Inr show ?thesis
      by (simp add: manager_db)
  qed (use 3 in \<open>simp add: manager_db\<close>)
qed (auto simp: manager_defs on_peer_table store_ops_addrs delete_peer_addrs slot_defs Let_def
    split: sum.splits option.splits)

lemma manager_run_inv:
  assumes "slots_inv m" "canonical_table (pm_db m)"
  shows "slots_inv (fold manager_step cs m)" "canonical_table (pm_db (fold manager_step cs m))"
    "pm_config (fold manager_step cs m) = pm_config m"
  using assms by (induction cs arbitrary: m) (auto simp: slots_inv_step canonical_table_step manager_config)

subsection \<open>Candidates can be dialled\<close>

definition base_key :: "peer_endpoint \<Rightarrow> nat \<times> int \<times> int \<times> int" where
  "base_key p = (manual_rank p, - last_ok p, pe_fail_count p, pe_id p)"

definition candidate_key :: "candidate_mode \<Rightarrow> peer_manager \<Rightarrow> peer_endpoint \<Rightarrow> nat \<times> nat \<times> int \<times> int \<times> int" where
  "candidate_key mode m p = (if mode = NormalMode then demoted_rank m p else 0, base_key p)"

lemma cmp_base_less: "cmp_base a b = OrdLess \<longleftrightarrow> base_key a < base_key b"
  by (auto simp: cmp_base_def base_key_def less_prod_simp)

lemma cmp_candidates_less: "cmp_candidates mode m a b = OrdLess \<longleftrightarrow> candidate_key mode m a < candidate_key mode m b"
  by (auto simp: cmp_candidates_def candidate_key_def cmp_base_less cmp_def less_prod_simp split: ordering.splits)

lemma candidates_sorted: "sorted (map (candidate_key mode m) (candidates mode m))"
  unfolding candidates_def cmp_candidates_less by (rule sorted_sort_by)

lemma set_candidates: "set (candidates mode m) = {p \<in> set (db_peers (pm_db m)). dialable m p}"
  by (auto simp: candidates_def list_peers_def)

text \<open>Dialling a free canonical address.\<close>

lemma begin_outbound_free:
  assumes "is_canonical a" "a \<notin> pm_self_addrs m" "a \<notin> pm_outbound m \<union> pm_inbound m"
  shows "snd (begin_outbound t a verified m) = (if \<not> verified \<and>
      (\<exists>u. pm_last_new_dial m = Some u \<and> t - u < new_candidate_min_interval_secs (pm_config m)) then Throttled else Started)"
    and "snd (begin_outbound t a verified m) = Started \<Longrightarrow>
      pm_outbound (fst (begin_outbound t a verified m)) = insert a (pm_outbound m)"
  using assms by (auto simp: is_canonical_iff begin_outbound_def Let_def split: option.splits)

text \<open>The candidate list is what the dialler can work through. After any sequence of operations on a
  fresh manager, every candidate that is offered for dialling gets a connection slot (or, when it is
  unverified, is postponed exactly while the interval since the last unverified dial runs), taking the
  slot raises the number of outbound connections by one, and the peer is not offered again while the
  slot is held.\<close>

theorem candidate_can_be_dialled:
  assumes "m = fold manager_step cs (peer_manager_new store_open config)" and "p \<in> set (candidates mode m)"
    and "r = begin_outbound t (pe_addr p) verified m"
  shows "snd r = (if \<not> verified \<and>
      (\<exists>u. pm_last_new_dial m = Some u \<and> t - u < new_candidate_min_interval_secs config) then Throttled else Started) \<and>
    (snd r = Started \<longrightarrow> outbound_count (fst r) = outbound_count m + 1 \<and> p \<notin> set (candidates mode' (fst r)))"
proof -
  have new: "slots_inv (peer_manager_new store_open config)" "canonical_table (pm_db (peer_manager_new store_open config))"
    by (simp_all add: slots_inv_def inbound_count_def canonical_table_def peer_manager_new_def store_open_def)
  note inv = manager_run_inv [OF new, of cs, folded assms(1)]
  have free: "is_canonical (pe_addr p)" "pe_addr p \<notin> pm_self_addrs m" "pe_addr p \<notin> pm_outbound m \<union> pm_inbound m"
    using assms(2) inv(2) by (auto simp: set_candidates dialable_def canonical_table_def)
  have "pm_config m = config" using inv(3) by (simp add: peer_manager_new_def)
  with begin_outbound_free [OF free, of t verified] inv(1) free(3) show ?thesis
    by (auto simp: assms(3) outbound_count_def slots_inv_def set_candidates dialable_def)
qed

text \<open>The order of the candidates. Of two candidates, the one that is dialled later is never
  preferable: in normal operation no demoted peer comes before one that is not demoted; among
  peers that are not told apart by that, manually registered peers come first, and among equals
  the one that succeeded more recently. In all-unreachable mode demotion does not count.\<close>

theorem candidates_order:
  "sorted_wrt (\<lambda>a b.
     (mode = NormalMode \<and> is_demoted (pe_fail_count a) m \<and> \<not> is_demoted (pe_fail_count b) m \<longrightarrow> False) \<and>
     (mode = AllUnreachable \<or> is_demoted (pe_fail_count a) m = is_demoted (pe_fail_count b) m \<longrightarrow>
        (pe_source b = Manual \<longrightarrow> pe_source a = Manual) \<and>
        (pe_source a = pe_source b \<longrightarrow> last_ok b \<le> last_ok a))) (candidates mode m)"
proof -
  have "sorted_wrt (\<lambda>a b. candidate_key mode m a \<le> candidate_key mode m b) (candidates mode m)"
    using candidates_sorted [of mode m] by (simp add: sorted_map)
  then show ?thesis
    by (rule sorted_wrt_mono_rel [rotated])
      (cases mode; auto simp: candidate_key_def base_key_def less_eq_prod_simp demoted_rank_def is_demoted_def manual_rank_def
        split: if_splits)
qed

subsection \<open>Slots, spacing of unverified dials, backoff\<close>

fun new_dial :: "rat \<times> manager_op \<Rightarrow> peer_manager \<Rightarrow> bool" where
  "new_dial (t, BeginOutbound a verified) m = (\<not> verified \<and> snd (begin_outbound t a verified m) = Started)"
| "new_dial c m = False"

lemma last_new_dial_step:
  "pm_last_new_dial (manager_step c m) = (if new_dial c m then Some (fst c) else pm_last_new_dial m)"
  by (induction c m rule: manager_step.induct)
    (auto simp: on_peer_slots add_peer_slots manager_defs slot_defs Let_def split: sum.splits prod.splits option.splits)

lemma new_dial_spaced:
  "new_dial c m \<Longrightarrow> pm_last_new_dial m = Some u \<Longrightarrow> u + new_candidate_min_interval_secs (pm_config m) \<le> fst c"
  by (induction c m rule: new_dial.induct)
    (auto simp: begin_outbound_def Let_def algebra_simps split: sum.splits option.splits if_splits)

interpretation new_dials: suppression manager_step fst "\<lambda>_ :: unit. new_dial" "\<lambda>_. pm_last_new_dial"
  "\<lambda>m. new_candidate_min_interval_secs (pm_config m)" "\<lambda>_. True"
  by unfold_locales (auto simp: manager_config last_new_dial_step new_dial_spaced)

text \<open>C28: Connection slots are bounded and exclusive, and unverified candidates are dialled slowly. After
  any sequence of operations on a fresh manager, at most \<open>inbound_max\<close> inbound connections are held
  and no address holds both an inbound and an outbound slot; and, with a clock that does not go
  back, two dials of unverified candidates are at least the configured interval apart, whatever
  other operations come between them.\<close>

theorem peer_slots_and_dials:
  "inbound_count (fold manager_step cs (peer_manager_new store_open config)) \<le> inbound_max config \<and>
   pm_inbound (fold manager_step cs (peer_manager_new store_open config)) \<inter>
     pm_outbound (fold manager_step cs (peer_manager_new store_open config)) = {} \<and>
   (sorted (map fst cs) \<longrightarrow> sorted_wrt (\<lambda>a b. a + new_candidate_min_interval_secs config \<le> b)
     (fire_times manager_step new_dial fst cs (peer_manager_new store_open config)))"
proof -
  let ?m = "peer_manager_new store_open config"
  have "slots_inv ?m" "canonical_table (pm_db ?m)"
    by (simp_all add: slots_inv_def inbound_count_def canonical_table_def peer_manager_new_def store_open_def)
  note inv = manager_run_inv [OF this, of cs]
  have "pm_config ?m = config" by (simp add: peer_manager_new_def)
  with inv new_dials.spacing [of cs ?m] show ?thesis by (simp add: slots_inv_def)
qed

text \<open>The backoff loop returns early at the cap; since a further factor never leads back below it
  (a factor of 0 leads to 0 at once), it computes the closed formula.\<close>

lemma backoff_loop_closed: "cap \<le> u64_max \<Longrightarrow> backoff_loop factor cap n delay = min cap (delay * factor ^ n)"
proof (induction n arbitrary: delay)
  case (Suc n)
  have sat: "cap \<le> saturating_mul_u64 delay factor \<longleftrightarrow> cap \<le> delay * factor"
    "saturating_mul_u64 delay factor < cap \<Longrightarrow> saturating_mul_u64 delay factor = delay * factor"
    using Suc.prems by (auto simp: saturating_mul_u64_def min_def split: if_splits)
  show ?case
  proof (cases "cap \<le> delay * factor")
    case True
    have "delay * factor \<le> delay * factor * factor ^ n" by (cases "factor = 0") auto
    with True have "cap \<le> delay * (factor * factor ^ n)" by (metis le_trans mult.assoc)
    with True sat show ?thesis by (simp add: Let_def)
  next
    case False
    with sat Suc.IH [OF Suc.prems, of "delay * factor"] show ?thesis by (simp add: Let_def not_le mult.assoc)
  qed
qed (simp add: min.commute)

text \<open>C36: The reconnection backoff is the documented formula. For every configuration and every number of
  consecutive failures, the loop with saturating multiplication and early return computes
  \<open>min(cap, initial * factor ^ (failures - 1))\<close> on unbounded numbers, and nothing for no failure; so
  the delay never exceeds the cap and no overflow is visible.\<close>

theorem backoff_formula:
  assumes "backoff_cap_secs config \<le> u64_max"
  shows "backoff_delay_secs failures config = (if failures = 0 then 0
    else min (backoff_cap_secs config) (backoff_initial_secs config * backoff_factor config ^ (failures - 1)))"
  using backoff_loop_closed [OF assms] by (simp add: backoff_delay_secs_def)

theorem backoff_formula_witness:
  "map (\<lambda>n. backoff_delay_secs n default_peer_manager_config) [0, 1, 2, 6, 7, 200] = [0, 5, 10, 160, 300, 300]"
proof -
  have "backoff_cap_secs default_peer_manager_config \<le> u64_max"
    by (simp add: default_peer_manager_config_def DEFAULT_BACKOFF_CAP_SECS_def u64_max_def)
  note f = backoff_formula [OF this]
  have "(300 :: nat) \<le> 5 * 2 ^ 199" by simp
  then show ?thesis unfolding f
    by (simp add: default_peer_manager_config_def DEFAULT_BACKOFF_CAP_SECS_def DEFAULT_BACKOFF_INITIAL_SECS_def
        DEFAULT_BACKOFF_FACTOR_def)
qed

subsection \<open>Recovery is announced exactly once per outage\<close>

text \<open>The flag mirrors the last event, and a permit is pending exactly when an outage has ended since.\<close>

datatype reach_event = Reached | AllDown

fun reach_step :: "reach_event \<Rightarrow> reachability_state \<Rightarrow> reachability_state" where
  "reach_step Reached r = mark_reachable r"
| "reach_step AllDown r = mark_all_unreachable r"

lemma unreachable_after:
  "rs_all_unreachable (fold reach_step es r) = (if es = [] then rs_all_unreachable r else last es = AllDown)"
proof (induction es arbitrary: r)
  case (Cons e es)
  then show ?case by (cases e) (auto simp: mark_reachable_def mark_all_unreachable_def)
qed simp

lemma recovery_announced:
  "rs_permit (fold reach_step es r) \<longleftrightarrow> rs_permit r \<or> rs_all_unreachable r \<and> Reached \<in> set es \<or>
     (\<exists>xs zs. es = xs @ AllDown # zs \<and> Reached \<in> set zs)"
proof (induction es arbitrary: r)
  case (Cons e es)
  then show ?case by (cases e) (auto simp: mark_reachable_def mark_all_unreachable_def Cons_eq_append_conv)
qed simp

subsection \<open>A concrete run\<close>

definition yp_row :: peer_endpoint where
  "yp_row = \<lparr>pe_id = 1, pe_addr = ''yp:80'', pe_source = Manual, pe_verified = False, pe_enabled = True, pe_added_at = 5,
     pe_last_ok_at = None, pe_fail_count = 0, pe_resolved_ip = None\<rparr>"

lemma example_run:
  "fold manager_step [(0, AddPeer 5 1 ''Yp.:080'' Manual)] (peer_manager_new store_open default_peer_manager_config) =
     (peer_manager_new store_open default_peer_manager_config)\<lparr>pm_db := store_open\<lparr>db_peers := [yp_row]\<rparr>\<rparr>"
  by (simp add: add_peer_def parse_example is_self_addr_def peer_manager_new_def upsert_peer_def query_peer_def store_open_def
      enforce_peer_limit_def PEER_LIMIT_def yp_row_def ADDR_MAX_LEN_def Let_def)

lemma example_candidate:
  "yp_row \<in> set (candidates NormalMode (fold manager_step [(0, AddPeer 5 1 ''Yp.:080'' Manual)]
     (peer_manager_new store_open default_peer_manager_config)))"
  unfolding example_run set_candidates
  by (simp add: dialable_def peer_manager_new_def parse_yp yp_row_def)

theorem candidate_can_be_dialled_witness:
  "snd (begin_outbound 1 ''yp:80'' False (fold manager_step [(0, AddPeer 5 1 ''Yp.:080'' Manual)]
     (peer_manager_new store_open default_peer_manager_config))) = Started"
  using candidate_can_be_dialled [OF refl example_candidate refl, of 1 False NormalMode]
  unfolding example_run by (simp add: peer_manager_new_def yp_row_def)

definition dial_config :: peer_manager_config where
  "dial_config = default_peer_manager_config\<lparr>new_candidate_min_interval_secs := 2\<rparr>"

theorem peer_slots_and_dials_witness:
  "sorted (map fst [(1 :: rat, BeginOutbound ''yp:80'' False), (2, EndOutbound ''yp:80''), (4, BeginOutbound ''yp:80'' False)]) \<and>
   sorted_wrt (\<lambda>a b. a + 2 \<le> b) [1 :: rat, 4] \<and>
   fire_times manager_step new_dial fst [(1, BeginOutbound ''yp:80'' False), (2, EndOutbound ''yp:80''), (4, BeginOutbound ''yp:80'' False)]
     (peer_manager_new store_open dial_config) = [1, 4]"
proof -
  let ?cs = "[(1 :: rat, BeginOutbound ''yp:80'' False), (2, EndOutbound ''yp:80''), (4, BeginOutbound ''yp:80'' False)]"
  have s: "sorted (map fst ?cs)" by simp
  have f: "fire_times manager_step new_dial fst ?cs (peer_manager_new store_open dial_config) = [1, 4]"
    by (simp add: begin_outbound_def end_outbound_def parse_yp parse_example Let_def peer_manager_new_def dial_config_def)
  have "new_candidate_min_interval_secs dial_config = 2" by (simp add: dial_config_def)
  with peer_slots_and_dials [of ?cs dial_config] s f show ?thesis by simp
qed

lemma mset_pair: "mset l = {#a, b#} \<Longrightarrow> l = [a, b] \<or> l = [b, a]"
proof -
  assume m: "mset l = {#a, b#}"
  have "length l = size {#a, b#}" unfolding m [symmetric] by simp
  then have "length l = 2" by simp
  then obtain x y where "l = [x, y]" by (auto simp: numeral_2_eq_2 length_Suc_conv)
  with m show ?thesis by (auto simp: add_eq_conv_diff)
qed

theorem candidates_order_witness:
  "candidates NormalMode ((peer_manager_new store_open default_peer_manager_config)\<lparr>pm_db := store_open\<lparr>db_peers :=
     [yp_row\<lparr>pe_id := 2, pe_fail_count := 8\<rparr>, yp_row\<lparr>pe_source := Pex\<rparr>]\<rparr>\<rparr>) =
   [yp_row\<lparr>pe_source := Pex\<rparr>, yp_row\<lparr>pe_id := 2, pe_fail_count := 8\<rparr>]"
proof -
  let ?a = "yp_row\<lparr>pe_id := 2, pe_fail_count := 8\<rparr>" and ?b = "yp_row\<lparr>pe_source := Pex\<rparr>"
  let ?m = "(peer_manager_new store_open default_peer_manager_config)\<lparr>pm_db := store_open\<lparr>db_peers := [?a, ?b]\<rparr>\<rparr>"
  have d: "dialable ?m ?a" "dialable ?m ?b" by (simp_all add: dialable_def peer_manager_new_def parse_yp yp_row_def)
  have m: "mset (candidates NormalMode ?m) = {#?a, ?b#}"
    using d by (simp add: candidates_def list_peers_def mset_filter)
  have n: "candidates NormalMode ?m \<noteq> [?a, ?b]"
    using candidates_order [of NormalMode ?m]
    by (auto simp: is_demoted_def peer_manager_new_def default_peer_manager_config_def DEFAULT_FAIL_DEMOTE_THRESHOLD_def yp_row_def)
  from mset_pair [OF m] n show ?thesis by (elim disjE) simp_all
qed

end
