(* ===== verification/P2p_Pex.thy ===== *)
theory P2p_Pex
  imports P2p_Peers
begin

text \<open>
  Peer exchange (\<open>src/p2p/pex.rs\<close>): the selection of the peers that are shared with another node and
  the validation of the peers that are received from one. Both loops are recursions over the list
  with the set of addresses seen so far and the result built so far.

  The lemmas show that only verified and enabled peers are shared, never under a host name, each
  address once and most recent first; that received addresses are sorted completely into accepted,
  benign and suspicious ones; and that what an honest node shares is never suspicious to the
  receiver.
\<close>

definition PEX_MAX_PEERS :: nat where
  "PEX_MAX_PEERS = 64"

subsection \<open>Selection\<close>

definition project_for_pex :: "peer_endpoint \<Rightarrow> string option" where
  "project_for_pex peer = (case parse_addr (pe_addr peer) of Inl _ \<Rightarrow> None
     | Inr parsed \<Rightarrow> if pa_is_hostname parsed then pe_resolved_ip peer else Some (pe_addr peer))"

definition cmp_recent :: "peer_endpoint \<Rightarrow> peer_endpoint \<Rightarrow> ordering" where
  "cmp_recent a b = then_with (cmp (last_ok b) (last_ok a)) (cmp (pe_id b) (pe_id a))"

fun collect_shared :: "nat \<Rightarrow> peer_endpoint list \<Rightarrow> string set \<Rightarrow> string list \<Rightarrow> string list" where
  "collect_shared limit [] seen out = out"
| "collect_shared limit (p # ps) seen out = (case project_for_pex p of
     None \<Rightarrow> collect_shared limit ps seen out
   | Some shared \<Rightarrow>
       if shared \<in> seen then collect_shared limit ps seen out
       else if length (out @ [shared]) \<ge> limit then out @ [shared]
       else collect_shared limit ps (insert shared seen) (out @ [shared]))"

definition eligible_peers :: "peer_endpoint list \<Rightarrow> peer_endpoint list" where
  "eligible_peers peers = sort_by (\<lambda>a b. cmp_recent a b = OrdLess) (filter (\<lambda>p. pe_verified p \<and> pe_enabled p) peers)"

definition select_peers_for_pex :: "peer_endpoint list \<Rightarrow> nat \<Rightarrow> string list" where
  "select_peers_for_pex peers limit = collect_shared limit (eligible_peers peers) {} []"

subsection \<open>Validation\<close>

record incoming_pex =
  ix_accepted :: "peer_addr list"
  ix_benign_rejected :: "string list"
  ix_suspicious_rejected :: "string list"

definition incoming_pex_default :: incoming_pex where
  "incoming_pex_default = \<lparr>ix_accepted = [], ix_benign_rejected = [], ix_suspicious_rejected = []\<rparr>"

definition pex_rejected :: "incoming_pex \<Rightarrow> string list" where
  "pex_rejected r = ix_benign_rejected r @ ix_suspicious_rejected r"

definition has_suspicious :: "incoming_pex \<Rightarrow> bool" where
  "has_suspicious r \<longleftrightarrow> ix_suspicious_rejected r \<noteq> []"

definition has_benign :: "incoming_pex \<Rightarrow> bool" where
  "has_benign r \<longleftrightarrow> ix_benign_rejected r \<noteq> []"

definition has_rejections :: "incoming_pex \<Rightarrow> bool" where
  "has_rejections r \<longleftrightarrow> has_benign r \<or> has_suspicious r"

fun validate_loop :: "(string \<Rightarrow> bool) \<Rightarrow> string list \<Rightarrow> string set \<Rightarrow> incoming_pex \<Rightarrow> incoming_pex" where
  "validate_loop is_self [] seen r = r"
| "validate_loop is_self (raw # raws) seen r = (case parse_addr raw of
     Inl _ \<Rightarrow> validate_loop is_self raws seen (r\<lparr>ix_suspicious_rejected := ix_suspicious_rejected r @ [raw]\<rparr>)
   | Inr addr \<Rightarrow>
       if pa_is_hostname addr then
         validate_loop is_self raws seen (r\<lparr>ix_suspicious_rejected := ix_suspicious_rejected r @ [raw]\<rparr>)
       else if is_self (canonical addr) then
         validate_loop is_self raws seen (r\<lparr>ix_benign_rejected := ix_benign_rejected r @ [raw]\<rparr>)
       else if canonical addr \<in> seen then
         validate_loop is_self raws seen (r\<lparr>ix_benign_rejected := ix_benign_rejected r @ [raw]\<rparr>)
       else validate_loop is_self raws (insert (canonical addr) seen) (r\<lparr>ix_accepted := ix_accepted r @ [addr]\<rparr>))"

definition validate_incoming_peers :: "string list \<Rightarrow> (string \<Rightarrow> bool) \<Rightarrow> nat \<Rightarrow> incoming_pex" where
  "validate_incoming_peers peers is_self limit =
     (if length peers > limit then incoming_pex_default\<lparr>ix_suspicious_rejected := peers\<rparr>
      else validate_loop is_self peers {} incoming_pex_default)"

subsection \<open>What is shared\<close>

text \<open>The first occurrences of a list.\<close>

fun firsts :: "'a set \<Rightarrow> 'a list \<Rightarrow> 'a list" where
  "firsts seen [] = []"
| "firsts seen (x # xs) = (if x \<in> seen then firsts seen xs else x # firsts (insert x seen) xs)"

lemma set_firsts: "set (firsts seen xs) = set xs - seen"
  by (induction xs arbitrary: seen) auto

lemma distinct_firsts: "distinct (firsts seen xs)"
  by (induction xs arbitrary: seen) (auto simp: set_firsts)

lemma collect_shared_firsts:
  "length out < limit \<Longrightarrow> collect_shared limit ps seen out =
     out @ take (limit - length out) (firsts seen (List.map_filter project_for_pex ps))"
proof (induction ps arbitrary: seen out)
  case (Cons p ps)
  show ?case
  proof (cases "project_for_pex p")
    case None
    with Cons show ?thesis by (simp add: map_filter_simps)
  next
    case (Some shared)
    show ?thesis
    proof (cases "Suc (length out) < limit")
      case True
      then have "limit - length out = Suc (limit - Suc (length out))" by simp
      with True Some Cons show ?thesis by (simp add: map_filter_simps)
    next
      case False
      with Cons.prems have "limit - length out = 1" "limit = Suc (length out)" by auto
      with Some Cons show ?thesis by (simp add: map_filter_simps)
    qed
  qed
qed (simp add: map_filter_simps)

lemma set_map_filter_iff: "x \<in> set (List.map_filter f xs) \<longleftrightarrow> (\<exists>y \<in> set xs. f y = Some x)"
  by (force simp: List.map_filter_def)

text \<open>What a node shares. For a positive limit, the selection loop with its early exit returns the first
  \<open>limit\<close> distinct addresses of the peers that are verified and enabled, most recent success first;
  every shared address is the literal address of such a peer or the address to which the connection to
  such a peer was made, never a host name that the user entered.\<close>

theorem pex_selection:
  assumes "0 < limit"
  shows "select_peers_for_pex peers limit =
      take limit (firsts {} (List.map_filter project_for_pex (eligible_peers peers))) \<and>
    distinct (select_peers_for_pex peers limit) \<and>
    sorted_wrt (\<lambda>a b. last_ok b \<le> last_ok a) (eligible_peers peers) \<and>
    (\<forall>a \<in> set (select_peers_for_pex peers limit). \<exists>p \<in> set peers. pe_verified p \<and> pe_enabled p \<and>
       (\<exists>q. parse_addr (pe_addr p) = Inr q \<and> (if pa_is_hostname q then pe_resolved_ip p = Some a else pe_addr p = a)))"
proof -
  have eq: "select_peers_for_pex peers limit = take limit (firsts {} (List.map_filter project_for_pex (eligible_peers peers)))"
    using collect_shared_firsts [of "[]" limit] assms by (simp add: select_peers_for_pex_def)
  have less: "cmp_recent a b = OrdLess \<longleftrightarrow> (- last_ok a, - pe_id a) < (- last_ok b, - pe_id b)" for a b
    by (auto simp: cmp_recent_def less_prod_simp)
  have "sorted (map (\<lambda>p. (- last_ok p, - pe_id p)) (eligible_peers peers))"
    unfolding eligible_peers_def less by (rule sorted_sort_by)
  then have "sorted_wrt (\<lambda>a b. (- last_ok a, - pe_id a) \<le> (- last_ok b, - pe_id b)) (eligible_peers peers)"
    by (simp add: sorted_map)
  then have "sorted_wrt (\<lambda>a b. last_ok b \<le> last_ok a) (eligible_peers peers)"
    by (rule sorted_wrt_mono_rel [rotated]) (auto simp: less_eq_prod_simp)
  moreover have "\<exists>p \<in> set peers. pe_verified p \<and> pe_enabled p \<and>
       (\<exists>q. parse_addr (pe_addr p) = Inr q \<and> (if pa_is_hostname q then pe_resolved_ip p = Some a else pe_addr p = a))"
    if "a \<in> set (select_peers_for_pex peers limit)" for a
  proof -
    from that obtain p where "p \<in> set (eligible_peers peers)" "project_for_pex p = Some a"
      unfolding eq by (auto dest!: in_set_takeD simp: set_firsts set_map_filter_iff)
    then show ?thesis by (auto simp: eligible_peers_def project_for_pex_def split: sum.splits if_splits intro!: bexI [of _ p])
  qed
  ultimately show ?thesis using eq distinct_firsts by (metis distinct_take)
qed

subsection \<open>What is accepted\<close>

definition ip_literal :: "string \<Rightarrow> bool" where
  "ip_literal raw \<longleftrightarrow> (case parse_addr raw of Inl _ \<Rightarrow> False | Inr addr \<Rightarrow> \<not> pa_is_hostname addr)"

lemma validate_loop_result:
  "ix_suspicious_rejected (validate_loop is_self raws seen r) = ix_suspicious_rejected r @ filter (\<lambda>raw. \<not> ip_literal raw) raws"
  "map canonical (ix_accepted (validate_loop is_self raws seen r)) = map canonical (ix_accepted r) @
     firsts seen (filter (\<lambda>c. \<not> is_self c) (map inbound_key (filter ip_literal raws)))"
  "length (ix_accepted (validate_loop is_self raws seen r)) + length (pex_rejected (validate_loop is_self raws seen r)) =
     length (ix_accepted r) + length (pex_rejected r) + length raws"
  by (induction is_self raws seen r rule: validate_loop.induct)
    (auto simp: ip_literal_def inbound_key_def pex_rejected_def split: sum.splits)

lemma accepted_literals:
  "a \<in> set (ix_accepted (validate_loop is_self raws seen r)) \<Longrightarrow> a \<in> set (ix_accepted r) \<or> \<not> pa_is_hostname a"
  by (induction is_self raws seen r rule: validate_loop.induct) (auto split: sum.splits if_splits)

text \<open>What a node accepts from another. A list that is too long is rejected as a whole, as suspicious.
  Otherwise every received address is accounted for exactly once; the suspicious ones are exactly the
  host names and the malformed addresses; and the accepted ones are the first occurrences, in canonical
  form, of the address literals that are not the node's own, so at most \<open>limit\<close>, without repetition.\<close>

theorem pex_validation:
  "(let r = validate_incoming_peers peers is_self limit in
    (if length peers > limit then ix_accepted r = [] \<and> ix_suspicious_rejected r = peers
     else ix_suspicious_rejected r = filter (\<lambda>raw. \<not> ip_literal raw) peers \<and>
       map canonical (ix_accepted r) = firsts {} (filter (\<lambda>c. \<not> is_self c) (map inbound_key (filter ip_literal peers))) \<and>
       length (ix_accepted r) + length (pex_rejected r) = length peers) \<and>
    length (ix_accepted r) \<le> limit)"
  using validate_loop_result(1,2) [of is_self peers "{}" incoming_pex_default]
    validate_loop_result(3) [of is_self peers "{}" incoming_pex_default]
  by (auto simp: validate_incoming_peers_def incoming_pex_default_def pex_rejected_def)

subsection \<open>An honest node is never suspicious\<close>

text \<open>The addresses that the runtime records as resolved are those of connected sockets.\<close>

lemma from_socket_addr_parses:
  assumes "wf_socket sa" and "0 < socket_port sa"
  shows "parse_addr (canonical (from_socket_addr sa)) = Inr (from_socket_addr sa)"
proof (cases sa)
  case (SocketV4 os port)
  with assms parse_canonical_ipv4 [of os port] show ?thesis by (simp add: from_socket_addr_def canonical_def)
next
  case (SocketV6 gs scope port)
  with assms parse_canonical_ipv6 [of gs port] show ?thesis by (simp add: from_socket_addr_def canonical_def)
qed

definition resolved_from_sockets :: "db \<Rightarrow> bool" where
  "resolved_from_sockets d \<longleftrightarrow> (\<forall>p \<in> set (db_peers d). \<forall>ip. pe_resolved_ip p = Some ip \<longrightarrow>
     (\<exists>sa. wf_socket sa \<and> 0 < socket_port sa \<and> ip = canonical (from_socket_addr sa)))"

lemma shared_literal:
  assumes "canonical_table d" "resolved_from_sockets d" "p \<in> set (db_peers d)" "project_for_pex p = Some a"
  shows "ip_literal a \<and> inbound_key a = a"
proof -
  obtain q where q: "parse_addr (pe_addr p) = Inr q" using assms(4) by (auto simp: project_for_pex_def split: sum.splits)
  show ?thesis
  proof (cases "pa_is_hostname q")
    case True
    with q assms(2-4) obtain sa where "wf_socket sa" "0 < socket_port sa" "a = canonical (from_socket_addr sa)"
      by (auto simp: project_for_pex_def resolved_from_sockets_def)
    then show ?thesis using from_socket_addr_parses by (simp add: ip_literal_def inbound_key_def) (simp add: from_socket_addr_def)
  next
    case False
    with q assms(1,3,4) show ?thesis
      by (auto simp: project_for_pex_def ip_literal_def inbound_key_def canonical_table_def is_canonical_iff)
  qed
qed

lemma firsts_distinct: "distinct xs \<Longrightarrow> set xs \<inter> seen = {} \<Longrightarrow> firsts seen xs = xs"
  by (induction xs arbitrary: seen) auto

text \<open>C32: peer exchange between honest nodes. What a node shares from a peer table with canonical addresses
  and resolved addresses taken from connected sockets passes the validation of every receiver with the
  same limit: nothing is reported as suspicious, and the receiver accepts exactly the shared addresses
  that are not its own, in the same order.\<close>

theorem pex_honest_exchange:
  assumes "canonical_table d" and "resolved_from_sockets d" and "0 < limit"
  shows "\<not> has_suspicious (validate_incoming_peers (select_peers_for_pex (list_peers d) limit) is_self limit) \<and>
    map canonical (ix_accepted (validate_incoming_peers (select_peers_for_pex (list_peers d) limit) is_self limit)) =
      filter (\<lambda>a. \<not> is_self a) (select_peers_for_pex (list_peers d) limit)"
proof -
  let ?out = "select_peers_for_pex (list_peers d) limit"
  have eq: "?out = take limit (firsts {} (List.map_filter project_for_pex (eligible_peers (list_peers d))))"
    using collect_shared_firsts [of "[]" limit] assms(3) by (simp add: select_peers_for_pex_def)
  have lit: "ip_literal a \<and> inbound_key a = a" if "a \<in> set ?out" for a
  proof -
    from that obtain p where "p \<in> set (eligible_peers (list_peers d))" "project_for_pex p = Some a"
      unfolding eq by (auto dest!: in_set_takeD simp: set_firsts set_map_filter_iff)
    with shared_literal [OF assms(1,2)] show ?thesis by (auto simp: eligible_peers_def list_peers_def)
  qed
  have f: "filter ip_literal ?out = ?out" "filter (\<lambda>raw. \<not> ip_literal raw) ?out = []" "map inbound_key ?out = ?out"
    using lit by (auto simp: filter_id_conv filter_empty_conv intro: map_idI)
  have "distinct ?out" unfolding eq using distinct_firsts by (rule distinct_take)
  then have "firsts {} (filter (\<lambda>c. \<not> is_self c) ?out) = filter (\<lambda>c. \<not> is_self c) ?out"
    by (intro firsts_distinct) auto
  moreover have "length ?out \<le> limit" by (simp add: eq)
  ultimately show ?thesis
    using validate_loop_result(1,2) [of is_self ?out "{}" incoming_pex_default] f
    by (simp add: validate_incoming_peers_def has_suspicious_def incoming_pex_default_def)
qed

subsection \<open>A concrete exchange\<close>

text \<open>A table with one peer that was registered as \<open>yp:80\<close> and reached at \<open>1.2.3.4:80\<close>.\<close>

definition reached_socket :: socket_addr where
  "reached_socket = SocketV4 [1, 2, 3, 4] 80"

definition reached_table :: db where
  "reached_table = store_open\<lparr>db_peers := [yp_row\<lparr>pe_verified := True, pe_last_ok_at := Some 9,
     pe_resolved_ip := Some (canonical (from_socket_addr reached_socket))\<rparr>]\<rparr>"

lemma reached_table_ok: "canonical_table reached_table" "resolved_from_sockets reached_table"
proof -
  show "canonical_table reached_table"
    by (simp add: canonical_table_def reached_table_def yp_row_def is_canonical_def parse_yp parse_example)
  have "wf_socket reached_socket" "0 < socket_port reached_socket" by (simp_all add: reached_socket_def wf_octets_def)
  then show "resolved_from_sockets reached_table" by (auto simp: resolved_from_sockets_def reached_table_def)
qed

lemma reached_selection:
  "select_peers_for_pex (list_peers reached_table) 64 = [canonical (from_socket_addr reached_socket)]"
  by (simp add: select_peers_for_pex_def eligible_peers_def list_peers_def reached_table_def sort_by_def yp_row_def
      project_for_pex_def parse_yp)

theorem pex_selection_witness:
  "select_peers_for_pex (list_peers reached_table) 64 = [canonical (from_socket_addr reached_socket)] \<and>
   (\<exists>p \<in> set (list_peers reached_table). pe_verified p \<and> pe_enabled p \<and> pe_addr p = ''yp:80'')"
  using pex_selection [of 64 "list_peers reached_table"] reached_selection
  by (auto simp: list_peers_def reached_table_def sort_by_def yp_row_def)

theorem pex_honest_exchange_witness:
  "map canonical (ix_accepted (validate_incoming_peers [canonical (from_socket_addr reached_socket)] (\<lambda>a. False) 64)) =
     [canonical (from_socket_addr reached_socket)]"
  using pex_honest_exchange [OF reached_table_ok, of 64 "\<lambda>a. False"] unfolding reached_selection by simp

end
