(* ===== verification/P2p_Runtime.thy ===== *)
theory P2p_Runtime
  imports P2p_Hub P2p_Sync P2p_Pex
begin

text \<open>
  The connection runtime (\<open>src/p2p/runtime.rs\<close>): listener, outbound maintenance, dialling, and the
  pump that drives a session over a connection until it ends. The asynchronous tasks are steps of a
  machine over the shared state: \<open>node_step\<close> runs one branch of one task, and a run is any sequence
  of such steps, which covers every schedule of the tasks.

  \<^item> \<open>runtime\<close> is the state the tasks share: peer manager, hub, retry schedule, reachability and the
    calls made to the security log. The manager and the hub use the same database; the manager
    works on the table of peers, which the hub does not read.
  \<^item> \<open>conn\<close> is the local state of a pump. Its send queue is the one registered with the hub; before
    the registration it stands in \<open>cn_outbox\<close>. The task that streams a synchronisation answer is the
    list of the messages it still has to put into the queue.
  \<^item> \<open>cn_socket\<close> are the bytes that have arrived and have not been read. A call of \<open>read_frame\<close> that
    is waiting for more bytes has consumed \<open>cn_partial\<close>; \<open>tokio::select!\<close> drops the call, with these
    bytes, when another branch runs.
  \<^item> \<open>run_env\<close> holds the parameters (event library, JSON conversions) and what a step reads from
    outside: the clocks, new row identifiers, and whether each of its writes succeeds.
\<close>

subsection \<open>State\<close>

datatype pump_end = HandshakeFailed | ClosedCleanly | Dropped

record 'v runtime =
  rt_peers :: peer_manager
  rt_hub :: "'v gossip_hub"
  rt_nonce :: nat
  rt_listen_port :: nat
  rt_pex_enabled :: bool
  rt_backoff :: "(string \<times> rat) list"
  rt_reachability :: reachability_state
  rt_logged :: "log_call_args list"

record 'v conn =
  cn_session :: session
  cn_addr :: string
  cn_direction :: direction
  cn_resolved_ip :: "string option"
  cn_established :: bool
  cn_clean :: bool
  cn_outbox :: "'v message list"
  cn_conn_id :: "nat option"
  cn_sync_counter :: sync_counter
  cn_sync_task :: "'v message list option"
  cn_keepalive :: keepalive
  cn_ping_nonce :: nat
  cn_socket :: bytes
  cn_partial :: bytes
  cn_sent :: "'v message list"

record ('k, 'v) run_env =
  ev_ns :: "'k nostr"
  ev_to_value :: "event \<Rightarrow> 'v option"
  ev_null :: 'v
  ev_to_string :: "'v \<Rightarrow> string"
  ev_from_slice :: "bytes \<Rightarrow> 'v message option"
  ev_now :: rat
  ev_manager_now :: "nat \<Rightarrow> rat"
  ev_unix_now :: "nat \<Rightarrow> nat"
  ev_rowid :: "nat \<Rightarrow> int"
  ev_write_ok :: "nat \<Rightarrow> bool"

definition runtime_new :: "peer_manager \<Rightarrow> 'v gossip_hub \<Rightarrow> nat \<Rightarrow> nat \<Rightarrow> bool \<Rightarrow> 'v runtime" where
  "runtime_new peers hub nonce listen_port pex_enabled = \<lparr>rt_peers = peers, rt_hub = hub, rt_nonce = nonce,
     rt_listen_port = listen_port, rt_pex_enabled = pex_enabled, rt_backoff = [], rt_reachability = reachability_new,
     rt_logged = []\<rparr>"

definition session_config :: "'v runtime \<Rightarrow> session_config" where
  "session_config rt = default_session_config\<lparr>local_nonce := rt_nonce rt, local_listen_port := rt_listen_port rt\<rparr>"

definition runtime_log :: "security_category \<Rightarrow> string \<Rightarrow> string \<Rightarrow> 'v runtime \<Rightarrow> 'v runtime" where
  "runtime_log category source detail rt = rt\<lparr>rt_logged := rt_logged rt @ [(category, source, detail)]\<rparr>"

definition unix_i64 :: "('k, 'v) run_env \<Rightarrow> nat \<Rightarrow> int" where
  "unix_i64 env i = u64_as_i64 (ev_unix_now env i)"

subsection \<open>Retry schedule\<close>

definition failure_backoff :: "string \<Rightarrow> 'v runtime \<Rightarrow> 'v runtime \<times> nat" where
  "failure_backoff addr rt = (case record_failure addr (rt_peers rt) of (m, r) \<Rightarrow>
     (rt\<lparr>rt_peers := m\<rparr>, case r of Inr (Some fc) \<Rightarrow> backoff_delay_secs (nat (fc mod 2 ^ 32)) (pm_config m)
        | _ \<Rightarrow> backoff_initial_secs (pm_config m)))"

definition schedule_retry :: "rat \<Rightarrow> string \<Rightarrow> nat \<Rightarrow> 'v runtime \<Rightarrow> 'v runtime" where
  "schedule_retry now addr delay_secs rt = rt\<lparr>rt_backoff := AList.update addr (now + of_nat delay_secs) (rt_backoff rt)\<rparr>"

definition backoff_active :: "string \<Rightarrow> rat \<Rightarrow> 'v runtime \<Rightarrow> bool" where
  "backoff_active addr now rt \<longleftrightarrow> (case map_of (rt_backoff rt) addr of Some t \<Rightarrow> t > now | None \<Rightarrow> False)"

definition dial_failed :: "rat \<Rightarrow> string \<Rightarrow> 'v runtime \<Rightarrow> 'v runtime" where
  "dial_failed now addr rt = (let rt = rt\<lparr>rt_peers := end_outbound addr (rt_peers rt)\<rparr> in
     case failure_backoff addr rt of (rt, delay) \<Rightarrow> schedule_retry now addr delay rt)"

subsection \<open>Outbound maintenance\<close>

text \<open>The loop over the candidates: the addresses for which a dialling task is started, in order.\<close>

fun launch_loop :: "('k, 'v) run_env \<Rightarrow> nat \<Rightarrow> nat \<Rightarrow> peer_endpoint list \<Rightarrow> 'v runtime \<Rightarrow> 'v runtime \<times> string list" where
  "launch_loop env i room [] rt = (rt, [])"
| "launch_loop env i room (c # cs) rt =
     (if room = 0 then (rt, [])
      else if backoff_active (pe_addr c) (ev_now env) rt then launch_loop env (Suc i) room cs rt
      else case begin_outbound (ev_manager_now env i) (pe_addr c) (pe_verified c) (rt_peers rt) of (m, outcome) \<Rightarrow>
        let rt = rt\<lparr>rt_peers := m\<rparr> in
        (case outcome of
           Started \<Rightarrow> (case launch_loop env (Suc i) (room - 1) cs rt of (rt, addrs) \<Rightarrow> (rt, pe_addr c # addrs))
         | Throttled \<Rightarrow> (rt, [])
         | OutAlreadyActive \<Rightarrow> launch_loop env (Suc i) room cs rt
         | OutSelfAddress \<Rightarrow> launch_loop env (Suc i) room cs rt))"

definition maintain_outbound :: "('k, 'v) run_env \<Rightarrow> 'v runtime \<Rightarrow> 'v runtime \<times> string list" where
  "maintain_outbound env rt =
     (let (inb, outb) = established_counts (rt_hub rt); total_established = inb + outb;
          rt = (if total_established > 0 then rt\<lparr>rt_reachability := mark_reachable (rt_reachability rt)\<rparr> else rt);
          mode = (if total_established = 0 then AllUnreachable else NormalMode);
          deficit = outbound_deficit (rt_peers rt)
      in if deficit = 0 then (rt, [])
         else let cs = candidates mode (rt_peers rt); now = ev_now env;
                  rt = rt\<lparr>rt_backoff := filter (\<lambda>e. snd e > now) (rt_backoff rt)\<rparr>;
                  rt = (if total_established = 0 \<and> outbound_count (rt_peers rt) = 0 \<and> cs \<noteq> [] \<and>
                           (\<forall>c \<in> set cs. backoff_active (pe_addr c) now rt)
                        then rt\<lparr>rt_reachability := mark_all_unreachable (rt_reachability rt)\<rparr> else rt)
              in launch_loop env 0 deficit cs rt)"

subsection \<open>Established connections\<close>

definition on_established :: "('k, 'v) run_env \<Rightarrow> direction \<Rightarrow> string \<Rightarrow> string option \<Rightarrow> 'v runtime \<Rightarrow> 'v runtime" where
  "on_established env dir addr resolved_ip rt =
     (let rt = rt\<lparr>rt_reachability := mark_reachable (rt_reachability rt)\<rparr> in
      case dir of
        Outbound \<Rightarrow>
          let m = fst (record_success addr (unix_i64 env 1) (rt_peers rt));
              m = (case resolved_ip of Some ip \<Rightarrow> fst (record_resolved_ip addr ip m) | None \<Rightarrow> m)
          in rt\<lparr>rt_peers := m\<rparr>
      | Inbound \<Rightarrow> rt)"

definition candidate_text :: "socket_addr \<Rightarrow> nat \<Rightarrow> string" where
  "candidate_text socket port = (case socket_ip socket of
     V6 v6 \<Rightarrow> ''['' @ show_ipv6 v6 @ '']:'' @ show_nat port
   | V4 v4 \<Rightarrow> show_ipv4 v4 @ '':'' @ show_nat port)"

definition register_inbound_candidate :: "('k, 'v) run_env \<Rightarrow> string \<Rightarrow> hello option \<Rightarrow> 'v runtime \<Rightarrow> 'v runtime" where
  "register_inbound_candidate env conn_addr peer rt =
     (if \<not> rt_pex_enabled rt then rt
      else case peer of None \<Rightarrow> rt
      | Some p \<Rightarrow>
          if he_listen_port p = 0 then rt
          else (case parse_socket_addr conn_addr of None \<Rightarrow> rt
            | Some socket \<Rightarrow> rt\<lparr>rt_peers := fst (add_peer (unix_i64 env 2) (ev_rowid env 0)
                (candidate_text socket (he_listen_port p)) Pex (rt_peers rt))\<rparr>))"

subsection \<open>The queue of a connection\<close>

definition outbox_send :: "'v message \<Rightarrow> 'v runtime \<times> 'v conn \<Rightarrow> 'v runtime \<times> 'v conn" where
  "outbox_send m s = (case s of (rt, c) \<Rightarrow> case cn_conn_id c of
     Some i \<Rightarrow> (rt\<lparr>rt_hub := fst (send_to i m (rt_hub rt))\<rparr>, c)
   | None \<Rightarrow> (rt, c\<lparr>cn_outbox := cn_outbox c @ [m]\<rparr>))"

definition queue_of :: "'v runtime \<Rightarrow> 'v conn \<Rightarrow> 'v message list" where
  "queue_of rt c = (case cn_conn_id c of
     Some i \<Rightarrow> (case map_of (hub_peers (rt_hub rt)) i of Some l \<Rightarrow> pl_queue l | None \<Rightarrow> [])
   | None \<Rightarrow> cn_outbox c)"

definition set_queue :: "'v message list \<Rightarrow> 'v runtime \<times> 'v conn \<Rightarrow> 'v runtime \<times> 'v conn" where
  "set_queue q s = (case s of (rt, c) \<Rightarrow> case cn_conn_id c of
     Some i \<Rightarrow> (case map_of (hub_peers (rt_hub rt)) i of
         Some l \<Rightarrow> (rt\<lparr>rt_hub := (rt_hub rt)\<lparr>hub_peers := AList.update i (l\<lparr>pl_queue := q\<rparr>) (hub_peers (rt_hub rt))\<rparr>\<rparr>, c)
       | None \<Rightarrow> (rt, c))
   | None \<Rightarrow> (rt, c\<lparr>cn_outbox := q\<rparr>))"

text \<open>The \<open>i\<close>-th write of a step: \<open>write_frame\<close> fails when the message cannot be encoded or the transport fails.\<close>

definition write_msg :: "('k, 'v) run_env \<Rightarrow> nat \<Rightarrow> 'v message \<Rightarrow> 'v conn \<Rightarrow> 'v conn \<times> bool" where
  "write_msg env i m c = (if ev_write_ok env i then (c\<lparr>cn_sent := cn_sent c @ [m]\<rparr>, True) else (c, False))"

definition send_close :: "('k, 'v) run_env \<Rightarrow> nat \<Rightarrow> string \<Rightarrow> 'v conn \<Rightarrow> 'v conn" where
  "send_close env i reason c = fst (write_msg env i (Close reason) c)"

subsection \<open>Received messages\<close>

definition add_candidates :: "('k, 'v) run_env \<Rightarrow> peer_addr list \<Rightarrow> peer_manager \<Rightarrow> peer_manager" where
  "add_candidates env accepted m = fold (\<lambda>(i, p) m. fst (add_peer (unix_i64 env i) (ev_rowid env i) (canonical p) Pex m))
     (enumerate 0 accepted) m"

text \<open>The result tells whether the connection may go on.\<close>

definition handle_deliver :: "('k, 'v) run_env \<Rightarrow> 'v message \<Rightarrow> 'v runtime \<times> 'v conn \<Rightarrow> ('v runtime \<times> 'v conn) \<times> bool" where
  "handle_deliver env message s = (case s of (rt, c) \<Rightarrow> case message of
     EventMsg v \<Rightarrow>
       (case sync_on_event (cn_sync_counter c) of (counter, over) \<Rightarrow>
        let c = c\<lparr>cn_sync_counter := counter\<rparr> in
        if over then ((runtime_log P2pRateLimited (cn_addr c) ''sync response exceeded event_store_max'' rt, c), False)
        else (case hub_on_event (ev_ns env) (ev_to_value env) (ev_null env) (ev_to_string env v) (cn_addr c)
              (unwrap_or 0 (cn_conn_id c)) (ev_unix_now env 0) (ev_unix_now env 1) (ev_unix_now env 2) (rt_hub rt) of (hub, logs) \<Rightarrow>
          ((rt\<lparr>rt_hub := hub, rt_logged := rt_logged rt @ logs\<rparr>, c), True)))
   | SyncReq since \<Rightarrow>
       (if cn_sync_task c \<noteq> None then ((rt, c), True)
        else (case sync_response (ev_to_value env) (ev_null env) since (ev_unix_now env 0) (ev_unix_now env 1) (rt_hub rt) of
            (messages, n) \<Rightarrow> ((rt, c\<lparr>cn_sync_task := Some (messages @ [SyncDone n])\<rparr>), True)))
   | SyncDone n \<Rightarrow> ((rt, c\<lparr>cn_sync_counter := sync_on_done (cn_sync_counter c)\<rparr>), True)
   | Ping nonce \<Rightarrow> (outbox_send (Pong nonce) (rt, c), True)
   | GetPeers \<Rightarrow>
       (if rt_pex_enabled rt
        then (outbox_send (PeersMsg (select_peers_for_pex (list_peers (pm_db (rt_peers rt))) PEX_MAX_PEERS)) (rt, c), True)
        else ((rt, c), True))
   | PeersMsg peers \<Rightarrow>
       (if rt_pex_enabled rt
        then let result = validate_incoming_peers peers (\<lambda>a. is_self_addr a (rt_peers rt)) PEX_MAX_PEERS;
                 rt = rt\<lparr>rt_peers := add_candidates env (ix_accepted result) (rt_peers rt)\<rparr>;
                 rt = (if has_suspicious result then runtime_log PexRejected (cn_addr c) ''invalid PEERS entry discarded'' rt else rt)
             in ((rt, c), True)
        else ((rt, c), True))
   | _ \<Rightarrow> ((rt, c), True))"

subsection \<open>The pump\<close>

definition conn_new :: "rat \<Rightarrow> session \<Rightarrow> string \<Rightarrow> direction \<Rightarrow> string option \<Rightarrow> 'v runtime \<Rightarrow> 'v conn" where
  "conn_new now session addr dir resolved_ip rt = \<lparr>cn_session = session, cn_addr = addr, cn_direction = dir,
     cn_resolved_ip = resolved_ip, cn_established = False, cn_clean = False, cn_outbox = [], cn_conn_id = None,
     cn_sync_counter = sync_counter_new (event_store_max (hub_store_config (rt_hub rt))), cn_sync_task = None,
     cn_keepalive = keepalive_new now, cn_ping_nonce = 0, cn_socket = [], cn_partial = [], cn_sent = []\<rparr>"

text \<open>The branch of a session that reports its establishment: registration with the hub, then the
  synchronisation request and the request for peers.\<close>

definition pump_established :: "('k, 'v) run_env \<Rightarrow> 'v runtime \<times> 'v conn \<Rightarrow> 'v runtime \<times> 'v conn" where
  "pump_established env s = (case s of (rt, c) \<Rightarrow>
     case next_conn_id (rt_hub rt) of (hub, conn_id) \<Rightarrow>
     let c = c\<lparr>cn_established := True, cn_conn_id := Some conn_id\<rparr>;
         clock_skew = (case se_peer (cn_session c) of Some p \<Rightarrow> wrap_i64 (he_ts p - unix_i64 env 0) | None \<Rightarrow> 0);
         rt = rt\<lparr>rt_hub := register_peer conn_id (cn_addr c) (cn_direction c) clock_skew hub\<rparr>;
         (rt, c) = set_queue (cn_outbox c) (rt, c);
         rt = on_established env (cn_direction c) (cn_addr c) (cn_resolved_ip c) rt;
         rt = (if cn_direction c = Inbound then register_inbound_candidate env (cn_addr c) (se_peer (cn_session c)) rt else rt);
         since = sync_req_since (ev_unix_now env 3) (freshness_window_sec (hub_store_config (rt_hub rt)));
         c = c\<lparr>cn_sync_counter := sync_begin (cn_sync_counter c)\<rparr>;
         (rt, c) = outbox_send (SyncReq since) (rt, c)
     in if rt_pex_enabled rt then outbox_send GetPeers (rt, c) else (rt, c))"

definition note_self :: "'v conn \<Rightarrow> 'v runtime \<Rightarrow> 'v runtime" where
  "note_self c rt = rt\<lparr>rt_peers := fst (note_self_connect (cn_addr c) (rt_peers rt))\<rparr>"

text \<open>The actions a session asks for, in order; the last component tells whether the pump stops.\<close>

fun pump_actions :: "('k, 'v) run_env \<Rightarrow> nat \<Rightarrow> 'v session_action list \<Rightarrow> 'v runtime \<times> 'v conn \<Rightarrow> ('v runtime \<times> 'v conn) \<times> bool" where
  "pump_actions env i [] s = (s, False)"
| "pump_actions env i (Send m # acts) s = (case s of (rt, c) \<Rightarrow> case write_msg env i m c of (c, ok) \<Rightarrow>
     if ok then pump_actions env (Suc i) acts (rt, c) else ((rt, c), True))"
| "pump_actions env i (EstablishedNotice # acts) s = pump_actions env i acts (pump_established env s)"
| "pump_actions env i (Deliver m # acts) s = (case handle_deliver env m s of (s, go_on) \<Rightarrow>
     if go_on then pump_actions env i acts s else (s, True))"
| "pump_actions env i (PeerClosed reason # acts) s = (case s of (rt, c) \<Rightarrow>
     let rt = (if \<not> cn_established c \<and> cn_direction c = Outbound \<and> reason = SELF_CONNECT then note_self c rt else rt)
     in ((rt, c\<lparr>cn_clean := cn_established c\<rparr>), True))"

definition pump_frame :: "('k, 'v) run_env \<Rightarrow> 'v incoming_frame \<Rightarrow> 'v runtime \<times> 'v conn \<Rightarrow> ('v runtime \<times> 'v conn) \<times> bool" where
  "pump_frame env f s = (case s of (rt, c) \<Rightarrow>
     let c = c\<lparr>cn_keepalive := on_recv (ev_now env) (cn_keepalive c)\<rparr> in
     case on_frame (ev_now env) (unix_i64 env 0) (in_wire_len f) (in_message f) (cn_session c) of (session, r) \<Rightarrow>
     let c = c\<lparr>cn_session := session\<rparr> in
     case r of
       Inr acts \<Rightarrow> pump_actions env 0 acts (rt, c)
     | Inl d \<Rightarrow>
         let rt = (case note_disconnect True d session of
                Some (category, source, detail) \<Rightarrow> runtime_log category source detail rt | None \<Rightarrow> rt);
             rt = (if cn_direction c = Outbound \<and> dis_reason d = SELF_CONNECT then note_self c rt else rt)
         in ((rt, send_close env 0 (dis_reason d) c), True))"

text \<open>A poll of the pending \<open>read_frame\<close> call: it takes the bytes it needs from the socket and either
  completes or waits with what it has. \<open>ended\<close> tells that the peer has closed its side, \<open>failed\<close> that the transport fails.\<close>

datatype 'v read_poll = Waiting | Ready "frame_error + 'v incoming_frame option"

definition poll_read :: "(bytes \<Rightarrow> 'v message option) \<Rightarrow> bool \<Rightarrow> bool \<Rightarrow> 'v conn \<Rightarrow> 'v conn \<times> 'v read_poll" where
  "poll_read from_slice ended failed c =
     (let got = cn_partial c @ cn_socket c;
          short = (if failed then (c\<lparr>cn_partial := [], cn_socket := []\<rparr>, Ready (Inl FrameIo))
             else if ended then (c\<lparr>cn_partial := [], cn_socket := []\<rparr>, Ready (if got = [] then Inr None else Inl Truncated))
             else (c\<lparr>cn_partial := got, cn_socket := []\<rparr>, Waiting))
      in if length got < 4 then short
         else let len = u32_from_be (take 4 got) in
           if len > MAX_FRAME_PAYLOAD then (c\<lparr>cn_partial := [], cn_socket := drop 4 got\<rparr>, Ready (Inl FrameOversize))
           else if length got < 4 + len then short
           else (c\<lparr>cn_partial := [], cn_socket := drop (4 + len) got\<rparr>,
             Ready (and_then (decode_payload from_slice (take len (drop 4 got))) (\<lambda>m. Inr (Some \<lparr>in_message = m, in_wire_len = 4 + len\<rparr>)))))"

definition pump_read :: "('k, 'v) run_env \<Rightarrow> bool \<Rightarrow> bool \<Rightarrow> 'v runtime \<times> 'v conn \<Rightarrow> ('v runtime \<times> 'v conn) \<times> bool" where
  "pump_read env ended failed s = (case s of (rt, c) \<Rightarrow> case poll_read (ev_from_slice env) ended failed c of (c, r) \<Rightarrow>
     case r of
       Waiting \<Rightarrow> ((rt, c), False)
     | Ready (Inr (Some f)) \<Rightarrow> pump_frame env f (rt, c)
     | Ready (Inr None) \<Rightarrow> ((rt, c\<lparr>cn_clean := cn_established c\<rparr>), True)
     | Ready (Inl e) \<Rightarrow> (case frame_error_security e of
           Some (category, reason) \<Rightarrow> ((runtime_log category (cn_addr c) reason rt, send_close env 0 reason c), True)
         | None \<Rightarrow> ((rt, c), True)))"

text \<open>The other branches of the loop; running one of them drops the pending call of \<open>read_frame\<close>.\<close>

definition drop_read :: "'v conn \<Rightarrow> 'v conn" where
  "drop_read c = c\<lparr>cn_partial := []\<rparr>"

definition pump_shutdown :: "('k, 'v) run_env \<Rightarrow> 'v runtime \<times> 'v conn \<Rightarrow> ('v runtime \<times> 'v conn) \<times> bool" where
  "pump_shutdown env s = (case s of (rt, c) \<Rightarrow> ((rt, (send_close env 0 GOING_AWAY (drop_read c))\<lparr>cn_clean := True\<rparr>), True))"

definition pump_tick :: "('k, 'v) run_env \<Rightarrow> 'v runtime \<times> 'v conn \<Rightarrow> ('v runtime \<times> 'v conn) \<times> bool" where
  "pump_tick env s = (case s of (rt, c) \<Rightarrow> case keepalive_poll (ev_now env) (cn_keepalive c) of (ka, action) \<Rightarrow>
     let c = (drop_read c)\<lparr>cn_keepalive := ka\<rparr> in
     case action of
       SendPing \<Rightarrow>
         if cn_established c then
           let c = c\<lparr>cn_ping_nonce := wrapping_add_u64 (cn_ping_nonce c) 1\<rparr> in
           (case write_msg env 0 (Ping (cn_ping_nonce c)) c of (c, ok) \<Rightarrow> ((rt, c), \<not> ok))
         else ((rt, c), False)
     | Timeout \<Rightarrow> ((rt, send_close env 0 GOING_AWAY c), True)
     | Idle \<Rightarrow> ((rt, c), False))"

definition pump_outbox :: "('k, 'v) run_env \<Rightarrow> 'v runtime \<times> 'v conn \<Rightarrow> ('v runtime \<times> 'v conn) \<times> bool" where
  "pump_outbox env s = (case s of (rt, c) \<Rightarrow> case queue_of rt c of
     [] \<Rightarrow> (s, False)
   | m # q \<Rightarrow> (case set_queue q (rt, drop_read c) of (rt, c) \<Rightarrow> case write_msg env 0 m c of (c, ok) \<Rightarrow> ((rt, c), \<not> ok)))"

text \<open>A turn of the task that streams a synchronisation answer (\<open>stream_sync_response\<close>): it puts its
  next message into the queue; after the last one it opens the gate for the next request.\<close>

definition sync_task_turn :: "'v runtime \<times> 'v conn \<Rightarrow> 'v runtime \<times> 'v conn" where
  "sync_task_turn s = (case s of (rt, c) \<Rightarrow> case cn_sync_task c of
     None \<Rightarrow> s
   | Some (m # ms) \<Rightarrow> outbox_send m (rt, c\<lparr>cn_sync_task := Some ms\<rparr>)
   | Some [] \<Rightarrow> (rt, c\<lparr>cn_sync_task := None\<rparr>))"

definition pump_result :: "'v conn \<Rightarrow> pump_end" where
  "pump_result c = (if \<not> cn_established c then HandshakeFailed else if cn_clean c then ClosedCleanly else Dropped)"

definition pump_finish :: "'v runtime \<times> 'v conn \<Rightarrow> 'v runtime \<times> pump_end" where
  "pump_finish s = (case s of (rt, c) \<Rightarrow>
     (case cn_conn_id c of Some i \<Rightarrow> rt\<lparr>rt_hub := unregister_peer i (rt_hub rt)\<rparr> | None \<Rightarrow> rt, pump_result c))"

subsection \<open>Tasks\<close>

text \<open>An outbound task dials and then pumps; an inbound task pumps.\<close>

datatype 'v conn_task = Dialling string session "'v message option" | Pumping "'v conn"

record 'v node =
  nd_runtime :: "'v runtime"
  nd_tasks :: "(nat \<times> 'v conn_task) list"
  nd_next_task :: nat

definition spawn_task :: "'v conn_task \<Rightarrow> 'v node \<Rightarrow> 'v node" where
  "spawn_task t nd = nd\<lparr>nd_tasks := (nd_next_task nd, t) # nd_tasks nd, nd_next_task := nd_next_task nd + 1\<rparr>"

definition end_task :: "nat \<Rightarrow> 'v runtime \<Rightarrow> 'v node \<Rightarrow> 'v node" where
  "end_task i rt nd = nd\<lparr>nd_runtime := rt, nd_tasks := AList.delete i (nd_tasks nd)\<rparr>"

definition keep_task :: "nat \<Rightarrow> 'v conn_task \<Rightarrow> 'v runtime \<Rightarrow> 'v node \<Rightarrow> 'v node" where
  "keep_task i t rt nd = nd\<lparr>nd_runtime := rt, nd_tasks := AList.update i t (nd_tasks nd)\<rparr>"

definition handle_inbound :: "('k, 'v) run_env \<Rightarrow> socket_addr \<Rightarrow> 'v node \<Rightarrow> 'v node" where
  "handle_inbound env peer nd = (let rt = nd_runtime nd; addr = show_socket_addr peer in
     case begin_inbound addr (rt_peers rt) of (m, outcome) \<Rightarrow>
     let rt = rt\<lparr>rt_peers := m\<rparr>; nd = nd\<lparr>nd_runtime := rt\<rparr> in
     if outcome = InAccepted
     then spawn_task (Pumping (conn_new (ev_now env) (session_new Inbound (session_config rt) addr) addr Inbound None rt)) nd
     else nd)"

definition outbound_task :: "('k, 'v) run_env \<Rightarrow> 'v runtime \<Rightarrow> string \<Rightarrow> 'v conn_task" where
  "outbound_task env rt addr = (case session_start (unix_i64 env 0) (session_new Outbound (session_config rt) addr) of
     (session, hello) \<Rightarrow> Dialling addr session hello)"

definition run_maintenance :: "('k, 'v) run_env \<Rightarrow> 'v node \<Rightarrow> 'v node" where
  "run_maintenance env nd = (case maintain_outbound env (nd_runtime nd) of (rt, addrs) \<Rightarrow>
     fold (\<lambda>addr. spawn_task (outbound_task env rt addr)) addrs (nd\<lparr>nd_runtime := rt\<rparr>))"

text \<open>The dial of task \<open>i\<close> ends: \<open>result\<close> is \<open>None\<close> for a failure or a timeout, otherwise the address
  of the peer's socket as far as it is known.\<close>

definition dial_result :: "('k, 'v) run_env \<Rightarrow> nat \<Rightarrow> socket_addr option option \<Rightarrow> 'v node \<Rightarrow> 'v node" where
  "dial_result env i result nd = (case map_of (nd_tasks nd) i of
     Some (Dialling addr session hello) \<Rightarrow>
       (let rt = nd_runtime nd in case result of
          None \<Rightarrow> end_task i (dial_failed (ev_now env) addr rt) nd
        | Some peer \<Rightarrow>
            let c = conn_new (ev_now env) session addr Outbound (map_option (\<lambda>sa. canonical (from_socket_addr sa)) peer) rt;
                (c, ok) = (case hello of Some m \<Rightarrow> write_msg env 0 m c | None \<Rightarrow> (c, True))
            in if ok then keep_task i (Pumping c) rt nd else end_task i (dial_failed (ev_now env) addr rt) nd)
   | _ \<Rightarrow> nd)"

text \<open>What the two kinds of task do when their pump has ended.\<close>

definition conn_ended :: "('k, 'v) run_env \<Rightarrow> 'v runtime \<times> 'v conn \<Rightarrow> 'v runtime" where
  "conn_ended env s = (case pump_finish s of (rt, result) \<Rightarrow> let addr = cn_addr (snd s) in
     case cn_direction (snd s) of
       Inbound \<Rightarrow> rt\<lparr>rt_peers := end_inbound addr (rt_peers rt)\<rparr>
     | Outbound \<Rightarrow>
         let rt = rt\<lparr>rt_peers := end_outbound addr (rt_peers rt)\<rparr>;
             (rt, delay) = (case result of ClosedCleanly \<Rightarrow> (rt, backoff_initial_secs (pm_config (rt_peers rt)))
                | _ \<Rightarrow> failure_backoff addr rt)
         in schedule_retry (ev_now env) addr delay rt)"

definition pump_task :: "('k, 'v) run_env \<Rightarrow> nat \<Rightarrow> ('v runtime \<times> 'v conn \<Rightarrow> ('v runtime \<times> 'v conn) \<times> bool) \<Rightarrow> 'v node \<Rightarrow> 'v node" where
  "pump_task env i branch nd = (case map_of (nd_tasks nd) i of
     Some (Pumping c) \<Rightarrow> (case branch (nd_runtime nd, c) of (s, stop) \<Rightarrow>
        if stop then end_task i (conn_ended env s) nd else keep_task i (Pumping (snd s)) (fst s) nd)
   | _ \<Rightarrow> nd)"

datatype node_event =
  Accepted socket_addr | MaintenanceTick | DialResult nat "socket_addr option option"
| Arrival nat bytes | PollRead nat bool bool | KeepaliveTick nat | OutboxReady nat | SyncTurn nat | ShutdownSeen nat

fun node_step :: "('k, 'v) run_env \<times> node_event \<Rightarrow> 'v node \<Rightarrow> 'v node" where
  "node_step (env, Accepted peer) nd = handle_inbound env peer nd"
| "node_step (env, MaintenanceTick) nd = run_maintenance env nd"
| "node_step (env, DialResult i result) nd = dial_result env i result nd"
| "node_step (env, Arrival i b) nd = pump_task env i (\<lambda>(rt, c). ((rt, c\<lparr>cn_socket := cn_socket c @ b\<rparr>), False)) nd"
| "node_step (env, PollRead i ended failed) nd = pump_task env i (pump_read env ended failed) nd"
| "node_step (env, KeepaliveTick i) nd = pump_task env i (pump_tick env) nd"
| "node_step (env, OutboxReady i) nd = pump_task env i (pump_outbox env) nd"
| "node_step (env, SyncTurn i) nd = pump_task env i (\<lambda>s. (sync_task_turn s, False)) nd"
| "node_step (env, ShutdownSeen i) nd = pump_task env i (pump_shutdown env) nd"

definition node_new :: "'v runtime \<Rightarrow> 'v node" where
  "node_new rt = \<lparr>nd_runtime = rt, nd_tasks = [], nd_next_task = 0\<rparr>"

end
