(* ===== verification/P2p_Accounts.thy ===== *)
theory P2p_Accounts
  imports P2p_Runtime
begin

text \<open>
  What the connection runtime guarantees over all interleavings of its tasks: the slots of the peer
  manager and the links of the hub are exactly those of the running connections, an address is not
  dialled again before its delay has passed, and a frame that arrives in two parts can be lost when
  another branch of the loop runs in between.
\<close>

subsection \<open>Resources held by tasks\<close>

text \<open>\<open>owned h R\<close>: the resources in \<open>R\<close> are exactly those that \<open>h\<close> assigns to some holder, each to one holder only.\<close>

definition owned :: "('i \<rightharpoonup> 'r) \<Rightarrow> 'r set \<Rightarrow> bool" where
  "owned h R \<longleftrightarrow> ran h = R \<and> inj_on h (dom h)"

lemma owned_empty: "owned Map.empty {}"
  by (simp add: owned_def)

lemma owned_acquire: "owned h R \<Longrightarrow> h i = None \<Longrightarrow> r \<notin> R \<Longrightarrow> owned (h(i \<mapsto> r)) (insert r R)"
  by (auto simp: owned_def inj_on_def ran_def split: if_splits) (metis option.distinct(1))

lemma owned_release: "owned h R \<Longrightarrow> h i = Some r \<Longrightarrow> owned (h(i := None)) (R - {r})"
  by (auto simp: owned_def inj_on_def ran_def dom_def split: if_splits) (metis option.inject)+

lemma owned_keep: "owned h R \<Longrightarrow> h i = v \<Longrightarrow> owned (h(i := v)) R"
  by auto

lemma owned_card:
  assumes "owned h R"
  shows "card R = card (dom h)"
proof -
  have "Some ` R = h ` dom h" using assms by (auto simp: owned_def ran_def image_iff dom_def) metis+
  then show ?thesis using assms by (metis owned_def card_image inj_Some)
qed

subsection \<open>What the branches leave alone\<close>

definition slots_view :: "peer_manager \<Rightarrow> string set \<times> string set \<times> peer_manager_config" where
  "slots_view m = (pm_inbound m, pm_outbound m, pm_config m)"

definition link_view :: "'v gossip_hub \<Rightarrow> nat \<times> nat list" where
  "link_view h = (hub_next_id h, map fst (hub_peers h))"

definition conn_view :: "'v conn \<Rightarrow> nat option \<times> bool \<times> string \<times> direction \<times> session" where
  "conn_view c = (cn_conn_id c, cn_established c, cn_addr c, cn_direction c, cn_session c)"

lemma conn_view_local [simp]:
  "conn_view (c\<lparr>cn_clean := b\<rparr>) = conn_view c" "conn_view (c\<lparr>cn_outbox := q\<rparr>) = conn_view c"
  "conn_view (c\<lparr>cn_sync_counter := sc\<rparr>) = conn_view c" "conn_view (c\<lparr>cn_sync_task := st\<rparr>) = conn_view c"
  "conn_view (c\<lparr>cn_keepalive := ka\<rparr>) = conn_view c" "conn_view (c\<lparr>cn_ping_nonce := n\<rparr>) = conn_view c"
  "conn_view (c\<lparr>cn_socket := bs\<rparr>) = conn_view c" "conn_view (c\<lparr>cn_partial := bs\<rparr>) = conn_view c"
  "conn_view (c\<lparr>cn_sent := ms\<rparr>) = conn_view c"
  by (simp_all add: conn_view_def)

lemma slots_view_ops [simp]:
  "slots_view (fst (add_peer now rowid a source m)) = slots_view m"
  "slots_view (fst (record_success a now m)) = slots_view m"
  "slots_view (fst (record_resolved_ip a ip m)) = slots_view m"
  "slots_view (fst (record_failure a m)) = slots_view m"
  "slots_view (fst (note_self_connect a m)) = slots_view m"
  by (simp_all add: slots_view_def add_peer_slots on_peer_slots record_success_def record_resolved_ip_def record_failure_def)
    (simp add: note_self_connect_def split: sum.splits prod.splits)

lemma slots_view_candidates [simp]: "slots_view (add_candidates env ps m) = slots_view m"
proof -
  have "slots_view (fold (\<lambda>(i, p) m. fst (add_peer (unix_i64 env i) (ev_rowid env i) (canonical p) Pex m)) xs m) = slots_view m" for xs
    by (induction xs arbitrary: m) auto
  then show ?thesis by (simp add: add_candidates_def)
qed

lemma update_present_keys: "map_of al k = Some l \<Longrightarrow> map fst (AList.update k v al) = map fst al"
  by (induction al) (auto split: if_splits)

lemma link_view_ops [simp]:
  "link_view (fst (send_to i m h)) = link_view h"
  "link_view (broadcast_event to_value null ev exclude h) = link_view h"
  by (auto simp: link_view_def send_to_def broadcast_event_def update_present_keys Let_def split_beta split: option.splits)

lemma link_view_on_event [simp]: "link_view (fst (hub_on_event ns to_value null raw source conn_id now td ts h)) = link_view h"
  by (auto simp: hub_on_event_def Let_def split: prod.splits sum.splits option.splits) (simp_all add: link_view_def broadcast_event_def Let_def split_beta)

lemma outbox_send_views [simp]:
  "slots_view (rt_peers (fst (outbox_send m s))) = slots_view (rt_peers (fst s))"
  "link_view (rt_hub (fst (outbox_send m s))) = link_view (rt_hub (fst s))"
  "conn_view (snd (outbox_send m s)) = conn_view (snd s)"
  "rt_pex_enabled (fst (outbox_send m s)) = rt_pex_enabled (fst s)"
  "rt_backoff (fst (outbox_send m s)) = rt_backoff (fst s)"
  by (auto simp: outbox_send_def conn_view_def split: prod.splits option.splits)

lemma set_queue_views [simp]:
  "slots_view (rt_peers (fst (set_queue q s))) = slots_view (rt_peers (fst s))"
  "link_view (rt_hub (fst (set_queue q s))) = link_view (rt_hub (fst s))"
  "conn_view (snd (set_queue q s)) = conn_view (snd s)"
  "rt_backoff (fst (set_queue q s)) = rt_backoff (fst s)"
  by (auto simp: set_queue_def conn_view_def link_view_def update_present_keys split: prod.splits option.splits)

lemma write_msg_view [simp]: "conn_view (fst (write_msg env i m c)) = conn_view c"
  by (simp add: write_msg_def conn_view_def)

lemma send_close_view [simp]: "conn_view (send_close env i reason c) = conn_view c"
  by (simp add: send_close_def)

lemma handle_deliver_views:
  assumes "handle_deliver env m (rt, c) = ((rt', c'), go_on)"
  shows "slots_view (rt_peers rt') = slots_view (rt_peers rt) \<and> link_view (rt_hub rt') = link_view (rt_hub rt) \<and>
    rt_backoff rt' = rt_backoff rt \<and> conn_view c' = conn_view c"
proof -
  have "slots_view (rt_peers (fst (fst (handle_deliver env m (rt, c))))) = slots_view (rt_peers rt) \<and>
      link_view (rt_hub (fst (fst (handle_deliver env m (rt, c))))) = link_view (rt_hub rt) \<and>
      rt_backoff (fst (fst (handle_deliver env m (rt, c)))) = rt_backoff rt \<and>
      conn_view (snd (fst (handle_deliver env m (rt, c)))) = conn_view c"
    by (cases m) (simp_all add: handle_deliver_def split_beta Let_def runtime_log_def)
  with assms show ?thesis by simp
qed

subsection \<open>What a branch does to the shared accounts\<close>

text \<open>A running connection is registered with the hub exactly when its session is established.\<close>

definition conn_ok :: "'v conn \<Rightarrow> bool" where
  "conn_ok c \<longleftrightarrow> (cn_established c \<longleftrightarrow> cn_conn_id c \<noteq> None) \<and> (cn_established c \<longleftrightarrow> se_state (cn_session c) = Established)"

lemma conn_ok_view: "conn_view c' = conn_view c \<Longrightarrow> conn_ok c' \<longleftrightarrow> conn_ok c"
  by (simp add: conn_ok_def conn_view_def)

definition quiet :: "'v runtime \<times> 'v conn \<Rightarrow> 'v runtime \<times> 'v conn \<Rightarrow> bool" where
  "quiet s s' \<longleftrightarrow> slots_view (rt_peers (fst s')) = slots_view (rt_peers (fst s)) \<and> link_view (rt_hub (fst s')) = link_view (rt_hub (fst s)) \<and>
     rt_backoff (fst s') = rt_backoff (fst s) \<and> cn_conn_id (snd s') = cn_conn_id (snd s) \<and> cn_addr (snd s') = cn_addr (snd s) \<and> cn_direction (snd s') = cn_direction (snd s)"

definition registers :: "'v runtime \<times> 'v conn \<Rightarrow> 'v runtime \<times> 'v conn \<Rightarrow> bool" where
  "registers s s' \<longleftrightarrow> slots_view (rt_peers (fst s')) = slots_view (rt_peers (fst s)) \<and> rt_backoff (fst s') = rt_backoff (fst s) \<and> cn_conn_id (snd s) = None \<and>
     cn_conn_id (snd s') = Some (hub_next_id (rt_hub (fst s))) \<and>
     hub_next_id (rt_hub (fst s')) = wrapping_add_u64 (hub_next_id (rt_hub (fst s))) 1 \<and>
     map fst (hub_peers (rt_hub (fst s'))) = (let ids = map fst (hub_peers (rt_hub (fst s))); i = hub_next_id (rt_hub (fst s))
       in if i \<in> set ids then ids else ids @ [i]) \<and>
     cn_addr (snd s') = cn_addr (snd s) \<and> cn_direction (snd s') = cn_direction (snd s)"

definition branch_ok :: "'v runtime \<times> 'v conn \<Rightarrow> ('v runtime \<times> 'v conn) \<times> bool \<Rightarrow> bool" where
  "branch_ok s r \<longleftrightarrow> (quiet s (fst r) \<or> \<not> snd r \<and> registers s (fst r)) \<and> (\<not> snd r \<longrightarrow> conn_ok (snd (fst r)))"

lemma quiet_conn_view:
  "slots_view (rt_peers rt') = slots_view (rt_peers rt) \<Longrightarrow> link_view (rt_hub rt') = link_view (rt_hub rt) \<Longrightarrow>
     rt_backoff rt' = rt_backoff rt \<Longrightarrow> conn_view c' = conn_view c \<Longrightarrow> quiet (rt, c) (rt', c')"
  by (simp add: quiet_def conn_view_def)

text \<open>The action lists a session can return.\<close>

lemma on_frame_actions:
  assumes "on_frame now ts n m s = (s', Inr acts)"
  shows "(\<exists>a. acts = [Send a, EstablishedNotice]) \<and> se_state s \<noteq> Established \<and> se_state s' = Established \<or>
     acts = [EstablishedNotice] \<and> se_state s \<noteq> Established \<and> se_state s' = Established \<or>
     (\<exists>r. acts = [PeerClosed r]) \<or> (\<exists>d. acts = [Deliver d]) \<and> se_state s = Established \<and> se_state s' = Established"
  using assms
  by (auto simp: on_frame_def handle_handshake_def handle_established_def accept_peer_hello_def fail_invalid_frame_def Let_def
      split: prod.splits sum.splits session_state.splits direction.splits message.splits if_splits)

lemma on_established_views [simp]:
  "slots_view (rt_peers (on_established env dir addr ip rt)) = slots_view (rt_peers rt)"
  "rt_hub (on_established env dir addr ip rt) = rt_hub rt"
  "slots_view (rt_peers (register_inbound_candidate env addr p rt)) = slots_view (rt_peers rt)"
  "rt_hub (register_inbound_candidate env addr p rt) = rt_hub rt"
  "rt_backoff (on_established env dir addr ip rt) = rt_backoff rt"
  "rt_backoff (register_inbound_candidate env addr p rt) = rt_backoff rt"
  by (auto simp: on_established_def register_inbound_candidate_def Let_def split: direction.splits option.splits)

lemma conn_view_established [simp]:
  "conn_view (c\<lparr>cn_established := True, cn_conn_id := Some i\<rparr>) = (Some i, True, cn_addr c, cn_direction c, cn_session c)"
  by (simp add: conn_view_def)

lemma link_view_register [simp]:
  "link_view (register_peer i addr dir skew h) = (hub_next_id h, let ids = map fst (hub_peers h) in if i \<in> set ids then ids else ids @ [i])"
  by (simp add: link_view_def register_peer_def update_keys)

lemma pump_established_registers:
  assumes "cn_conn_id c = None" "se_state (cn_session c) = Established"
  shows "registers (rt, c) (pump_established env (rt, c))" "conn_ok (snd (pump_established env (rt, c)))"
proof -
  let ?i = "hub_next_id (rt_hub rt)"
  let ?s = "pump_established env (rt, c)"
  have v: "slots_view (rt_peers (fst ?s)) = slots_view (rt_peers rt)" "rt_backoff (fst ?s) = rt_backoff rt"
    "link_view (rt_hub (fst ?s)) = (wrapping_add_u64 ?i 1, let ids = map fst (hub_peers (rt_hub rt)) in if ?i \<in> set ids then ids else ids @ [?i])"
    "conn_view (snd ?s) = (Some ?i, True, cn_addr c, cn_direction c, cn_session c)"
    by (auto simp: pump_established_def next_conn_id_def split_beta Let_def)
  have "conn_ok (snd ?s)" using v(4) assms(2) by (simp add: conn_ok_def conn_view_def)
  then show "conn_ok (snd ?s)" .
  show "registers (rt, c) ?s" using v assms
    by (auto simp: registers_def conn_view_def link_view_def Let_def)
qed


lemma pump_actions_ok:
  assumes "on_frame now ts n m (cn_session c0) = (session, Inr acts)" "conn_ok c0"
    and "conn_view c = conn_view (c0\<lparr>cn_session := session\<rparr>)"
  shows "branch_ok (rt, c) (pump_actions env i acts (rt, c))"
proof -
  have c: "cn_session c = session" "cn_conn_id c = cn_conn_id c0" "cn_established c = cn_established c0" using assms(3) by (simp_all add: conn_view_def)
  consider (est) "(\<exists>a. acts = [Send a, EstablishedNotice]) \<or> acts = [EstablishedNotice]" "se_state (cn_session c0) \<noteq> Established" "se_state session = Established"
    | (closed) r where "acts = [PeerClosed r]"
    | (deliver) d where "acts = [Deliver d]" "se_state (cn_session c0) = Established" "se_state session = Established"
    using on_frame_actions [OF assms(1)] by blast
  then show ?thesis
  proof cases
    case est
    have none: "cn_conn_id c = None" "\<not> cn_established c" using est(2) assms(2) c by (auto simp: conn_ok_def)
    have reg: "branch_ok (rt, c) (pump_established env (rt, c'), False)" if "conn_view c' = conn_view c" for c'
      using pump_established_registers [where c = c' and rt = rt and env = env] that none est(3) c by (auto simp: branch_ok_def registers_def conn_view_def)
    have stop: "branch_ok (rt, c) ((rt, c'), True)" if "conn_view c' = conn_view c" for c'
      using that by (simp add: branch_ok_def quiet_conn_view)
    show ?thesis using est(1) reg stop by (auto simp: write_msg_def split: if_splits)
  next
    case closed
    then show ?thesis by (auto simp: branch_ok_def quiet_def note_self_def Let_def)
  next
    case deliver
    obtain rt' c' go_on where d: "handle_deliver env d (rt, c) = ((rt', c'), go_on)" by (metis prod.exhaust)
    have "conn_ok c'" using handle_deliver_views [OF d] deliver assms(2) c by (auto simp: conn_ok_def conn_view_def)
    with deliver d show ?thesis by (auto simp: branch_ok_def quiet_conn_view handle_deliver_views [OF d])
  qed
qed

lemma pump_frame_ok:
  assumes "conn_ok c"
  shows "branch_ok (rt, c) (pump_frame env f (rt, c))"
proof -
  let ?c = "c\<lparr>cn_keepalive := on_recv (ev_now env) (cn_keepalive c)\<rparr>"
  obtain session r where f: "on_frame (ev_now env) (unix_i64 env 0) (in_wire_len f) (in_message f) (cn_session c) = (session, r)" by fastforce
  let ?c' = "?c\<lparr>cn_session := session\<rparr>"
  have same: "branch_ok (rt, c) x \<longleftrightarrow> branch_ok (rt, ?c') x" for x by (simp add: branch_ok_def quiet_def registers_def)
  show ?thesis
  proof (cases r)
    case (Inr acts)
    have "branch_ok (rt, ?c') (pump_actions env 0 acts (rt, ?c'))"
      by (rule pump_actions_ok [OF f [unfolded Inr] assms]) (simp add: conn_view_def)
    with f Inr show ?thesis by (subst same) (simp add: pump_frame_def)
  next
    case (Inl d)
    have v: "conn_view (send_close env 0 (dis_reason d) ?c') = conn_view ?c'" by simp
    show ?thesis using f Inl v
      by (auto simp: pump_frame_def Let_def branch_ok_def quiet_def note_self_def runtime_log_def conn_view_def split: option.splits)
  qed
qed

lemma pump_read_ok:
  assumes "conn_ok c"
  shows "branch_ok (rt, c) (pump_read env ended failed (rt, c))"
proof -
  obtain c1 r where p: "poll_read (ev_from_slice env) ended failed c = (c1, r)" by fastforce
  have "conn_view (fst (poll_read (ev_from_slice env) ended failed c)) = conn_view c" by (simp add: poll_read_def Let_def)
  with p have v: "conn_view c1 = conn_view c" by simp
  have same: "branch_ok (rt, c) x \<longleftrightarrow> branch_ok (rt, c1) x" for x
    using v by (simp add: branch_ok_def quiet_def registers_def conn_view_def)
  have ok: "conn_ok c1" using assms conn_ok_view [OF v] by simp
  show ?thesis
  proof (cases "\<exists>f. r = Ready (Inr (Some f))")
    case True
    with p pump_frame_ok [OF ok] show ?thesis by (subst same) (auto simp: pump_read_def)
  next
    case False
    with p ok show ?thesis
      by (subst same) (auto simp: pump_read_def branch_ok_def runtime_log_def quiet_conn_view split: read_poll.splits sum.splits option.splits)
  qed
qed

lemma drop_read_view [simp]: "conn_view (drop_read c) = conn_view c"
  by (simp add: drop_read_def)

lemma quiet_branch:
  assumes "conn_ok c" "slots_view (rt_peers (fst (fst r))) = slots_view (rt_peers rt)" "link_view (rt_hub (fst (fst r))) = link_view (rt_hub rt)"
    "rt_backoff (fst (fst r)) = rt_backoff rt" "conn_view (snd (fst r)) = conn_view c"
  shows "branch_ok (rt, c) r"
  using assms quiet_conn_view [of "fst (fst r)" rt "snd (fst r)" c] conn_ok_view [of "snd (fst r)" c] by (simp add: branch_ok_def)

lemma pump_branches_ok:
  assumes "conn_ok c"
  shows "branch_ok (rt, c) (pump_shutdown env (rt, c))" "branch_ok (rt, c) (pump_tick env (rt, c))"
    "branch_ok (rt, c) (pump_outbox env (rt, c))" "branch_ok (rt, c) (sync_task_turn (rt, c), False)"
    "branch_ok (rt, c) ((rt, c\<lparr>cn_socket := bs\<rparr>), False)"
proof -
  have "conn_view (snd (fst (pump_tick env (rt, c)))) = conn_view c" "fst (fst (pump_tick env (rt, c))) = rt"
    by (simp_all add: pump_tick_def split_beta Let_def split: keepalive_action.splits)
  with assms show "branch_ok (rt, c) (pump_tick env (rt, c))" by (intro quiet_branch) simp_all
  show "branch_ok (rt, c) (pump_outbox env (rt, c))"
    using assms by (intro quiet_branch) (simp_all add: pump_outbox_def split_beta split: list.splits)
  show "branch_ok (rt, c) (sync_task_turn (rt, c), False)"
    using assms by (intro quiet_branch) (simp_all add: sync_task_turn_def split: list.splits option.splits)
qed (use assms in \<open>auto intro: quiet_branch simp: pump_shutdown_def\<close>)

subsection \<open>Every slot and every link belongs to a running connection\<close>

fun task_addr :: "'v conn_task \<Rightarrow> string" where
  "task_addr (Dialling addr session hello) = addr"
| "task_addr (Pumping c) = cn_addr c"

fun task_direction :: "'v conn_task \<Rightarrow> direction" where
  "task_direction (Dialling addr session hello) = Outbound"
| "task_direction (Pumping c) = cn_direction c"

fun task_link :: "'v conn_task \<Rightarrow> nat option" where
  "task_link (Dialling addr session hello) = None"
| "task_link (Pumping c) = cn_conn_id c"

fun task_ok :: "'v conn_task \<Rightarrow> bool" where
  "task_ok (Dialling addr session hello) \<longleftrightarrow> se_state session \<noteq> Established"
| "task_ok (Pumping c) \<longleftrightarrow> conn_ok c"

definition task_slot :: "direction \<Rightarrow> 'v conn_task \<Rightarrow> string option" where
  "task_slot dir t = (if task_direction t = dir then Some (inbound_key (task_addr t)) else None)"

definition holder :: "('v conn_task \<Rightarrow> 'r option) \<Rightarrow> 'v node \<Rightarrow> nat \<rightharpoonup> 'r" where
  "holder res nd = (\<lambda>i. Option.bind (map_of (nd_tasks nd) i) res)"

definition tasks_inv :: "'v node \<Rightarrow> bool" where
  "tasks_inv nd \<longleftrightarrow> (\<forall>i t. map_of (nd_tasks nd) i = Some t \<longrightarrow>
     i < nd_next_task nd \<and> task_ok t \<and> (task_direction t = Outbound \<longrightarrow> \<not> isl (parse_addr (task_addr t))))"

definition slots_held :: "'v node \<Rightarrow> peer_manager \<Rightarrow> bool" where
  "slots_held nd m \<longleftrightarrow> owned (holder (task_slot Inbound) nd) (pm_inbound m) \<and> owned (holder (task_slot Outbound) nd) (pm_outbound m) \<and>
     finite (pm_inbound m) \<and> finite (pm_outbound m) \<and> inbound_count m \<le> inbound_max (pm_config m) \<and> outbound_count m \<le> outbound_target (pm_config m)"

definition links_held :: "nat \<Rightarrow> 'v node \<Rightarrow> 'v gossip_hub \<Rightarrow> bool" where
  "links_held n nd h \<longleftrightarrow> owned (holder task_link nd) (fst ` set (hub_peers h)) \<and> distinct (map fst (hub_peers h)) \<and>
     (\<forall>i \<in> fst ` set (hub_peers h). i < hub_next_id h) \<and> hub_next_id h \<le> n"

definition node_inv :: "nat \<Rightarrow> 'v node \<Rightarrow> bool" where
  "node_inv n nd \<longleftrightarrow> tasks_inv nd \<and> slots_held nd (rt_peers (nd_runtime nd)) \<and> links_held n nd (rt_hub (nd_runtime nd))"

lemma slots_held_view: "slots_view m' = slots_view m \<Longrightarrow> slots_held nd m' \<longleftrightarrow> slots_held nd m"
  by (simp add: slots_held_def slots_view_def inbound_count_def outbound_count_def)

lemma slots_held_tasks: "nd_tasks nd' = nd_tasks nd \<Longrightarrow> slots_held nd' m \<longleftrightarrow> slots_held nd m"
  by (simp add: slots_held_def holder_def)

lemma links_held_view:
  "link_view h' = link_view h \<Longrightarrow> links_held n nd h' \<longleftrightarrow> links_held n nd h"
  unfolding links_held_def link_view_def by (metis Pair_inject list.set_map)

lemma links_held_mono: "links_held n nd h \<Longrightarrow> n \<le> n' \<Longrightarrow> links_held n' nd h"
  by (auto simp: links_held_def)

lemma holder_update:
  "holder res (keep_task i t rt nd) = (holder res nd)(i := res t)" "holder res (end_task i rt nd) = (holder res nd)(i := None)"
  "holder res (spawn_task t nd) = (holder res nd)(nd_next_task nd := res t)"
  by (auto simp: holder_def keep_task_def end_task_def spawn_task_def update_conv' delete_conv')

lemma task_updates:
  "map_of (nd_tasks (keep_task i t rt nd)) = (map_of (nd_tasks nd))(i \<mapsto> t)" "map_of (nd_tasks (end_task i rt nd)) = (map_of (nd_tasks nd))(i := None)"
  "map_of (nd_tasks (spawn_task t nd)) = (map_of (nd_tasks nd))(nd_next_task nd \<mapsto> t)"
  "nd_runtime (keep_task i t rt nd) = rt" "nd_runtime (end_task i rt nd) = rt" "nd_runtime (spawn_task t nd) = nd_runtime nd"
  "nd_next_task (keep_task i t rt nd) = nd_next_task nd" "nd_next_task (end_task i rt nd) = nd_next_task nd"
  "nd_next_task (spawn_task t nd) = nd_next_task nd + 1"
  by (auto simp: keep_task_def end_task_def spawn_task_def update_conv' delete_conv')

lemma holder_runtime [simp]: "holder res (nd\<lparr>nd_runtime := rt\<rparr>) = holder res nd"
  by (simp add: holder_def)

lemma holder_None: "map_of (nd_tasks nd) i = None \<Longrightarrow> holder res nd i = None"
  by (simp add: holder_def)

lemma holder_Some: "map_of (nd_tasks nd) i = Some t \<Longrightarrow> holder res nd i = res t"
  by (simp add: holder_def)

lemma slots_held_keep:
  assumes "slots_held nd m" "map_of (nd_tasks nd) i = Some t" "task_direction t' = task_direction t" "task_addr t' = task_addr t"
  shows "slots_held (keep_task i t' rt nd) m"
  using assms by (simp add: slots_held_def holder_update owned_keep holder_Some task_slot_def)

lemma slots_held_end:
  assumes "slots_held nd m" "map_of (nd_tasks nd) i = Some t"
    and "m' = (case task_direction t of Inbound \<Rightarrow> end_inbound (task_addr t) m | Outbound \<Rightarrow> end_outbound (task_addr t) m)"
    and "task_direction t = Outbound \<Longrightarrow> \<not> isl (parse_addr (task_addr t))"
  shows "slots_held (end_task i rt nd) m'"
proof -
  have h: "holder (task_slot (task_direction t)) nd i = Some (inbound_key (task_addr t))"
    "dir \<noteq> task_direction t \<Longrightarrow> holder (task_slot dir) nd i = None" for dir
    using assms(2) by (simp_all add: holder_Some task_slot_def)
  have k: "card (A - {x}) \<le> n" if "card A \<le> n" for A :: "string set" and x n
    using card_Diff1_le [of A x] that by linarith
  show ?thesis
  proof (cases "task_direction t")
    case Inbound
    with assms(1,3) h h(2) [of Outbound] show ?thesis
      by (auto simp: slots_held_def holder_update end_inbound_def owned_release owned_keep inbound_count_def outbound_count_def k)
  next
    case Outbound
    then obtain p where "parse_addr (task_addr t) = Inr p" using assms(4) by (cases "parse_addr (task_addr t)") auto
    with Outbound assms(1,3) h h(2) [of Inbound] show ?thesis
      by (auto simp: slots_held_def holder_update end_outbound_def inbound_key_def owned_release owned_keep inbound_count_def outbound_count_def k)
  qed
qed

lemma links_held_keep:
  "links_held n nd h \<Longrightarrow> map_of (nd_tasks nd) i = Some t \<Longrightarrow> task_link t' = task_link t \<Longrightarrow> links_held n (keep_task i t' rt nd) h"
  by (simp add: links_held_def holder_update owned_keep holder_Some)

lemma links_held_end:
  assumes "links_held n nd h" "map_of (nd_tasks nd) i = Some t"
    and "h' = (case task_link t of Some l \<Rightarrow> unregister_peer l h | None \<Rightarrow> h)"
  shows "links_held n (end_task i rt nd) h'"
proof (cases "task_link t")
  case None
  with assms show ?thesis by (simp add: links_held_def holder_update owned_keep holder_Some)
next
  case (Some l)
  have keys: "fst ` set (hub_peers (unregister_peer l h)) = fst ` set (hub_peers h) - {l}"
    by (auto simp: unregister_peer_def AList.delete_eq image_iff)
  have "hub_next_id (unregister_peer l h) = hub_next_id h" "distinct (map fst (hub_peers (unregister_peer l h)))"
    using assms(1) by (simp_all add: unregister_peer_def links_held_def distinct_delete)
  moreover have "owned (holder task_link (end_task i rt nd)) (fst ` set (hub_peers h) - {l})"
    using assms(1,2) Some by (auto simp: links_held_def holder_update holder_Some intro!: owned_release)
  ultimately show ?thesis using assms(1,3) Some keys by (auto simp: links_held_def)
qed

lemma links_held_register:
  assumes "links_held n nd (rt_hub rt)" "n < u64_max" "map_of (nd_tasks nd) i = Some (Pumping c)" "registers (rt, c) (rt', c')"
  shows "links_held (n + 1) (keep_task i (Pumping c') rt0 nd) (rt_hub rt')"
proof -
  let ?h = "rt_hub rt" and ?i = "hub_next_id (rt_hub rt)"
  have new: "?i \<notin> fst ` set (hub_peers ?h)" using assms(1) by (auto simp: links_held_def)
  then have ids: "map fst (hub_peers (rt_hub rt')) = map fst (hub_peers ?h) @ [?i]" using assms(4) by (simp add: registers_def Let_def)
  then have set: "fst ` set (hub_peers (rt_hub rt')) = insert ?i (fst ` set (hub_peers ?h))" by (metis list.set_map set_append list.simps(15) list.set(1) Un_insert_right sup_bot_right)
  have nxt: "hub_next_id (rt_hub rt') = ?i + 1"
    using assms(1,2,4) by (simp add: registers_def links_held_def wrapping_add_u64_def u64_max_def)
  have "owned (holder task_link (keep_task i (Pumping c') rt0 nd)) (insert ?i (fst ` set (hub_peers ?h)))"
    using assms(1,3,4) new by (simp add: holder_update registers_def links_held_def owned_acquire holder_Some)
  with assms(1) new show ?thesis unfolding links_held_def set ids nxt by (auto simp: less_Suc_eq)
qed

subsection \<open>Steps keep the accounts\<close>

lemma failure_backoff_views [simp]:
  "slots_view (rt_peers (fst (failure_backoff addr rt))) = slots_view (rt_peers rt)" "rt_hub (fst (failure_backoff addr rt)) = rt_hub rt"
  by (simp_all add: failure_backoff_def split_beta)

lemma schedule_retry_views [simp]:
  "rt_peers (schedule_retry now addr delay rt) = rt_peers rt" "rt_hub (schedule_retry now addr delay rt) = rt_hub rt"
  by (simp_all add: schedule_retry_def)

lemma dial_failed_views:
  "slots_view (rt_peers (dial_failed now addr rt)) = slots_view (end_outbound addr (rt_peers rt))" "rt_hub (dial_failed now addr rt) = rt_hub rt"
  by (simp_all add: dial_failed_def split_beta Let_def)

lemma conn_ended_views:
  "slots_view (rt_peers (conn_ended env (rt, c))) = slots_view (case cn_direction c of
     Inbound \<Rightarrow> end_inbound (cn_addr c) (rt_peers rt) | Outbound \<Rightarrow> end_outbound (cn_addr c) (rt_peers rt))"
  "rt_hub (conn_ended env (rt, c)) = (case cn_conn_id c of Some i \<Rightarrow> unregister_peer i (rt_hub rt) | None \<Rightarrow> rt_hub rt)"
  by (auto simp: conn_ended_def pump_finish_def split_beta Let_def split: direction.splits option.splits pump_end.splits)

lemma tasks_inv_keep:
  "tasks_inv nd \<Longrightarrow> map_of (nd_tasks nd) i = Some t \<Longrightarrow> task_ok t' \<Longrightarrow> task_direction t' = task_direction t \<Longrightarrow> task_addr t' = task_addr t \<Longrightarrow>
     tasks_inv (keep_task i t' rt nd)"
  by (simp add: tasks_inv_def task_updates)

lemma tasks_inv_end: "tasks_inv nd \<Longrightarrow> tasks_inv (end_task i rt nd)"
  by (simp add: tasks_inv_def task_updates)

lemma task_ended_inv:
  assumes "node_inv n nd" "map_of (nd_tasks nd) i = Some t"
    and "slots_view (rt_peers rt') = slots_view (case task_direction t of
       Inbound \<Rightarrow> end_inbound (task_addr t) (rt_peers rt) | Outbound \<Rightarrow> end_outbound (task_addr t) (rt_peers rt))"
    and "rt_hub rt' = (case task_link t of Some l \<Rightarrow> unregister_peer l (rt_hub rt) | None \<Rightarrow> rt_hub rt)"
    and "slots_view (rt_peers rt) = slots_view (rt_peers (nd_runtime nd))" "link_view (rt_hub rt) = link_view (rt_hub (nd_runtime nd))"
  shows "node_inv n (end_task i rt' nd)"
proof -
  have "slots_held nd (rt_peers rt)" "links_held n nd (rt_hub rt)" "tasks_inv nd"
    using assms(1) slots_held_view [OF assms(5), of nd] links_held_view [OF assms(6), of n nd] by (simp_all add: node_inv_def)
  moreover from this assms(2) have "task_direction t = Outbound \<Longrightarrow> \<not> isl (parse_addr (task_addr t))" by (simp add: tasks_inv_def)
  ultimately have "slots_held (end_task i rt' nd) (rt_peers rt')" "links_held n (end_task i rt' nd) (rt_hub rt')"
    using slots_held_end [OF _ assms(2) refl] slots_held_view [OF assms(3)] links_held_end [OF _ assms(2,4)] by blast+
  with assms(1) show ?thesis by (simp add: node_inv_def tasks_inv_end task_updates)
qed

lemma pump_task_inv:
  assumes "node_inv n nd" "n < u64_max" "\<And>rt c. conn_ok c \<Longrightarrow> branch_ok (rt, c) (branch (rt, c))"
  shows "node_inv (n + 1) (pump_task env i branch nd)"
proof (cases "\<exists>c. map_of (nd_tasks nd) i = Some (Pumping c)")
  case False
  then show ?thesis using assms(1) links_held_mono [of n nd _ "n + 1"]
    by (auto simp: pump_task_def node_inv_def split: option.splits conn_task.splits)
next
  case True
  then obtain c where c: "map_of (nd_tasks nd) i = Some (Pumping c)" by blast
  obtain rt' c' stop where b: "branch (nd_runtime nd, c) = ((rt', c'), stop)" by (metis prod.exhaust)
  have inv: "tasks_inv nd" "slots_held nd (rt_peers (nd_runtime nd))" "links_held n nd (rt_hub (nd_runtime nd))" using assms(1) by (simp_all add: node_inv_def)
  have "conn_ok c" using c inv(1) by (fastforce simp: tasks_inv_def)
  then have ok: "branch_ok (nd_runtime nd, c) ((rt', c'), stop)" using assms(3) b by metis
  show ?thesis
  proof (cases stop)
    case True
    with ok have q: "quiet (nd_runtime nd, c) (rt', c')" by (simp add: branch_ok_def)
    have "node_inv n (end_task i (conn_ended env (rt', c')) nd)"
      by (rule task_ended_inv [OF assms(1) c, of _ rt']) (use q in \<open>simp_all add: conn_ended_views quiet_def split: direction.split\<close>)
    with True b c show ?thesis by (auto simp: pump_task_def node_inv_def links_held_def)
  next
    case False
    have core: "slots_view (rt_peers rt') = slots_view (rt_peers (nd_runtime nd))" "cn_addr c' = cn_addr c" "cn_direction c' = cn_direction c" "conn_ok c'"
      using ok False by (auto simp: branch_ok_def quiet_def registers_def)
    have "links_held (n + 1) (keep_task i (Pumping c') rt' nd) (rt_hub rt')"
    proof (cases "quiet (nd_runtime nd, c) (rt', c')")
      case True
      then have "links_held n (keep_task i (Pumping c') rt' nd) (rt_hub rt')"
        using links_held_keep [OF inv(3) c] links_held_view [of "rt_hub rt'" "rt_hub (nd_runtime nd)"] by (simp add: quiet_def)
      then show ?thesis by (rule links_held_mono) simp
    next
      case False
      with ok \<open>\<not> stop\<close> show ?thesis using links_held_register [OF inv(3) assms(2) c] by (simp add: branch_ok_def)
    qed
    moreover have "slots_held (keep_task i (Pumping c') rt' nd) (rt_peers rt')"
      using slots_held_keep [OF inv(2) c] core slots_held_view [OF core(1), of "keep_task i (Pumping c') rt' nd"] by simp
    moreover have "tasks_inv (keep_task i (Pumping c') rt' nd)" using tasks_inv_keep [OF inv(1) c] core by simp
    ultimately show ?thesis using False b c by (simp add: pump_task_def node_inv_def task_updates)
  qed
qed

lemma tasks_fresh: "tasks_inv nd \<Longrightarrow> map_of (nd_tasks nd) (nd_next_task nd) = None"
  by (cases "map_of (nd_tasks nd) (nd_next_task nd)") (auto simp: tasks_inv_def)

lemma handle_inbound_inv:
  assumes "node_inv n nd"
  shows "node_inv n (handle_inbound env peer nd)"
proof -
  let ?addr = "show_socket_addr peer" and ?m = "rt_peers (nd_runtime nd)"
  have inv: "tasks_inv nd" "slots_held nd ?m" "links_held n nd (rt_hub (nd_runtime nd))" using assms by (simp_all add: node_inv_def)
  note fresh = tasks_fresh [OF inv(1)]
  obtain m outcome where b: "begin_inbound ?addr ?m = (m, outcome)" by fastforce
  show ?thesis
  proof (cases "outcome = InAccepted")
    case False
    with b have "m = ?m" by (auto simp: begin_inbound_def Let_def split: if_splits)
    with False b inv show ?thesis
      by (simp add: handle_inbound_def Let_def node_inv_def tasks_inv_def slots_held_tasks slots_held_def links_held_def holder_def)
  next
    case True
    define c where "c = conn_new (ev_now env) (session_new Inbound (session_config ((nd_runtime nd)\<lparr>rt_peers := m\<rparr>)) ?addr) ?addr Inbound None ((nd_runtime nd)\<lparr>rt_peers := m\<rparr>)"
    have c: "conn_ok c" "cn_addr c = ?addr" "cn_direction c = Inbound" "cn_conn_id c = None"
      by (simp_all add: c_def conn_new_def conn_ok_def session_new_def)
    let ?nd = "spawn_task (Pumping c) (nd\<lparr>nd_runtime := (nd_runtime nd)\<lparr>rt_peers := m\<rparr>\<rparr>)"
    from b True have m: "m = ?m\<lparr>pm_inbound := insert (inbound_key ?addr) (pm_inbound ?m)\<rparr>" "inbound_key ?addr \<notin> pm_inbound ?m"
        "inbound_count ?m < inbound_max (pm_config ?m)"
      by (auto simp: begin_inbound_def Let_def split: if_splits)
    have "slots_held ?nd m"
      using inv(2) m c by (auto simp: slots_held_def holder_update holder_None [OF fresh] task_slot_def owned_acquire owned_keep inbound_count_def outbound_count_def)
    moreover have "links_held n ?nd (rt_hub (nd_runtime nd))"
      using inv(3) c by (simp add: links_held_def holder_update holder_None [OF fresh] owned_keep)
    moreover have "tasks_inv ?nd" using inv(1) c by (auto simp: tasks_inv_def task_updates less_SucI)
    ultimately have "node_inv n ?nd" by (simp add: node_inv_def task_updates)
    with b True show ?thesis by (simp add: handle_inbound_def Let_def c_def)
  qed
qed

lemma launch_loop_result:
  assumes "launch_loop env i room cs rt = (rt', addrs)"
  shows "pm_outbound (rt_peers rt') = pm_outbound (rt_peers rt) \<union> inbound_key ` set addrs \<and> distinct (map inbound_key addrs) \<and>
     inbound_key ` set addrs \<inter> pm_outbound (rt_peers rt) = {} \<and> length addrs \<le> room \<and> (\<forall>a \<in> set addrs. \<not> isl (parse_addr a)) \<and>
     (\<forall>a \<in> set addrs. \<not> backoff_active a (ev_now env) rt) \<and>
     pm_inbound (rt_peers rt') = pm_inbound (rt_peers rt) \<and> pm_config (rt_peers rt') = pm_config (rt_peers rt) \<and>
     rt_hub rt' = rt_hub rt \<and> rt_backoff rt' = rt_backoff rt"
  using assms
proof (induction cs arbitrary: i room rt rt' addrs)
  case (Cons c cs)
  obtain m outcome where b: "begin_outbound (ev_manager_now env i) (pe_addr c) (pe_verified c) (rt_peers rt) = (m, outcome)" by fastforce
  have unchanged: "m = rt_peers rt" if "outcome \<noteq> Started"
    using b that by (auto simp: begin_outbound_def Let_def split: sum.splits if_splits option.splits)
  have active: "backoff_active a t (rt\<lparr>rt_peers := m\<rparr>) \<longleftrightarrow> backoff_active a t rt" for a t by (simp add: backoff_active_def)
  consider "room = 0" | "room \<noteq> 0" "backoff_active (pe_addr c) (ev_now env) rt"
    | "room \<noteq> 0" "\<not> backoff_active (pe_addr c) (ev_now env) rt" "outcome \<noteq> Started"
    | "room \<noteq> 0" "\<not> backoff_active (pe_addr c) (ev_now env) rt" "outcome = Started" by blast
  then show ?case
  proof cases
    case 1
    with Cons.prems show ?thesis by simp
  next
    case 2
    with Cons show ?thesis by auto
  next
    case 3
    with Cons b unchanged show ?thesis by (cases outcome) (auto simp: Let_def)
  next
    case 4
    obtain rt1 as where l: "launch_loop env (Suc i) (room - 1) cs (rt\<lparr>rt_peers := m\<rparr>) = (rt1, as)" by fastforce
    from b 4 have k: "\<not> isl (parse_addr (pe_addr c))" "inbound_key (pe_addr c) \<notin> pm_outbound (rt_peers rt)"
        "pm_outbound m = insert (inbound_key (pe_addr c)) (pm_outbound (rt_peers rt))" "pm_inbound m = pm_inbound (rt_peers rt)" "pm_config m = pm_config (rt_peers rt)"
      by (auto simp: begin_outbound_def inbound_key_def Let_def split: sum.splits if_splits option.splits)
    have r: "rt' = rt1" "addrs = pe_addr c # as" using Cons.prems 4 b l by (auto simp: Let_def)
    note ih = Cons.IH [OF l, simplified active]
    have "length as + 1 \<le> room" using ih 4(1) by linarith
    moreover have "inbound_key (pe_addr c) \<notin> inbound_key ` set as" using ih k(3) by auto
    ultimately show ?thesis unfolding r using ih k 4(2) by auto
  qed
qed simp

lemma spawn_outbound:
  assumes "tasks_inv nd" "owned (holder (task_slot Outbound) nd) R" "owned (holder (task_slot Inbound) nd) I" "owned (holder task_link nd) L"
    and "distinct (map inbound_key addrs)" "inbound_key ` set addrs \<inter> R = {}" "\<forall>a \<in> set addrs. \<not> isl (parse_addr a)"
  shows "tasks_inv (fold (\<lambda>addr. spawn_task (outbound_task env rt addr)) addrs nd) \<and>
     owned (holder (task_slot Outbound) (fold (\<lambda>addr. spawn_task (outbound_task env rt addr)) addrs nd)) (R \<union> inbound_key ` set addrs) \<and>
     owned (holder (task_slot Inbound) (fold (\<lambda>addr. spawn_task (outbound_task env rt addr)) addrs nd)) I \<and>
     owned (holder task_link (fold (\<lambda>addr. spawn_task (outbound_task env rt addr)) addrs nd)) L \<and>
     nd_runtime (fold (\<lambda>addr. spawn_task (outbound_task env rt addr)) addrs nd) = nd_runtime nd"
  using assms
proof (induction addrs arbitrary: nd R)
  case (Cons a addrs)
  let ?nd = "spawn_task (outbound_task env rt a) nd"
  obtain session hello where t: "outbound_task env rt a = Dialling a session hello" "se_state session \<noteq> Established"
    by (auto simp: outbound_task_def session_start_def session_new_def)
  note none = holder_None [OF tasks_fresh [OF Cons.prems(1)]]
  have slot: "task_slot Outbound (outbound_task env rt a) = Some (inbound_key a)" using t by (simp add: task_slot_def)
  have other: "task_slot Inbound (outbound_task env rt a) = None" "task_link (outbound_task env rt a) = None" using t by (simp_all add: task_slot_def)
  have "tasks_inv ?nd" using Cons.prems(1,7) t by (auto simp: tasks_inv_def task_updates less_SucI)
  moreover have "owned (holder (task_slot Outbound) ?nd) (insert (inbound_key a) R)"
    unfolding holder_update slot by (rule owned_acquire [OF Cons.prems(2) none]) (use Cons.prems(6) in auto)
  moreover have "owned (holder (task_slot Inbound) ?nd) I" "owned (holder task_link ?nd) L"
    unfolding holder_update other by (rule owned_keep [OF Cons.prems(3) none], rule owned_keep [OF Cons.prems(4) none])
  moreover have "inbound_key ` set addrs \<inter> insert (inbound_key a) R = {}" using Cons.prems(5,6) by auto
  ultimately show ?case using Cons.IH [of ?nd "insert (inbound_key a) R"] Cons.prems(5,7) by (simp add: task_updates insert_commute)
qed simp

lemma map_of_filter_kept: "map_of al k = Some v \<Longrightarrow> P (k, v) \<Longrightarrow> map_of (filter P al) k = Some v"
  by (induction al) (auto split: if_splits)

lemma set_reachability_if [simp]:
  "rt_peers (if b then rt\<lparr>rt_reachability := r\<rparr> else rt) = rt_peers rt" "rt_hub (if b then rt\<lparr>rt_reachability := r\<rparr> else rt) = rt_hub rt"
  "rt_backoff (if b then rt\<lparr>rt_reachability := r\<rparr> else rt) = rt_backoff rt"
  by simp_all

lemma maintain_outbound_result:
  assumes "maintain_outbound env rt = (rt', addrs)"
  shows "pm_outbound (rt_peers rt') = pm_outbound (rt_peers rt) \<union> inbound_key ` set addrs \<and> distinct (map inbound_key addrs) \<and>
     inbound_key ` set addrs \<inter> pm_outbound (rt_peers rt) = {} \<and> length addrs \<le> outbound_deficit (rt_peers rt) \<and>
     (\<forall>a \<in> set addrs. \<not> isl (parse_addr a)) \<and> (\<forall>a \<in> set addrs. \<not> backoff_active a (ev_now env) rt) \<and>
     pm_inbound (rt_peers rt') = pm_inbound (rt_peers rt) \<and> pm_config (rt_peers rt') = pm_config (rt_peers rt) \<and> rt_hub rt' = rt_hub rt \<and>
     (rt_backoff rt' = rt_backoff rt \<or> rt_backoff rt' = filter (\<lambda>e. snd e > ev_now env) (rt_backoff rt))"
proof (cases "outbound_deficit (rt_peers rt) = 0")
  case True
  with assms have "addrs = []" "rt_peers rt' = rt_peers rt" "rt_hub rt' = rt_hub rt" "rt_backoff rt' = rt_backoff rt"
    by (auto simp: maintain_outbound_def split_beta Let_def split: if_splits)
  then show ?thesis by simp
next
  case False
  let ?n = "fst (established_counts (rt_hub rt)) + snd (established_counts (rt_hub rt))" and ?now = "ev_now env"
  define cs where "cs = candidates (if ?n = 0 then AllUnreachable else NormalMode) (rt_peers rt)"
  define rt0 where "rt0 = (if ?n > 0 then rt\<lparr>rt_reachability := mark_reachable (rt_reachability rt)\<rparr> else rt)"
  define rt2 where "rt2 = rt0\<lparr>rt_backoff := filter (\<lambda>e. snd e > ?now) (rt_backoff rt0)\<rparr>"
  define rt1 where "rt1 = (if ?n = 0 \<and> outbound_count (rt_peers rt2) = 0 \<and> cs \<noteq> [] \<and> (\<forall>c \<in> set cs. backoff_active (pe_addr c) ?now rt2)
     then rt2\<lparr>rt_reachability := mark_all_unreachable (rt_reachability rt2)\<rparr> else rt2)"
  have r: "rt_peers rt1 = rt_peers rt" "rt_hub rt1 = rt_hub rt" "rt_backoff rt1 = filter (\<lambda>e. snd e > ev_now env) (rt_backoff rt)"
    by (simp_all add: rt1_def rt2_def rt0_def)
  have l: "launch_loop env 0 (outbound_deficit (rt_peers rt)) cs rt1 = (rt', addrs)"
    using assms False unfolding maintain_outbound_def Let_def split_beta rt1_def rt2_def rt0_def cs_def by simp
  have "backoff_active a (ev_now env) rt \<Longrightarrow> backoff_active a (ev_now env) rt1" for a
    using map_of_filter_kept [of "rt_backoff rt" a _ "\<lambda>e. snd e > ev_now env"] r(3) by (auto simp: backoff_active_def split: option.splits)
  with launch_loop_result [OF l] r show ?thesis by auto
qed

lemma run_maintenance_inv:
  assumes "node_inv n nd"
  shows "node_inv n (run_maintenance env nd)"
proof -
  obtain rt addrs where m: "maintain_outbound env (nd_runtime nd) = (rt, addrs)" by fastforce
  note r = maintain_outbound_result [OF m]
  let ?nd = "nd\<lparr>nd_runtime := rt\<rparr>" and ?m = "rt_peers (nd_runtime nd)"
  have inv: "tasks_inv nd" "slots_held nd ?m" "links_held n nd (rt_hub (nd_runtime nd))" using assms by (simp_all add: node_inv_def)
  have "card (pm_outbound ?m \<union> inbound_key ` set addrs) \<le> outbound_count ?m + length addrs"
    using card_Un_le [of "pm_outbound ?m" "inbound_key ` set addrs"] card_image_le [of "set addrs" inbound_key] card_length [of addrs]
    by (simp add: outbound_count_def)
  also have "\<dots> \<le> outbound_target (pm_config ?m)" using r inv(2) by (auto simp: outbound_deficit_def slots_held_def)
  finally have room: "card (pm_outbound ?m \<union> inbound_key ` set addrs) \<le> outbound_target (pm_config ?m)" .
  have "tasks_inv ?nd" using inv(1) by (simp add: tasks_inv_def)
  with inv have sp: "tasks_inv (run_maintenance env nd) \<and> owned (holder (task_slot Outbound) (run_maintenance env nd)) (pm_outbound ?m \<union> inbound_key ` set addrs) \<and>
      owned (holder (task_slot Inbound) (run_maintenance env nd)) (pm_inbound ?m) \<and>
      owned (holder task_link (run_maintenance env nd)) (fst ` set (hub_peers (rt_hub (nd_runtime nd)))) \<and> nd_runtime (run_maintenance env nd) = rt"
    using spawn_outbound [of ?nd "pm_outbound ?m" "pm_inbound ?m" "fst ` set (hub_peers (rt_hub (nd_runtime nd)))" addrs env rt] r m
    by (simp add: run_maintenance_def slots_held_def links_held_def)
  with r room inv show ?thesis by (simp add: node_inv_def slots_held_def links_held_def inbound_count_def outbound_count_def)
qed

lemma dial_result_inv:
  assumes "node_inv n nd"
  shows "node_inv n (dial_result env i result nd)"
proof (cases "\<exists>addr session hello. map_of (nd_tasks nd) i = Some (Dialling addr session hello)")
  case False
  then show ?thesis using assms by (auto simp: dial_result_def split: option.splits conn_task.splits)
next
  case True
  then obtain addr session hello where t: "map_of (nd_tasks nd) i = Some (Dialling addr session hello)" by blast
  have inv: "tasks_inv nd" "slots_held nd (rt_peers (nd_runtime nd))" "links_held n nd (rt_hub (nd_runtime nd))" using assms by (simp_all add: node_inv_def)
  have failed: "node_inv n (end_task i (dial_failed (ev_now env) addr (nd_runtime nd)) nd)"
    by (rule task_ended_inv [OF assms t, of _ "nd_runtime nd"]) (simp_all add: dial_failed_views)
  have kept: "node_inv n (keep_task i (Pumping c) (nd_runtime nd) nd)"
    if "conn_ok c" "cn_addr c = addr" "cn_direction c = Outbound" "cn_conn_id c = None" for c
    using tasks_inv_keep [OF inv(1) t] slots_held_keep [OF inv(2) t] links_held_keep [OF inv(3) t] that by (simp add: node_inv_def task_updates)
  have "se_state session \<noteq> Established" using inv(1) t by (fastforce simp: tasks_inv_def)
  then have c: "conn_ok (fst (write_msg env 0 m (conn_new now session addr Outbound ip rt)))" "conn_ok (conn_new now session addr Outbound ip rt)" for m :: "'a message" and now ip rt
    by (simp_all add: conn_new_def conn_ok_def write_msg_def)
  show ?thesis using t failed kept c
    by (auto simp: dial_result_def Let_def split_beta write_msg_def conn_new_def split: option.splits)
qed

lemma node_inv_mono: "node_inv n nd \<Longrightarrow> node_inv (n + 1) nd"
  using links_held_mono [of n nd _ "n + 1"] by (auto simp: node_inv_def)

lemma node_step_inv:
  assumes "node_inv n nd" "n < u64_max"
  shows "node_inv (n + 1) (node_step e nd)"
proof -
  obtain env ev where e: "e = (env, ev)" by fastforce
  show ?thesis unfolding e
    by (cases ev) (simp_all only: node_step.simps node_inv_mono [OF handle_inbound_inv [OF assms(1)]] node_inv_mono [OF run_maintenance_inv [OF assms(1)]]
        node_inv_mono [OF dial_result_inv [OF assms(1)]] pump_task_inv [OF assms] pump_read_ok pump_branches_ok prod.case)
qed

lemma node_run_inv:
  "node_inv n nd \<Longrightarrow> n + length evs \<le> u64_max \<Longrightarrow> node_inv (n + length evs) (fold node_step evs nd)"
proof (induction evs arbitrary: n nd)
  case (Cons e evs)
  then show ?case using node_step_inv [of n nd e] Cons.IH [of "n + 1" "node_step e nd"] by simp
qed simp

definition node_start :: "db \<Rightarrow> peer_manager_config \<Rightarrow> store_config \<Rightarrow> verify_config \<Rightarrow> nat \<Rightarrow> nat \<Rightarrow> bool \<Rightarrow> 'v node" where
  "node_start d config sconfig verify nonce port pex =
     node_new (runtime_new (peer_manager_new d config) (hub_new d sconfig verify) nonce port pex)"

lemma node_start_inv: "node_inv 1 (node_start d config sconfig verify nonce port pex)"
  by (simp add: node_inv_def node_start_def node_new_def runtime_new_def tasks_inv_def slots_held_def links_held_def holder_def
      peer_manager_new_def hub_new_def inbound_count_def outbound_count_def owned_empty)

definition running :: "('v conn_task \<Rightarrow> bool) \<Rightarrow> 'v node \<Rightarrow> nat set" where
  "running P nd = {i. \<exists>t. map_of (nd_tasks nd) i = Some t \<and> P t}"

lemma holder_sets:
  "ran (holder res nd) = {r. \<exists>i t. map_of (nd_tasks nd) i = Some t \<and> res t = Some r}" "dom (holder res nd) = running (\<lambda>t. res t \<noteq> None) nd"
  by (auto simp: ran_def dom_def holder_def running_def bind_eq_Some_conv)

lemma task_slot_Some: "task_slot dir t = Some r \<longleftrightarrow> task_direction t = dir \<and> r = inbound_key (task_addr t)"
  "task_slot dir t \<noteq> None \<longleftrightarrow> task_direction t = dir"
  by (auto simp: task_slot_def)

lemma task_link_Some:
  assumes "tasks_inv nd" "map_of (nd_tasks nd) i = Some t"
  shows "task_link t = Some l \<longleftrightarrow> (\<exists>c. t = Pumping c \<and> cn_established c \<and> cn_conn_id c = Some l)"
    and "task_link t \<noteq> None \<longleftrightarrow> (\<exists>c. t = Pumping c \<and> cn_established c)"
  using assms by (cases t; auto simp: tasks_inv_def conn_ok_def dest!: spec [of _ i])+

text \<open>C5: the accounts of connections are exact. After any interleaving of the tasks, with fewer than
  \<open>2 ^ 64 - 1\<close> steps: every inbound and every outbound slot of the peer manager is held by exactly one
  running connection task of that direction, and every link registered with the hub by exactly one
  task whose session is established; no way of ending a connection leaves a slot or a link
  behind. So there are at most \<open>inbound_max\<close> inbound and \<open>outbound_target\<close> outbound tasks.\<close>

theorem connection_accounts_exact:
  fixes evs :: "(('k, 'v) run_env \<times> node_event) list"
  assumes "length evs < u64_max" and "nd = fold node_step evs (node_start d config sconfig verify nonce port pex)"
  shows "(\<forall>dir. (case dir of Inbound \<Rightarrow> pm_inbound | Outbound \<Rightarrow> pm_outbound) (rt_peers (nd_runtime nd)) =
        {inbound_key (task_addr t) | i t. map_of (nd_tasks nd) i = Some t \<and> task_direction t = dir} \<and>
      card ((case dir of Inbound \<Rightarrow> pm_inbound | Outbound \<Rightarrow> pm_outbound) (rt_peers (nd_runtime nd))) = card (running (\<lambda>t. task_direction t = dir) nd)) \<and>
    card (running (\<lambda>t. task_direction t = Inbound) nd) \<le> inbound_max (pm_config (rt_peers (nd_runtime nd))) \<and>
    card (running (\<lambda>t. task_direction t = Outbound) nd) \<le> outbound_target (pm_config (rt_peers (nd_runtime nd))) \<and>
    fst ` set (hub_peers (rt_hub (nd_runtime nd))) = {l. \<exists>i c. map_of (nd_tasks nd) i = Some (Pumping c) \<and> cn_established c \<and> cn_conn_id c = Some l} \<and>
    length (hub_peers (rt_hub (nd_runtime nd))) = card (running (\<lambda>t. \<exists>c. t = Pumping c \<and> cn_established c) nd)"
proof -
  let ?slots = "\<lambda>dir. (case dir of Inbound \<Rightarrow> pm_inbound | Outbound \<Rightarrow> pm_outbound) (rt_peers (nd_runtime nd))"
  have inv: "node_inv (1 + length evs) nd" using node_run_inv [OF node_start_inv, of evs] assms by simp
  then have t: "tasks_inv nd" by (simp add: node_inv_def)
  have s: "owned (holder (task_slot dir) nd) (?slots dir)" for dir
    using inv by (cases dir) (simp_all add: node_inv_def slots_held_def)
  have l: "owned (holder task_link nd) (fst ` set (hub_peers (rt_hub (nd_runtime nd))))" "distinct (map fst (hub_peers (rt_hub (nd_runtime nd))))"
    using inv by (simp_all add: node_inv_def links_held_def)
  have b: "card (?slots Inbound) \<le> inbound_max (pm_config (rt_peers (nd_runtime nd)))" "card (?slots Outbound) \<le> outbound_target (pm_config (rt_peers (nd_runtime nd)))"
    using inv by (simp_all add: node_inv_def slots_held_def inbound_count_def outbound_count_def)
  have slots: "?slots dir = {inbound_key (task_addr t) | i t. map_of (nd_tasks nd) i = Some t \<and> task_direction t = dir}"
    "card (?slots dir) = card (running (\<lambda>t. task_direction t = dir) nd)" for dir
  proof -
    have "?slots dir = ran (holder (task_slot dir) nd)" using s [of dir] by (simp add: owned_def)
    then show "?slots dir = {inbound_key (task_addr t) | i t. map_of (nd_tasks nd) i = Some t \<and> task_direction t = dir}"
      unfolding holder_sets task_slot_Some by blast
    show "card (?slots dir) = card (running (\<lambda>t. task_direction t = dir) nd)"
      using owned_card [OF s [of dir]] unfolding holder_sets task_slot_Some .
  qed
  have links: "fst ` set (hub_peers (rt_hub (nd_runtime nd))) = {l. \<exists>i c. map_of (nd_tasks nd) i = Some (Pumping c) \<and> cn_established c \<and> cn_conn_id c = Some l}"
  proof -
    have "fst ` set (hub_peers (rt_hub (nd_runtime nd))) = ran (holder task_link nd)" using l(1) by (simp add: owned_def)
    also have "\<dots> = {l. \<exists>i c. map_of (nd_tasks nd) i = Some (Pumping c) \<and> cn_established c \<and> cn_conn_id c = Some l}"
      unfolding holder_sets using task_link_Some(1) [OF t] by blast
    finally show ?thesis .
  qed
  have run: "running (\<lambda>t. task_link t \<noteq> None) nd = running (\<lambda>t. \<exists>c. t = Pumping c \<and> cn_established c) nd"
    unfolding running_def using task_link_Some(2) [OF t] by blast
  have "length (hub_peers (rt_hub (nd_runtime nd))) = card (fst ` set (hub_peers (rt_hub (nd_runtime nd))))"
    using distinct_card [OF l(2)] by simp
  then have "length (hub_peers (rt_hub (nd_runtime nd))) = card (running (\<lambda>t. \<exists>c. t = Pumping c \<and> cn_established c) nd)"
    using owned_card [OF l(1)] unfolding holder_sets run by simp
  moreover have "card (running (\<lambda>t. task_direction t = Inbound) nd) \<le> inbound_max (pm_config (rt_peers (nd_runtime nd)))"
    "card (running (\<lambda>t. task_direction t = Outbound) nd) \<le> outbound_target (pm_config (rt_peers (nd_runtime nd)))"
    using b unfolding slots(2) by simp_all
  ultimately show ?thesis using slots links by blast
qed

subsection \<open>Redialling waits\<close>

text \<open>The addresses for which a step starts a dialling task.\<close>

fun launched :: "('k, 'v) run_env \<times> node_event \<Rightarrow> 'v node \<Rightarrow> string list" where
  "launched (env, MaintenanceTick) nd = snd (maintain_outbound env (nd_runtime nd))"
| "launched (env, ev) nd = []"

definition dials :: "string \<Rightarrow> 'v node \<Rightarrow> bool" where
  "dials a nd \<longleftrightarrow> (\<exists>i t. map_of (nd_tasks nd) i = Some t \<and> task_direction t = Outbound \<and> task_addr t = a)"

definition waits :: "string \<Rightarrow> rat \<Rightarrow> 'v node \<Rightarrow> bool" where
  "waits a t nd \<longleftrightarrow> \<not> dials a nd \<and> (\<exists>t' \<ge> t. map_of (rt_backoff (nd_runtime nd)) a = Some t')"

lemma failure_backoff_schedule [simp]: "rt_backoff (fst (failure_backoff addr rt)) = rt_backoff rt"
  by (simp add: failure_backoff_def split_beta)

lemma schedule_retry_other: "a \<noteq> addr \<Longrightarrow> map_of (rt_backoff (schedule_retry now addr delay rt)) a = map_of (rt_backoff rt) a"
  by (simp add: schedule_retry_def update_conv')

lemma ended_schedule_other:
  "a \<noteq> addr \<Longrightarrow> map_of (rt_backoff (dial_failed now addr rt)) a = map_of (rt_backoff rt) a"
  "a \<noteq> cn_addr c \<or> cn_direction c = Inbound \<Longrightarrow> map_of (rt_backoff (conn_ended env (rt, c))) a = map_of (rt_backoff rt) a"
  by (auto simp: dial_failed_def conn_ended_def pump_finish_def split_beta Let_def schedule_retry_other split: option.splits direction.splits pump_end.splits)

lemma waits_other: "waits a t nd \<Longrightarrow> map_of (nd_tasks nd) i = Some u \<Longrightarrow> task_direction u = Outbound \<Longrightarrow> task_addr u \<noteq> a"
  unfolding waits_def dials_def by blast

lemma waits_keep:
  "waits a t nd \<Longrightarrow> map_of (nd_tasks nd) i = Some u \<Longrightarrow> task_direction u' = task_direction u \<Longrightarrow> task_addr u' = task_addr u \<Longrightarrow>
     map_of (rt_backoff rt) a = map_of (rt_backoff (nd_runtime nd)) a \<Longrightarrow> waits a t (keep_task i u' rt nd)"
  by (auto simp: waits_def dials_def task_updates)

lemma waits_end:
  "waits a t nd \<Longrightarrow> map_of (rt_backoff rt) a = map_of (rt_backoff (nd_runtime nd)) a \<Longrightarrow> waits a t (end_task i rt nd)"
  by (auto simp: waits_def dials_def task_updates)

lemma waits_pump:
  assumes "waits a t nd" "tasks_inv nd" "\<And>rt c. conn_ok c \<Longrightarrow> branch_ok (rt, c) (branch (rt, c))"
  shows "waits a t (pump_task env i branch nd)"
proof (cases "\<exists>c. map_of (nd_tasks nd) i = Some (Pumping c)")
  case False
  then show ?thesis using assms(1) by (auto simp: pump_task_def split: option.splits conn_task.splits)
next
  case True
  then obtain c where c: "map_of (nd_tasks nd) i = Some (Pumping c)" by blast
  obtain rt' c' stop where b: "branch (nd_runtime nd, c) = ((rt', c'), stop)" by (metis prod.exhaust)
  have "conn_ok c" using c assms(2) by (fastforce simp: tasks_inv_def)
  then have "branch_ok (nd_runtime nd, c) ((rt', c'), stop)" using assms(3) b by metis
  then have core: "rt_backoff rt' = rt_backoff (nd_runtime nd)" "cn_addr c' = cn_addr c" "cn_direction c' = cn_direction c"
    by (auto simp: branch_ok_def quiet_def registers_def)
  have "a \<noteq> cn_addr c' \<or> cn_direction c' = Inbound"
    using waits_other [OF assms(1) c] core by (cases "cn_direction c") auto
  then show ?thesis using b c core waits_keep [OF assms(1) c] waits_end [OF assms(1)]
    by (auto simp: pump_task_def ended_schedule_other)
qed

lemma spawn_outbound_dials:
  "dials a (fold (\<lambda>addr. spawn_task (outbound_task env rt addr)) addrs nd) \<Longrightarrow> tasks_inv nd \<Longrightarrow>
     \<forall>a \<in> set addrs. \<not> isl (parse_addr a) \<Longrightarrow> dials a nd \<or> a \<in> set addrs"
proof (induction addrs arbitrary: nd)
  case (Cons b addrs)
  obtain session hello where t: "outbound_task env rt b = Dialling b session hello" "se_state session \<noteq> Established"
    by (auto simp: outbound_task_def session_start_def session_new_def)
  have "tasks_inv (spawn_task (outbound_task env rt b) nd)" using Cons.prems(2,3) t by (auto simp: tasks_inv_def task_updates less_SucI)
  with Cons have "dials a (spawn_task (outbound_task env rt b) nd) \<or> a \<in> set addrs" by simp
  then show ?case using t by (auto simp: dials_def task_updates split: if_splits)
qed simp

lemma waits_step:
  assumes "waits a t nd" "tasks_inv nd" "ev_now (fst e) < t" "a \<notin> set (launched e nd)"
  shows "waits a t (node_step e nd)"
proof -
  obtain env ev where e: "e = (env, ev)" by fastforce
  have pump: "waits a t (pump_task env i branch nd)" if "\<And>rt c. conn_ok c \<Longrightarrow> branch_ok (rt, c) (branch (rt, c))" for i branch
    using waits_pump [OF assms(1,2)] that by blast
  show ?thesis
  proof (cases ev)
    case (Accepted peer)
    then show ?thesis using assms(1) e
      by (auto simp: handle_inbound_def Let_def split_beta waits_def dials_def task_updates conn_new_def split: if_splits)
  next
    case MaintenanceTick
    obtain rt addrs where m: "maintain_outbound env (nd_runtime nd) = (rt, addrs)" by fastforce
    note r = maintain_outbound_result [OF m]
    obtain t' where t': "t' \<ge> t" "map_of (rt_backoff (nd_runtime nd)) a = Some t'" using assms(1) by (auto simp: waits_def)
    have "map_of (rt_backoff rt) a = Some t'"
      using r t' assms(3) e map_of_filter_kept [OF t'(2), of "\<lambda>e. snd e > ev_now env"] by auto
    moreover have "nd_runtime (fold (\<lambda>addr. spawn_task (outbound_task env rt addr)) as nd') = nd_runtime nd'" for as nd'
      by (induction as arbitrary: nd') (simp_all add: task_updates)
    moreover have "\<not> dials a (nd\<lparr>nd_runtime := rt\<rparr>)" "tasks_inv (nd\<lparr>nd_runtime := rt\<rparr>)" using assms(1,2) by (simp_all add: waits_def dials_def tasks_inv_def)
    ultimately show ?thesis using MaintenanceTick e m r t'(1) assms(4) spawn_outbound_dials [of a env rt addrs "nd\<lparr>nd_runtime := rt\<rparr>"]
      by (auto simp: run_maintenance_def waits_def)
  next
    case (DialResult i result)
    show ?thesis
    proof (cases "\<exists>addr session hello. map_of (nd_tasks nd) i = Some (Dialling addr session hello)")
      case False
      then show ?thesis using DialResult e assms(1) by (auto simp: dial_result_def split: option.splits conn_task.splits)
    next
      case True
      then obtain addr session hello where d: "map_of (nd_tasks nd) i = Some (Dialling addr session hello)" by blast
      then have "a \<noteq> addr" using waits_other [OF assms(1) d] by auto
      then show ?thesis using DialResult e d waits_keep [OF assms(1) d] waits_end [OF assms(1)]
        by (auto simp: dial_result_def Let_def split_beta ended_schedule_other write_msg_def conn_new_def split: option.splits)
    qed
  qed (simp_all only: e node_step.simps pump pump_read_ok pump_branches_ok prod.case)
qed

text \<open>The delay after the end of an outbound connection: the initial one, or the one that belongs to
  the failures now recorded for the peer.\<close>

definition retry_delay_ok :: "string \<Rightarrow> peer_manager \<Rightarrow> nat \<Rightarrow> bool" where
  "retry_delay_ok a m delay \<longleftrightarrow> delay = backoff_initial_secs (pm_config m) \<or>
     (\<exists>row. get_peer (inbound_key a) (pm_db m) = Some row \<and> delay = backoff_delay_secs (nat (pe_fail_count row mod 2 ^ 32)) (pm_config m))"

lemma failure_backoff_delay: "retry_delay_ok a (rt_peers (fst (failure_backoff a rt))) (snd (failure_backoff a rt))"
proof (cases "parse_addr a")
  case (Inr p)
  have "snd (record_peer_failure c d) = Some fc \<Longrightarrow> \<exists>row. get_peer c (fst (record_peer_failure c d)) = Some row \<and> pe_fail_count row = fc" for c d fc
    by (auto simp: record_peer_failure_def get_peer_def split: prod.splits if_splits)
  from this [of "canonical p" "pm_db (rt_peers rt)"] Inr show ?thesis
    by (auto simp: failure_backoff_def retry_delay_ok_def record_failure_def on_peer_def inbound_key_def split_beta split: option.splits)
qed (simp add: failure_backoff_def retry_delay_ok_def record_failure_def on_peer_def)

lemma failure_schedule:
  "\<exists>delay. map_of (rt_backoff (schedule_retry now a (snd (failure_backoff a rt)) (fst (failure_backoff a rt)))) a = Some (now + of_nat delay) \<and>
     retry_delay_ok a (rt_peers (fst (failure_backoff a rt))) delay"
  using failure_backoff_delay [of a rt] by (auto simp: schedule_retry_def update_conv')

lemma ended_schedule:
  "\<exists>delay. map_of (rt_backoff (dial_failed now a rt)) a = Some (now + of_nat delay) \<and> retry_delay_ok a (rt_peers (dial_failed now a rt)) delay"
  "cn_direction c = Outbound \<Longrightarrow> cn_addr c = a \<Longrightarrow> \<exists>delay. map_of (rt_backoff (conn_ended env (rt, c))) a = Some (ev_now env + of_nat delay) \<and>
     retry_delay_ok a (rt_peers (conn_ended env (rt, c))) delay"
proof -
  note f = failure_schedule
  show "\<exists>delay. map_of (rt_backoff (dial_failed now a rt)) a = Some (now + of_nat delay) \<and> retry_delay_ok a (rt_peers (dial_failed now a rt)) delay"
    using f by (simp add: dial_failed_def split_beta Let_def)
  show "\<exists>delay. map_of (rt_backoff (conn_ended env (rt, c))) a = Some (ev_now env + of_nat delay) \<and> retry_delay_ok a (rt_peers (conn_ended env (rt, c))) delay"
    if "cn_direction c = Outbound" "cn_addr c = a"
    using that f by (cases "pump_result c") (auto simp: conn_ended_def pump_finish_def split_beta Let_def schedule_retry_def update_conv' retry_delay_ok_def)
qed

lemma spawned_stay:
  "map_of (nd_tasks nd) i = Some t \<Longrightarrow> \<exists>t. map_of (nd_tasks (fold (\<lambda>addr. spawn_task (f addr)) addrs nd)) i = Some t"
proof (induction addrs arbitrary: nd t)
  case (Cons a addrs)
  have "\<exists>t. map_of (nd_tasks (spawn_task (f a) nd)) i = Some t" using Cons.prems by (auto simp: task_updates)
  with Cons.IH show ?case by auto
qed simp

lemma step_ends_task:
  assumes "map_of (nd_tasks nd) i = Some u" "map_of (nd_tasks (node_step e nd)) i = None" "tasks_inv nd" "task_direction u = Outbound"
  shows "\<exists>rt. node_step e nd = end_task i rt nd \<and>
     (rt = dial_failed (ev_now (fst e)) (task_addr u) (nd_runtime nd) \<or>
      (\<exists>rt1 c. rt = conn_ended (fst e) (rt1, c) \<and> cn_direction c = Outbound \<and> cn_addr c = task_addr u))"
proof -
  obtain env ev where e: "e = (env, ev)" by fastforce
  have pump: ?thesis if s: "node_step e nd = pump_task env j branch nd" and b: "\<And>rt c. conn_ok c \<Longrightarrow> branch_ok (rt, c) (branch (rt, c))" for j branch
  proof -
    obtain c where c: "map_of (nd_tasks nd) j = Some (Pumping c)"
      using assms(1,2) s by (auto simp: pump_task_def split: option.splits conn_task.splits)
    obtain rt' c' stop where r: "branch (nd_runtime nd, c) = ((rt', c'), stop)" by (metis prod.exhaust)
    have j: "j = i" "stop" using assms(1,2) s c r by (auto simp: pump_task_def task_updates split: if_splits)
    have "conn_ok c" using c assms(3) by (fastforce simp: tasks_inv_def)
    then have "branch_ok (nd_runtime nd, c) ((rt', c'), stop)" using b r by metis
    then have "cn_addr c' = cn_addr c" "cn_direction c' = cn_direction c" by (auto simp: branch_ok_def quiet_def registers_def)
    then show ?thesis using s c r j assms(1,4) e by (auto simp: pump_task_def)
  qed
  show ?thesis
  proof (cases ev)
    case (Accepted peer)
    then show ?thesis using assms(1,2) e by (auto simp: handle_inbound_def Let_def split_beta task_updates split: if_splits)
  next
    case MaintenanceTick
    then show ?thesis using assms(1,2) e spawned_stay [of "nd\<lparr>nd_runtime := fst (maintain_outbound env (nd_runtime nd))\<rparr>" i u
          "outbound_task env (fst (maintain_outbound env (nd_runtime nd)))" "snd (maintain_outbound env (nd_runtime nd))"]
      by (auto simp: run_maintenance_def split_beta)
  next
    case (DialResult j result)
    then show ?thesis using assms(1,2) e
      by (auto simp: dial_result_def Let_def split_beta task_updates split: option.splits conn_task.splits if_splits)
  qed (use pump e in \<open>simp_all only: node_step.simps pump_read_ok pump_branches_ok prod.case\<close>)
qed

lemma launched_due:
  assumes "waits a t nd" "a \<in> set (launched e nd)"
  shows "t \<le> ev_now (fst e)"
proof -
  obtain env where e: "e = (env, MaintenanceTick)" using assms(2) by (cases "(e, nd)" rule: launched.cases) auto
  obtain rt addrs where m: "maintain_outbound env (nd_runtime nd) = (rt, addrs)" by fastforce
  have "\<not> backoff_active a (ev_now env) (nd_runtime nd)" using maintain_outbound_result [OF m] assms(2) e m by simp
  then show ?thesis using assms(1) e by (auto simp: waits_def backoff_active_def)
qed

lemma waits_run:
  assumes "waits a t nd" "node_inv n nd" "n + length evs < u64_max" "sorted (map (ev_now \<circ> fst) (evs @ [l]))"
    and "a \<in> set (launched l (fold node_step evs nd))"
  shows "t \<le> ev_now (fst l)"
  using assms
proof (induction evs arbitrary: nd n)
  case Nil
  then show ?case using launched_due by simp
next
  case (Cons e evs)
  have le: "ev_now (fst e) \<le> ev_now (fst l)" using Cons.prems(4) by simp
  show ?case
  proof (rule ccontr)
    assume "\<not> t \<le> ev_now (fst l)"
    with le have lt: "ev_now (fst e) < t" by linarith
    with launched_due [OF Cons.prems(1)] have "a \<notin> set (launched e nd)" by fastforce
    then have "waits a t (node_step e nd)" using waits_step [OF Cons.prems(1) _ lt] Cons.prems(2) by (simp add: node_inv_def)
    moreover have "node_inv (n + 1) (node_step e nd)" using node_step_inv [of n nd e] Cons.prems(2,3) by simp
    ultimately have "t \<le> ev_now (fst l)" using Cons.IH [of "node_step e nd" "n + 1"] Cons.prems(3,4,5) by simp
    with \<open>\<not> t \<le> ev_now (fst l)\<close> show False by simp
  qed
qed


subsection \<open>Interrupted reads\<close>

text \<open>A read that is only waited for, and not dropped, does not depend on how the bytes arrive.\<close>

lemma poll_read_resumes:
  assumes "poll_read from_slice False False c = (c1, Waiting)"
  shows "poll_read from_slice ended failed (c1\<lparr>cn_socket := cn_socket c1 @ b\<rparr>) = poll_read from_slice ended failed (c\<lparr>cn_socket := cn_socket c @ b\<rparr>)"
proof -
  have "c1 = c\<lparr>cn_partial := cn_partial c @ cn_socket c, cn_socket := []\<rparr>"
    using assms by (auto simp: poll_read_def Let_def split: if_splits)
  then show ?thesis by (simp add: poll_read_def Let_def)
qed

lemma u32_from_be_first: "length bs = 4 \<Longrightarrow> bs ! 0 \<noteq> 0 \<Longrightarrow> 256 ^ 3 \<le> u32_from_be bs"
proof -
  assume "length bs = 4" "bs ! 0 \<noteq> 0"
  then obtain a b c d where "bs = [a, b, c, d]" "a \<noteq> 0" by (auto simp: length_Suc_conv numeral_eq_Suc)
  moreover from this have "1 \<le> unat a" by (simp add: Suc_le_eq unat_gt_0)
  ultimately show ?thesis by (simp add: u32_from_be_def)
qed

text \<open>C40: a frame that arrives in two parts can be lost. When the four bytes of the length have been
  read and the payload has not arrived, any other branch of the loop, here an idle keepalive tick,
  drops the pending read together with these bytes. The payload is then taken for a
  length: the connection is closed, and the honest peer is logged for an oversized frame. Without
  the tick the same bytes yield the frame.\<close>

theorem interrupted_read_drops_peer:
  assumes "cn_partial c = []" "cn_socket c = u32_to_be (length payload)"
    and "4 \<le> length payload" "length payload \<le> MAX_FRAME_PAYLOAD" "payload ! 0 \<noteq> 0" "ev_from_slice env payload = Some m"
    and "keepalive_poll (ev_now env) (cn_keepalive c) = (cn_keepalive c, Idle)"
  shows "\<exists>c1. pump_read env False False (rt, c) = ((rt, c1), False) \<and>
    poll_read (ev_from_slice env) False False (c1\<lparr>cn_socket := payload\<rparr>) =
      (c1\<lparr>cn_partial := [], cn_socket := []\<rparr>, Ready (Inr (Some \<lparr>in_message = m, in_wire_len = 4 + length payload\<rparr>))) \<and>
    (\<exists>c2. pump_tick env (rt, c1) = ((rt, c2), False) \<and>
      (\<exists>c3. pump_read env False False (rt, c2\<lparr>cn_socket := payload\<rparr>) =
        ((runtime_log P2pOversize (cn_addr c) OVERSIZE rt, c3), True)))"
proof -
  let ?c1 = "c\<lparr>cn_partial := u32_to_be (length payload), cn_socket := []\<rparr>"
  have len: "u32_from_be (u32_to_be (length payload)) = length payload" "length payload < 2 ^ 32"
    using assms(4) by (auto simp: MAX_FRAME_PAYLOAD_def intro!: u32_from_to_be)
  have ne: "payload \<noteq> []" using assms(3) by auto
  have "pump_read env False False (rt, c) = ((rt, ?c1), False)"
    using assms(1-4) len ne by (simp add: pump_read_def poll_read_def Let_def)
  moreover have "poll_read (ev_from_slice env) False False (?c1\<lparr>cn_socket := payload\<rparr>) =
      (?c1\<lparr>cn_partial := [], cn_socket := []\<rparr>, Ready (Inr (Some \<lparr>in_message = m, in_wire_len = 4 + length payload\<rparr>)))"
    using assms(4,6) len by (simp add: poll_read_def Let_def decode_payload_def)
  moreover have "pump_tick env (rt, ?c1) = ((rt, c\<lparr>cn_partial := [], cn_socket := []\<rparr>), False)"
    using assms(7) by (simp add: pump_tick_def drop_read_def)
  moreover have "\<exists>c3. pump_read env False False (rt, c\<lparr>cn_partial := [], cn_socket := payload\<rparr>) =
      ((runtime_log P2pOversize (cn_addr c) OVERSIZE rt, c3), True)"
  proof -
    have "256 ^ 3 \<le> u32_from_be (take 4 payload)" by (rule u32_from_be_first) (use assms(3,5) in simp_all)
    then have "MAX_FRAME_PAYLOAD < u32_from_be (take 4 payload)" by (simp add: MAX_FRAME_PAYLOAD_def)
    then show ?thesis using assms(3) by (simp add: pump_read_def poll_read_def Let_def)
  qed
  ultimately show ?thesis by (intro exI [of _ ?c1]) auto
qed

subsection \<open>Concrete runs\<close>

definition demo_run_env :: "rat \<Rightarrow> (unit, unit) run_env" where
  "demo_run_env t = \<lparr>ev_ns = demo_nostr, ev_to_value = (\<lambda>_. Some ()), ev_null = (), ev_to_string = (\<lambda>_. []), ev_from_slice = (\<lambda>_. Some GetPeers),
     ev_now = t, ev_manager_now = (\<lambda>_. t), ev_unix_now = (\<lambda>_. 100), ev_rowid = int, ev_write_ok = (\<lambda>_. True)\<rparr>"

definition demo_node :: "unit node" where
  "demo_node = node_start (store_open\<lparr>db_peers := [yp_row]\<rparr>) default_peer_manager_config default_store_config default_verify_config 7 0 True"

lemmas default_peers_defs = default_peer_manager_config_def DEFAULT_OUTBOUND_TARGET_def DEFAULT_INBOUND_MAX_def DEFAULT_FAIL_DEMOTE_THRESHOLD_def
  DEFAULT_BACKOFF_INITIAL_SECS_def DEFAULT_BACKOFF_FACTOR_def DEFAULT_BACKOFF_CAP_SECS_def DEFAULT_NEW_CANDIDATE_MIN_INTERVAL_SECS_def

lemma single_candidate:
  assumes "list_peers (pm_db m) = [row]" "pe_addr row = ''yp:80''" "pe_enabled row" "''yp:80'' \<notin> pm_self_addrs m" "pm_outbound m = {}" "pm_inbound m = {}"
  shows "candidates mode m = [row]"
  using assms by (simp add: candidates_def dialable_def parse_yp sort_by_def)

lemma single_launch:
  assumes "list_peers (pm_db (rt_peers rt)) = [row]" "pe_addr row = ''yp:80''" "pe_enabled row" "pm_self_addrs (rt_peers rt) = {}"
    and "pm_outbound (rt_peers rt) = {}" "pm_inbound (rt_peers rt) = {}" "hub_peers (rt_hub rt) = []" "outbound_target (pm_config (rt_peers rt)) > 0"
    and "\<forall>e \<in> set (rt_backoff rt). snd e \<le> ev_now env"
    and "\<not> pe_verified row" "case pm_last_new_dial (rt_peers rt) of None \<Rightarrow> True
          | Some t \<Rightarrow> ev_manager_now env 0 - t \<ge> new_candidate_min_interval_secs (pm_config (rt_peers rt))"
  shows "maintain_outbound env rt = (rt\<lparr>rt_backoff := [], rt_peers := (rt_peers rt)\<lparr>pm_last_new_dial := Some (ev_manager_now env 0), pm_outbound := {''yp:80''}\<rparr>\<rparr>, [''yp:80''])"
proof -
  have f: "filter (\<lambda>e. ev_now env < snd e) (rt_backoff rt) = []" using assms(9) by (auto simp: filter_empty_conv not_less)
  have c: "candidates mode (rt_peers rt) = [row]" for mode using assms by (intro single_candidate) simp_all
  have e: "established_counts (rt_hub rt) = (0, 0)" using assms(7) by (simp add: established_counts_def)
  have "maintain_outbound env rt = launch_loop env 0 (outbound_target (pm_config (rt_peers rt))) [row] (rt\<lparr>rt_backoff := []\<rparr>)"
    using assms(5,8) by (simp add: maintain_outbound_def Let_def e c f outbound_deficit_def outbound_count_def backoff_active_def assms(2) split_beta split: outbound_outcome.split)
  then show ?thesis using assms by (auto simp: backoff_active_def begin_outbound_def parse_yp parse_example Let_def split_beta split: option.splits)
qed

definition dial_fails :: "((unit, unit) run_env \<times> node_event) list" where
  "dial_fails = [(demo_run_env 1, MaintenanceTick), (demo_run_env 2, DialResult 0 None)]"

lemma demo_node_simps:
  "list_peers (pm_db (rt_peers (nd_runtime demo_node))) = [yp_row]" "pm_self_addrs (rt_peers (nd_runtime demo_node)) = {}"
  "pm_outbound (rt_peers (nd_runtime demo_node)) = {}" "pm_inbound (rt_peers (nd_runtime demo_node)) = {}" "hub_peers (rt_hub (nd_runtime demo_node)) = []"
  "pm_config (rt_peers (nd_runtime demo_node)) = default_peer_manager_config" "rt_backoff (nd_runtime demo_node) = []"
  "pm_last_new_dial (rt_peers (nd_runtime demo_node)) = None" "nd_tasks demo_node = []" "nd_next_task demo_node = 0"
  by (simp_all add: demo_node_def node_start_def node_new_def runtime_new_def peer_manager_new_def hub_new_def list_peers_def sort_by_def)

lemma yp_row_simps: "pe_addr yp_row = ''yp:80''" "pe_enabled yp_row" "\<not> pe_verified yp_row" "pe_fail_count yp_row = 0" "pe_id yp_row = 1"
  by (simp_all add: yp_row_def)

lemma demo_launch:
  "maintain_outbound (demo_run_env t) (nd_runtime demo_node) = ((nd_runtime demo_node)\<lparr>rt_backoff := [],
     rt_peers := (rt_peers (nd_runtime demo_node))\<lparr>pm_last_new_dial := Some t, pm_outbound := {''yp:80''}\<rparr>\<rparr>, [''yp:80''])"
  using single_launch [of "nd_runtime demo_node" yp_row "demo_run_env t"]
  by (simp add: demo_node_simps yp_row_simps default_peers_defs demo_run_env_def)

lemma demo_env_simps [simp]: "ev_now (demo_run_env t) = t" "ev_manager_now (demo_run_env t) i = t"
  by (simp_all add: demo_run_env_def)

lemma demo_dialling:
  "\<exists>session hello. run_maintenance (demo_run_env t) demo_node = demo_node\<lparr>nd_runtime := (nd_runtime demo_node)\<lparr>rt_backoff := [],
     rt_peers := (rt_peers (nd_runtime demo_node))\<lparr>pm_last_new_dial := Some t, pm_outbound := {''yp:80''}\<rparr>\<rparr>,
     nd_tasks := [(0, Dialling ''yp:80'' session hello)], nd_next_task := 1\<rparr>"
  by (auto simp: run_maintenance_def demo_launch spawn_task_def outbound_task_def demo_node_simps split: prod.splits)

theorem connection_accounts_exact_witness:
  "card (running (\<lambda>t. task_direction t = Outbound) (fold node_step [(demo_run_env 1, MaintenanceTick)] demo_node)) \<le> 8 \<and>
   pm_outbound (rt_peers (nd_runtime (fold node_step [(demo_run_env 1, MaintenanceTick)] demo_node))) =
     {inbound_key (task_addr t) | i t. map_of (nd_tasks (fold node_step [(demo_run_env 1, MaintenanceTick)] demo_node)) i = Some t \<and> task_direction t = Outbound}"
proof -
  have "pm_config (rt_peers (nd_runtime (fold node_step [(demo_run_env 1, MaintenanceTick)] demo_node))) = default_peer_manager_config"
    using demo_dialling [of 1] by (auto simp: demo_node_simps)
  with connection_accounts_exact [OF _ refl, of "[(demo_run_env 1, MaintenanceTick)]" "store_open\<lparr>db_peers := [yp_row]\<rparr>" default_peer_manager_config
      default_store_config default_verify_config 7 0 True, folded demo_node_def] show ?thesis
    by (auto simp: u64_max_def default_peers_defs split: direction.splits dest: spec [of _ Outbound])
qed


definition demo_conn :: "unit conn" where
  "demo_conn = (conn_new 0 (session_new Inbound default_session_config ''p'') ''p'' Inbound None (nd_runtime demo_node))\<lparr>cn_socket := u32_to_be 4\<rparr>"

theorem interrupted_read_drops_peer_witness:
  "\<exists>c1 c2 c3. pump_read (demo_run_env 1) False False (nd_runtime demo_node, demo_conn) = ((nd_runtime demo_node, c1), False) \<and>
     pump_tick (demo_run_env 1) (nd_runtime demo_node, c1) = ((nd_runtime demo_node, c2), False) \<and>
     pump_read (demo_run_env 1) False False (nd_runtime demo_node, c2\<lparr>cn_socket := [123, 34, 116, 125]\<rparr>) =
       ((runtime_log P2pOversize ''p'' OVERSIZE (nd_runtime demo_node), c3), True)"
proof -
  have c: "cn_addr demo_conn = ''p''" "cn_partial demo_conn = []" "cn_socket demo_conn = u32_to_be 4" by (simp_all add: demo_conn_def conn_new_def)
  have k: "keepalive_poll 1 (cn_keepalive demo_conn) = (cn_keepalive demo_conn, Idle)"
    by (simp add: demo_conn_def conn_new_def keepalive_poll_def keepalive_new_def keepalive_with_params_def KEEPALIVE_INTERVAL_SECS_def KEEPALIVE_TIMEOUT_SECS_def)
  have f: "ev_from_slice (demo_run_env 1) [123, 34, 116, 125] = Some GetPeers" by (simp add: demo_run_env_def)
  have n: "u32_to_be 4 = u32_to_be (Suc (Suc (Suc (Suc 0))))" by (simp add: numeral_eq_Suc)
  show ?thesis
    using interrupted_read_drops_peer [of demo_conn "[123, 34, 116, 125]" "demo_run_env 1" GetPeers "nd_runtime demo_node"] c k f n
    by (auto simp: MAX_FRAME_PAYLOAD_def)
qed

end
