(* ===== verification/Identity_Keystore.thy ===== *)
theory Identity_Keystore
  imports Store_Db
begin

text \<open>
  Key protection (\<open>src/identity/keystore\<close>): the self-describing envelope of a stored secret, the
  master key file of Unix systems and the dispatch on the platform. The code is compiled for one
  platform; the platform is an argument here. The ciphers are parameters: XChaCha20-Poly1305 (crate
  \<open>chacha20poly1305\<close>) and the Windows data protection interface are fields of \<open>ciphers\<close>, the
  random nonce and the random master key are arguments.

  The lemmas show that a protected secret is recovered, also after a restart that reads the master
  key back; that secrets of another platform, of another scheme or without an intact header are
  refused and never given to the cipher; and that an existing key file is never changed.
\<close>

datatype identity_error =
  NotFound | Unusable | NotSelectable | BroadcastingLocked | CryptoErr | IdStore store_error

datatype platform = Windows | Unix

text \<open>Documented behaviour of the ciphers: \<open>encrypt key nonce aad msg\<close> and \<open>decrypt key nonce aad ct\<close>
  return nothing on failure.\<close>

record ciphers =
  ci_encrypt :: "bytes \<Rightarrow> bytes \<Rightarrow> bytes \<Rightarrow> bytes \<Rightarrow> bytes option"
  ci_decrypt :: "bytes \<Rightarrow> bytes \<Rightarrow> bytes \<Rightarrow> bytes \<Rightarrow> bytes option"
  ci_dpapi_protect :: "bytes \<Rightarrow> bytes option"
  ci_dpapi_unprotect :: "bytes \<Rightarrow> bytes option"

definition ciphers_contract :: "ciphers \<Rightarrow> bool" where
  "ciphers_contract c \<longleftrightarrow>
     (\<forall>key nonce aad msg ct. ci_encrypt c key nonce aad msg = Some ct \<longrightarrow> ci_decrypt c key nonce aad ct = Some msg) \<and>
     (\<forall>msg ct. ci_dpapi_protect c msg = Some ct \<longrightarrow> ci_dpapi_unprotect c ct = Some msg)"

subsection \<open>Envelope\<close>

definition MAGIC :: bytes where
  "MAGIC = [0x50, 0x59, 0x4B, 0x31]"

definition HEADER_LEN :: nat where
  "HEADER_LEN = 5"

fun CURRENT_SCHEME :: "platform \<Rightarrow> u8" where
  "CURRENT_SCHEME Windows = 1"
| "CURRENT_SCHEME Unix = 2"

datatype decoded = Envelope u8 bytes | Legacy

definition decode_envelope :: "bytes \<Rightarrow> decoded" where
  "decode_envelope blob = (if length blob \<ge> HEADER_LEN \<and> take 4 blob = MAGIC
     then Envelope (blob ! 4) (drop HEADER_LEN blob) else Legacy)"

definition encode_envelope :: "u8 \<Rightarrow> bytes \<Rightarrow> bytes" where
  "encode_envelope scheme payload = MAGIC @ [scheme] @ payload"

definition envelope_aad :: "u8 \<Rightarrow> bytes" where
  "envelope_aad scheme = [MAGIC ! 0, MAGIC ! 1, MAGIC ! 2, MAGIC ! 3, scheme]"

definition is_current_scheme :: "platform \<Rightarrow> bytes \<Rightarrow> bool" where
  "is_current_scheme pf secret_enc = (case decode_envelope secret_enc of
     Envelope scheme _ \<Rightarrow> scheme = CURRENT_SCHEME pf | Legacy \<Rightarrow> False)"

subsection \<open>Master key file\<close>

definition MASTER_KEY_LEN :: nat where
  "MASTER_KEY_LEN = 32"

definition NONCE_LEN :: nat where
  "NONCE_LEN = 24"

definition master_protect :: "ciphers \<Rightarrow> bytes \<Rightarrow> bytes \<Rightarrow> bytes \<Rightarrow> bytes \<Rightarrow> identity_error + bytes" where
  "master_protect c key nonce plain aad =
     and_then (ok_or (ci_encrypt c key nonce aad plain) CryptoErr) (\<lambda>ct. Inr (nonce @ ct))"

definition master_unprotect :: "ciphers \<Rightarrow> bytes \<Rightarrow> bytes \<Rightarrow> bytes \<Rightarrow> identity_error + bytes" where
  "master_unprotect c key payload aad = (if length payload < NONCE_LEN then Inl Unusable
     else ok_or (ci_decrypt c key (take NONCE_LEN payload) aad (drop NONCE_LEN payload)) Unusable)"

datatype keystore_init = Loaded | Created | CreatedMissingSuspected | Corrupt | Unreadable

text \<open>The file \<open>master.key\<close> as the operating system shows it: its bytes if it exists, whether it can
  be read, whether it can be created when it does not exist. A creation that fails on the way
  leaves what was written; \<open>io\<close> is the number of bytes of the key that are written and whether the
  calls after the write (permissions and sync) succeed.\<close>

record key_file =
  kf_content :: "bytes option"
  kf_readable :: bool
  kf_creatable :: bool

definition load_existing :: "key_file \<Rightarrow> identity_error + (bytes option \<times> keystore_init)" where
  "load_existing f = (case (if kf_readable f then kf_content f else None) of
     None \<Rightarrow> Inr (None, Unreadable)
   | Some bs \<Rightarrow> if length bs \<noteq> MASTER_KEY_LEN then Inr (None, Corrupt) else Inr (Some bs, Loaded))"

definition load_or_create ::
  "bytes \<Rightarrow> nat \<times> bool \<Rightarrow> bool \<Rightarrow> key_file \<Rightarrow> key_file \<times> (identity_error + (bytes option \<times> keystore_init))" where
  "load_or_create fresh io has_encrypted_personas f =
     (if kf_content f \<noteq> None then (f, load_existing f)
      else if \<not> kf_creatable f then (f, Inl CryptoErr)
      else if fst io < length fresh then (f\<lparr>kf_content := Some (take (fst io) fresh)\<rparr>, Inl CryptoErr)
      else if \<not> snd io then (f\<lparr>kf_content := Some fresh\<rparr>, Inl CryptoErr)
      else (f\<lparr>kf_content := Some fresh\<rparr>,
        Inr (Some fresh, if has_encrypted_personas then CreatedMissingSuspected else Created)))"

subsection \<open>Keystore\<close>

record keystore =
  ks_platform :: platform
  ks_master :: "bytes option"

definition keystore_open ::
  "platform \<Rightarrow> bytes \<Rightarrow> nat \<times> bool \<Rightarrow> bool \<Rightarrow> key_file \<Rightarrow> key_file \<times> (identity_error + (keystore \<times> keystore_init))" where
  "keystore_open pf fresh io has_encrypted_personas f = (case pf of
     Windows \<Rightarrow> (f, Inr (\<lparr>ks_platform = Windows, ks_master = None\<rparr>, Loaded))
   | Unix \<Rightarrow> (case load_or_create fresh io has_encrypted_personas f of (f', r) \<Rightarrow>
       (f', and_then r (\<lambda>(master, init). Inr (\<lparr>ks_platform = Unix, ks_master = master\<rparr>, init)))))"

definition keystore_ephemeral :: "platform \<Rightarrow> bytes \<Rightarrow> keystore" where
  "keystore_ephemeral pf fresh = \<lparr>ks_platform = pf, ks_master = (case pf of Windows \<Rightarrow> None | Unix \<Rightarrow> Some fresh)\<rparr>"

definition protect :: "ciphers \<Rightarrow> bytes \<Rightarrow> bytes \<Rightarrow> keystore \<Rightarrow> identity_error + bytes" where
  "protect c nonce plain ks = (case ks_platform ks of
     Windows \<Rightarrow> and_then (ok_or (ci_dpapi_protect c plain) CryptoErr) (\<lambda>payload.
       Inr (encode_envelope (CURRENT_SCHEME Windows) payload))
   | Unix \<Rightarrow> and_then (ok_or (ks_master ks) CryptoErr) (\<lambda>master.
       and_then (master_protect c master nonce plain (envelope_aad (CURRENT_SCHEME Unix))) (\<lambda>payload.
         Inr (encode_envelope (CURRENT_SCHEME Unix) payload))))"

definition unprotect :: "ciphers \<Rightarrow> bytes \<Rightarrow> keystore \<Rightarrow> identity_error + bytes" where
  "unprotect c blob ks = (case decode_envelope blob of
     Envelope scheme payload \<Rightarrow>
       if scheme \<noteq> CURRENT_SCHEME (ks_platform ks) then Inl Unusable
       else (case ks_platform ks of
           Windows \<Rightarrow> ok_or (ci_dpapi_unprotect c payload) Unusable
         | Unix \<Rightarrow> and_then (ok_or (ks_master ks) Unusable) (\<lambda>master.
             master_unprotect c master payload (envelope_aad (CURRENT_SCHEME Unix))))
   | Legacy \<Rightarrow> (case ks_platform ks of
       Windows \<Rightarrow> ok_or (ci_dpapi_unprotect c blob) Unusable
     | Unix \<Rightarrow> Inl Unusable))"

subsection \<open>Correctness\<close>

lemma envelope_decode_encode [simp]: "decode_envelope (encode_envelope scheme payload) = Envelope scheme payload"
  by (simp add: decode_envelope_def encode_envelope_def MAGIC_def HEADER_LEN_def)

lemma is_current_scheme_encode [simp]: "is_current_scheme pf (encode_envelope scheme payload) \<longleftrightarrow> scheme = CURRENT_SCHEME pf"
  by (simp add: is_current_scheme_def)

lemma unprotect_protect:
  assumes "ciphers_contract c" "length nonce = NONCE_LEN" "protect c nonce plain ks = Inr blob"
    and "ks_platform ks' = ks_platform ks" "ks_master ks' = ks_master ks"
  shows "unprotect c blob ks' = Inr plain"
  using assms
  by (cases "ks_platform ks")
    (auto simp: protect_def unprotect_def master_protect_def master_unprotect_def and_then_Inr_iff ok_or_Inr_iff ciphers_contract_def)

lemma protect_shape: "protect c nonce plain ks = Inr blob \<Longrightarrow> \<exists>payload. blob = encode_envelope (CURRENT_SCHEME (ks_platform ks)) payload"
  by (auto simp: protect_def and_then_Inr_iff split: platform.splits)

lemma load_after_create:
  assumes "load_or_create fresh io enc f = (f', Inr (Some master, init))" "kf_readable f" "length fresh = MASTER_KEY_LEN"
  shows "load_or_create fresh2 io2 enc2 f' = (f', Inr (Some master, Loaded))"
  using assms by (auto simp: load_or_create_def load_existing_def split: if_splits option.splits)

text \<open>C33: secrets survive restarts and never leave their platform. A secret protected by a keystore is an
  envelope with the scheme of that platform. A later start that finds the key file readable recovers the
  secret exactly, whatever the new random key would be; a keystore of the other platform refuses it as
  unusable.\<close>

theorem keystore_restart_roundtrip:
  assumes "ciphers_contract c" and "length nonce = NONCE_LEN" and "length fresh = MASTER_KEY_LEN" and "kf_readable f"
    and "keystore_open pf fresh io enc f = (f', Inr (ks, init))" and "protect c nonce plain ks = Inr blob"
  shows "is_current_scheme pf blob \<and>
    (\<exists>ks'. keystore_open pf fresh2 io2 enc2 f' = (f', Inr (ks', Loaded)) \<and> unprotect c blob ks' = Inr plain) \<and>
    (ks_platform other \<noteq> pf \<longrightarrow> unprotect c blob other = Inl Unusable)"
proof -
  have pf: "ks_platform ks = pf" using assms(5)
    by (cases pf) (auto simp: keystore_open_def and_then_Inr_iff split: prod.splits)
  obtain payload where b: "blob = encode_envelope (CURRENT_SCHEME pf) payload" using protect_shape [OF assms(6)] pf by blast
  have "\<exists>ks'. keystore_open pf fresh2 io2 enc2 f' = (f', Inr (ks', Loaded)) \<and>
      ks_platform ks' = ks_platform ks \<and> ks_master ks' = ks_master ks"
  proof (cases pf)
    case Windows
    with assms(5) show ?thesis by (simp add: keystore_open_def)
  next
    case Unix
    with assms(5) obtain m where l: "load_or_create fresh io enc f = (f', Inr (m, init))" "ks = \<lparr>ks_platform = Unix, ks_master = m\<rparr>"
      by (auto simp: keystore_open_def and_then_Inr_iff split: prod.splits)
    with Unix assms(6) obtain k where k: "m = Some k" by (auto simp: protect_def and_then_Inr_iff ok_or_Inr_iff)
    from load_after_create [OF l(1) [unfolded k] assms(4,3), of fresh2 io2 enc2] Unix l(2) k
    show ?thesis by (simp add: keystore_open_def and_then_def)
  qed
  moreover have "CURRENT_SCHEME pf \<noteq> CURRENT_SCHEME (ks_platform other)" if "ks_platform other \<noteq> pf"
    using that by (cases pf; cases "ks_platform other") auto
  then have "ks_platform other \<noteq> pf \<longrightarrow> unprotect c blob other = Inl Unusable" by (simp add: unprotect_def b)
  ultimately show ?thesis using unprotect_protect [OF assms(1,2,6)] b by (metis is_current_scheme_encode)
qed

text \<open>An existing key file is never changed, and without its key nothing can be read or written.\<close>

lemma key_file_preserved: "kf_content f = Some bs \<Longrightarrow> fst (load_or_create fresh io enc f) = f"
  by (simp add: load_or_create_def)

lemma damaged_key_file:
  assumes "kf_content f = Some bs" "length bs \<noteq> MASTER_KEY_LEN \<or> \<not> kf_readable f"
    and "keystore_open Unix fresh io enc f = (f', Inr (ks, init))"
  shows "init \<in> {Corrupt, Unreadable}" "protect c nonce plain ks = Inl CryptoErr" "unprotect c blob ks = Inl Unusable"
proof -
  from assms have ks: "ks = \<lparr>ks_platform = Unix, ks_master = None\<rparr>" and i: "init \<in> {Corrupt, Unreadable}"
    by (auto simp: keystore_open_def load_or_create_def load_existing_def split: if_splits)
  from i show "init \<in> {Corrupt, Unreadable}" .
  show "protect c nonce plain ks = Inl CryptoErr" by (simp add: ks protect_def)
  show "unprotect c blob ks = Inl Unusable" by (auto simp: ks unprotect_def split: decoded.splits)
qed

text \<open>A concrete cipher: the authenticator is the associated data and the key, in front of the text.\<close>

definition plain_ciphers :: ciphers where
  "plain_ciphers = \<lparr>ci_encrypt = (\<lambda>key nonce aad msg. Some (key @ aad @ msg)),
     ci_decrypt = (\<lambda>key nonce aad ct. if take (length (key @ aad)) ct = key @ aad then Some (drop (length (key @ aad)) ct) else None),
     ci_dpapi_protect = Some, ci_dpapi_unprotect = Some\<rparr>"

lemma plain_ciphers_contract: "ciphers_contract plain_ciphers"
  by (simp add: ciphers_contract_def plain_ciphers_def)

definition no_key_file :: key_file where
  "no_key_file = \<lparr>kf_content = None, kf_readable = True, kf_creatable = True\<rparr>"

theorem keystore_restart_roundtrip_witness:
  "\<exists>blob. protect plain_ciphers (replicate 24 7) [1, 2, 3] \<lparr>ks_platform = Unix, ks_master = Some (replicate 32 9)\<rparr> = Inr blob \<and>
     (\<exists>ks'. keystore_open Unix (replicate 32 5) (32, True) True (no_key_file\<lparr>kf_content := Some (replicate 32 9)\<rparr>) =
         (no_key_file\<lparr>kf_content := Some (replicate 32 9)\<rparr>, Inr (ks', Loaded)) \<and> unprotect plain_ciphers blob ks' = Inr [1, 2, 3])"
proof -
  let ?ks = "\<lparr>ks_platform = Unix, ks_master = Some (replicate 32 9)\<rparr>" and ?f = "no_key_file\<lparr>kf_content := Some (replicate 32 9)\<rparr>"
  have o: "keystore_open Unix (replicate 32 9) (32, True) False no_key_file = (?f, Inr (?ks, Created))"
    by (simp add: keystore_open_def load_or_create_def no_key_file_def)
  obtain blob where p: "protect plain_ciphers (replicate 24 7) [1, 2, 3] ?ks = Inr blob"
    by (simp add: protect_def master_protect_def plain_ciphers_def)
  show ?thesis
    using keystore_restart_roundtrip [OF plain_ciphers_contract _ _ _ o p, of "replicate 32 5" "(32, True)" True] p
    by (simp add: NONCE_LEN_def MASTER_KEY_LEN_def no_key_file_def)
qed

end
