(* ===== verification/Identity_Manager.thy ===== *)
theory Identity_Manager
  imports Identity_Keystore
begin

text \<open>
  The broadcast lock (\<open>src/broadcast.rs\<close>) and the manager of the user's personas
  (\<open>src/identity/mod.rs\<close>). The shared set of channels on air is a component of the manager's state;
  the closures that the code runs while it holds the lock of that set are functions passed to
  \<open>reserve_and_read_selected\<close> and \<open>guard_selected_mutation\<close>. Key generation, the nonce, the row
  identifier and the clock are arguments; the ciphers are a parameter.

  The methods are functions on the whole state. Threads may interleave between the sections that one
  lock makes atomic, so the relation \<open>section_step\<close> has these sections as its steps, each method is
  shown to be a sequence of them, and the main theorem is about arbitrary sequences: while a channel is
  on air the selected persona cannot be exchanged, archived or deleted.
\<close>

subsection \<open>Broadcast lock\<close>

type_synonym broadcast_state = "string set"

definition broadcast_new :: broadcast_state where
  "broadcast_new = {}"

definition is_broadcasting :: "broadcast_state \<Rightarrow> bool" where
  "is_broadcasting b \<longleftrightarrow> b \<noteq> {}"

definition reserve_and_read_selected ::
  "string \<Rightarrow> ('e + string option) \<Rightarrow> broadcast_state \<Rightarrow> broadcast_state \<times> ('e + string option)" where
  "reserve_and_read_selected channel_id read b = (case read of
     Inl e \<Rightarrow> (b, Inl e)
   | Inr persona \<Rightarrow> (if persona \<noteq> None then insert (to_ascii_lowercase channel_id) b else b, Inr persona))"

definition release :: "string \<Rightarrow> broadcast_state \<Rightarrow> broadcast_state" where
  "release channel_id b = b - {to_ascii_lowercase channel_id}"

definition guard_selected_mutation :: "(bool \<Rightarrow> 's \<Rightarrow> 's \<times> ('e + 'a)) \<Rightarrow> broadcast_state \<Rightarrow> 's \<Rightarrow> 's \<times> ('e + 'a)" where
  "guard_selected_mutation mutate b s = mutate (is_broadcasting b) s"

subsection \<open>Health of the key store\<close>

datatype unavailable_cause = MasterKeyCorrupt | MasterKeyUnreadable | PermissionUnfixable

datatype keystore_health = HealthOk | Unavailable unavailable_cause

definition health_evaluate :: "bool \<Rightarrow> keystore_init \<Rightarrow> keystore_health" where
  "health_evaluate permission_healthy init =
     (if \<not> permission_healthy then Unavailable PermissionUnfixable
      else if init = Corrupt then Unavailable MasterKeyCorrupt
      else if init = Unreadable then Unavailable MasterKeyUnreadable
      else HealthOk)"

definition is_unavailable :: "keystore_health \<Rightarrow> bool" where
  "is_unavailable h \<longleftrightarrow> (case h of HealthOk \<Rightarrow> False | Unavailable _ \<Rightarrow> True)"

subsection \<open>Manager\<close>

definition SELECTED_PERSONA_KEY :: string where
  "SELECTED_PERSONA_KEY = ''selected_persona''"

record persona_info =
  pi_pubkey :: string
  pi_label :: string
  pi_state :: persona_state
  pi_usable :: bool
  pi_created_at :: int
  pi_selected :: bool

record identity_manager =
  im_db :: db
  im_ciphers :: ciphers
  im_keystore :: keystore
  im_health :: keystore_health
  im_assignments :: "string \<rightharpoonup> string"
  im_broadcast :: broadcast_state

definition identity_new_with_health :: "ciphers \<Rightarrow> db \<Rightarrow> keystore \<Rightarrow> keystore_health \<Rightarrow> identity_manager" where
  "identity_new_with_health c d ks health = \<lparr>im_db = d, im_ciphers = c, im_keystore = ks, im_health = health,
     im_assignments = Map.empty, im_broadcast = broadcast_new\<rparr>"

definition identity_new :: "ciphers \<Rightarrow> db \<Rightarrow> keystore \<Rightarrow> identity_manager" where
  "identity_new c d ks = identity_new_with_health c d ks HealthOk"

text \<open>Whether a persona's key can be used now: the common part of \<open>select\<close>, \<open>selected\<close> and \<open>list\<close>.\<close>

definition persona_usable :: "identity_manager \<Rightarrow> persona \<Rightarrow> bool" where
  "persona_usable m p \<longleftrightarrow> \<not> (is_unavailable (im_health m) \<or> isl (unprotect (im_ciphers m) (ps_secret_enc p) (im_keystore m)))"

definition selected :: "identity_manager \<Rightarrow> string option" where
  "selected m = (case get_setting SELECTED_PERSONA_KEY (im_db m) of None \<Rightarrow> None
     | Some pubkey \<Rightarrow> (case get_persona_by_pubkey pubkey (im_db m) of None \<Rightarrow> None
        | Some persona \<Rightarrow>
            if ps_state persona \<noteq> Active then None
            else if \<not> persona_usable m persona then None
            else Some pubkey))"

definition is_current_selected :: "string \<Rightarrow> identity_manager \<Rightarrow> bool" where
  "is_current_selected pubkey m \<longleftrightarrow> get_setting SELECTED_PERSONA_KEY (im_db m) = Some pubkey"

definition select_commit :: "string \<Rightarrow> identity_manager \<Rightarrow> identity_manager \<times> (identity_error + unit)" where
  "select_commit pubkey m = guard_selected_mutation (\<lambda>broadcasting m.
     if broadcasting then (m, Inl BroadcastingLocked)
     else (m\<lparr>im_db := set_setting SELECTED_PERSONA_KEY pubkey (im_db m)\<rparr>, Inr ())) (im_broadcast m) m"

definition select_persona :: "string \<Rightarrow> identity_manager \<Rightarrow> identity_manager \<times> (identity_error + unit)" where
  "select_persona pubkey m = (case get_persona_by_pubkey pubkey (im_db m) of
     None \<Rightarrow> (m, Inl NotFound)
   | Some persona \<Rightarrow>
       if ps_state persona \<noteq> Active then (m, Inl NotSelectable)
       else if \<not> persona_usable m persona then (m, Inl Unusable)
       else select_commit pubkey m)"

definition identity_create ::
  "int \<Rightarrow> int \<Rightarrow> bytes \<Rightarrow> string \<times> bytes \<Rightarrow> string \<Rightarrow> identity_manager \<Rightarrow> identity_manager \<times> (identity_error + persona_info)" where
  "identity_create now rowid nonce keys label m =
     (if is_unavailable (im_health m) then (m, Inl Unusable)
      else case protect (im_ciphers m) nonce (snd keys) (im_keystore m) of
        Inl e \<Rightarrow> (m, Inl e)
      | Inr secret_enc \<Rightarrow>
          let is_first_persona = (list_personas (im_db m) = []) in
          (case insert_persona now rowid (fst keys) secret_enc label (im_db m) of
             (d, Inl e) \<Rightarrow> (m\<lparr>im_db := d\<rparr>, Inl (IdStore e))
           | (d, Inr persona) \<Rightarrow>
               (case (if is_first_persona then select_persona (fst keys) (m\<lparr>im_db := d\<rparr>) else (m\<lparr>im_db := d\<rparr>, Inr ())) of
                  (m', Inl e) \<Rightarrow> (m', Inl e)
                | (m', Inr _) \<Rightarrow> (m', Inr \<lparr>pi_pubkey = ps_pubkey persona, pi_label = ps_label persona,
                    pi_state = ps_state persona, pi_usable = True, pi_created_at = ps_created_at persona,
                    pi_selected = (selected m' = Some (fst keys))\<rparr>))))"

definition identity_list :: "identity_manager \<Rightarrow> persona_info list" where
  "identity_list m = map (\<lambda>p. \<lparr>pi_pubkey = ps_pubkey p, pi_label = ps_label p, pi_state = ps_state p,
     pi_usable = (\<not> is_unavailable (im_health m) \<and> \<not> isl (unprotect (im_ciphers m) (ps_secret_enc p) (im_keystore m))),
     pi_created_at = ps_created_at p, pi_selected = (selected m = Some (ps_pubkey p))\<rparr>) (list_personas (im_db m))"

definition set_label :: "string \<Rightarrow> string \<Rightarrow> identity_manager \<Rightarrow> identity_manager \<times> (identity_error + unit)" where
  "set_label pubkey label m = (case update_persona_label pubkey label (im_db m) of
     (d, Inl e) \<Rightarrow> (m\<lparr>im_db := d\<rparr>, Inl (IdStore e))
   | (d, Inr found) \<Rightarrow> (m\<lparr>im_db := d\<rparr>, if found then Inr () else Inl NotFound))"

definition store_state :: "string \<Rightarrow> persona_state \<Rightarrow> identity_manager \<Rightarrow> identity_manager \<times> (identity_error + unit)" where
  "store_state pubkey st m = (case update_persona_state pubkey st (im_db m) of (d, found) \<Rightarrow>
     (m\<lparr>im_db := d\<rparr>, if found then Inr () else Inl NotFound))"

definition set_state :: "string \<Rightarrow> persona_state \<Rightarrow> identity_manager \<Rightarrow> identity_manager \<times> (identity_error + unit)" where
  "set_state pubkey st m = (if st = Archived then
       guard_selected_mutation (\<lambda>broadcasting m.
         if broadcasting \<and> is_current_selected pubkey m then (m, Inl BroadcastingLocked)
         else store_state pubkey st m) (im_broadcast m) m
     else store_state pubkey st m)"

definition assign_channel :: "string \<Rightarrow> string \<Rightarrow> identity_manager \<Rightarrow> identity_manager \<times> (identity_error + unit)" where
  "assign_channel channel_id pubkey m = (if get_persona_by_pubkey pubkey (im_db m) = None then (m, Inl NotFound)
     else (m\<lparr>im_assignments := (im_assignments m)(to_ascii_lowercase channel_id \<mapsto> pubkey)\<rparr>, Inr ()))"

definition persona_for_channel :: "string \<Rightarrow> identity_manager \<Rightarrow> string option" where
  "persona_for_channel channel_id m = (case im_assignments m (to_ascii_lowercase channel_id) of
     Some pk \<Rightarrow> if get_persona_by_pubkey pk (im_db m) \<noteq> None then Some pk else selected m
   | None \<Rightarrow> selected m)"

definition delete_guarded :: "string \<Rightarrow> identity_manager \<Rightarrow> identity_manager \<times> (identity_error + unit)" where
  "delete_guarded pubkey m = guard_selected_mutation (\<lambda>broadcasting m.
     if broadcasting \<and> is_current_selected pubkey m then (m, Inl BroadcastingLocked)
     else (case delete_persona_row pubkey (im_db m) of (d, found) \<Rightarrow>
       if \<not> found then (m\<lparr>im_db := d\<rparr>, Inl NotFound)
       else (m\<lparr>im_db := d, im_assignments := (\<lambda>c. if im_assignments m c = Some pubkey then None else im_assignments m c)\<rparr>,
         Inr ()))) (im_broadcast m) m"

definition delete_persona :: "string \<Rightarrow> identity_manager \<Rightarrow> identity_manager \<times> (identity_error + unit)" where
  "delete_persona pubkey m = (if is_unavailable (im_health m) then (m, Inl Unusable) else delete_guarded pubkey m)"

text \<open>\<open>SecretKey::from_slice\<close> and \<open>to_bech32\<close> of the nostr crate are parameters.\<close>

definition signing_keys :: "(bytes \<Rightarrow> 'k option) \<Rightarrow> string \<Rightarrow> identity_manager \<Rightarrow> identity_error + 'k" where
  "signing_keys from_slice pubkey m = (if is_unavailable (im_health m) then Inl Unusable
     else and_then (ok_or (get_persona_by_pubkey pubkey (im_db m)) NotFound) (\<lambda>persona.
       and_then (unprotect (im_ciphers m) (ps_secret_enc persona) (im_keystore m)) (\<lambda>secret.
         ok_or (from_slice secret) Unusable)))"

definition export_nsec :: "(bytes \<Rightarrow> 'k option) \<Rightarrow> ('k \<Rightarrow> string option) \<Rightarrow> string \<Rightarrow> identity_manager \<Rightarrow> identity_error + string" where
  "export_nsec from_slice to_bech32 pubkey m =
     and_then (signing_keys from_slice pubkey m) (\<lambda>keys. ok_or (to_bech32 keys) CryptoErr)"

subsection \<open>Atomic sections\<close>

definition reserve :: "string \<Rightarrow> identity_manager \<Rightarrow> identity_manager \<times> (identity_error + string option)" where
  "reserve c m = (case reserve_and_read_selected c (Inr (persona_for_channel c m)) (im_broadcast m) of
     (b, r) \<Rightarrow> (m\<lparr>im_broadcast := b\<rparr>, r))"

inductive section_step :: "identity_manager \<Rightarrow> identity_manager \<Rightarrow> bool" where
  sec_insert: "section_step m (m\<lparr>im_db := fst (insert_persona now rowid pk enc label (im_db m))\<rparr>)"
| sec_select: "section_step m (fst (select_commit pk m))"
| sec_label: "section_step m (fst (set_label pk label m))"
| sec_state: "section_step m (fst (set_state pk st m))"
| sec_assign: "section_step m (fst (assign_channel c pk m))"
| sec_delete: "section_step m (fst (delete_guarded pk m))"
| sec_reserve: "section_step m (fst (reserve c m))"
| sec_release: "section_step m (m\<lparr>im_broadcast := release c (im_broadcast m)\<rparr>)"

inductive_cases section_stepE: "section_step m m'"

text \<open>Runs in which a channel is on air before every step.\<close>

inductive on_air_run :: "identity_manager \<Rightarrow> identity_manager \<Rightarrow> bool" where
  air_refl: "on_air_run m m"
| air_step: "on_air_run m m' \<Longrightarrow> is_broadcasting (im_broadcast m') \<Longrightarrow> section_step m' m'' \<Longrightarrow> on_air_run m m''"

text \<open>The methods are sequences of sections.\<close>

lemma section_star: "section_step m m' \<Longrightarrow> section_step\<^sup>*\<^sup>* m m'"
  by (rule r_into_rtranclp)

lemma select_sections: "section_step\<^sup>*\<^sup>* m (fst (select_persona pk m))"
  by (auto simp: select_persona_def intro: section_star sec_select split: option.splits)

lemma delete_sections: "section_step\<^sup>*\<^sup>* m (fst (delete_persona pk m))"
  by (auto simp: delete_persona_def intro: section_star sec_delete)

lemma create_sections: "section_step\<^sup>*\<^sup>* m (fst (identity_create now rowid nonce keys label m))"
proof -
  have i: "section_step\<^sup>*\<^sup>* m (m\<lparr>im_db := fst (insert_persona now rowid (fst keys) enc label (im_db m))\<rparr>)" for enc
    by (rule section_star [OF sec_insert])
  have s: "section_step\<^sup>*\<^sup>* m (fst (select_persona (fst keys) (m\<lparr>im_db := fst (insert_persona now rowid (fst keys) enc label (im_db m))\<rparr>)))" for enc
    using i select_sections by (rule rtranclp_trans)
  show ?thesis
  proof (cases "is_unavailable (im_health m) \<or> isl (protect (im_ciphers m) nonce (snd keys) (im_keystore m))")
    case True
    then show ?thesis by (auto simp: identity_create_def split: sum.splits)
  next
    case False
    then obtain enc where e: "\<not> is_unavailable (im_health m)" "protect (im_ciphers m) nonce (snd keys) (im_keystore m) = Inr enc"
      by (auto simp: isl_def split: sum.splits) (meson sum.exhaust)
    obtain d r where d: "insert_persona now rowid (fst keys) enc label (im_db m) = (d, r)" by fastforce
    obtain m' r' where m': "select_persona (fst keys) (m\<lparr>im_db := d\<rparr>) = (m', r')" by fastforce
    from e d m' i [of enc] s [of enc] show ?thesis
      by (auto simp: identity_create_def Let_def split: sum.splits)
  qed
qed

subsection \<open>The selected persona is frozen while on air\<close>

lemma find_map_same:
  assumes "\<And>r. key (f r) = key r"
  shows "find (\<lambda>r. key r = k) (map f rows) = map_option f (find (\<lambda>r. key r = k) rows)"
  using assms by (induction rows) auto

lemma find_snoc: "find P (xs @ [x]) = (case find P xs of None \<Rightarrow> if P x then Some x else None | Some y \<Rightarrow> Some y)"
  by (induction xs) auto

lemma find_filter_other: "k \<noteq> k' \<Longrightarrow> find (\<lambda>r. key r = k) (filter (\<lambda>r. key r \<noteq> k') rows) = find (\<lambda>r. key r = k) rows"
  by (induction rows) auto

definition persona_core :: "db \<Rightarrow> string \<Rightarrow> (persona_state \<times> bytes) option" where
  "persona_core d pk = map_option (\<lambda>p. (ps_state p, ps_secret_enc p)) (get_persona_by_pubkey pk d)"

lemma selected_core:
  "selected m = (case get_setting SELECTED_PERSONA_KEY (im_db m) of None \<Rightarrow> None
     | Some pk \<Rightarrow> (case persona_core (im_db m) pk of None \<Rightarrow> None
        | Some (st, enc) \<Rightarrow> if st = Active \<and> \<not> is_unavailable (im_health m) \<and>
            \<not> isl (unprotect (im_ciphers m) enc (im_keystore m)) then Some pk else None))"
  by (auto simp: selected_def persona_core_def persona_usable_def split: option.splits)

lemma persona_core_insert:
  "persona_core d pk = Some v \<Longrightarrow> persona_core (fst (insert_persona now rowid pk' enc label d)) pk = Some v"
  by (auto simp: persona_core_def get_persona_by_pubkey_def insert_persona_def Let_def find_snoc split: option.splits)

lemma persona_core_label: "persona_core (fst (update_persona_label pk' label d)) pk = persona_core d pk"
  by (auto simp: persona_core_def get_persona_by_pubkey_def update_persona_label_def sql_update_def find_map_same
      option.map_comp comp_def if_distrib cong: if_cong option.map_cong)

lemma persona_core_state:
  "persona_core (fst (update_persona_state pk' st d)) pk =
     map_option (\<lambda>v. if pk = pk' then (st, snd v) else v) (persona_core d pk)"
proof -
  let ?f = "\<lambda>p. if ps_pubkey p = pk' then p\<lparr>ps_state := st\<rparr> else p"
  have "get_persona_by_pubkey pk (fst (update_persona_state pk' st d)) = map_option ?f (get_persona_by_pubkey pk d)"
    by (simp add: get_persona_by_pubkey_def update_persona_state_def sql_update_def find_map_same)
  moreover have "ps_pubkey p = pk" if "get_persona_by_pubkey pk d = Some p" for p
    using that by (auto simp: get_persona_by_pubkey_def find_Some_iff)
  ultimately show ?thesis by (cases "get_persona_by_pubkey pk d") (auto simp: persona_core_def)
qed

lemma persona_core_delete: "pk \<noteq> pk' \<Longrightarrow> persona_core (fst (delete_persona_row pk' d)) pk = persona_core d pk"
  by (simp add: persona_core_def get_persona_by_pubkey_def delete_persona_row_def sql_delete_def find_filter_other)

lemma setting_untouched [simp]:
  "get_setting k (fst (insert_persona now rowid pk enc label d)) = get_setting k d"
  "get_setting k (fst (update_persona_label pk label d)) = get_setting k d"
  "get_setting k (fst (update_persona_state pk st d)) = get_setting k d"
  "get_setting k (fst (delete_persona_row pk d)) = get_setting k d"
  by (simp_all add: get_setting_def insert_persona_def update_persona_label_def update_persona_state_def delete_persona_row_def
      sql_update_def sql_delete_def Let_def)

text \<open>What a section does to the parts that determine the selection.\<close>

definition same_keys :: "identity_manager \<Rightarrow> identity_manager \<Rightarrow> bool" where
  "same_keys m m' \<longleftrightarrow> im_health m' = im_health m \<and> im_ciphers m' = im_ciphers m \<and> im_keystore m' = im_keystore m"

lemma method_db:
  "im_db (fst (set_label pk label m)) = fst (update_persona_label pk label (im_db m))"
  "im_db (fst (store_state pk st m)) = fst (update_persona_state pk st (im_db m))"
  by (simp_all add: set_label_def store_state_def split: prod.splits sum.splits)

lemma method_same_keys:
  "same_keys m (fst (set_label pk label m))" "same_keys m (fst (store_state pk st m))"
  "same_keys m (fst (assign_channel c pk m))" "same_keys m (fst (select_commit pk m))"
  "same_keys m (fst (delete_guarded pk m))" "same_keys m (fst (set_state pk st m))" "same_keys m (fst (reserve c m))"
  by (simp_all add: same_keys_def set_label_def store_state_def assign_channel_def select_commit_def delete_guarded_def
      set_state_def guard_selected_mutation_def reserve_def split: prod.splits sum.splits)

lemma selected_keeps:
  assumes "selected m = Some pk" "same_keys m m'" "get_setting SELECTED_PERSONA_KEY (im_db m') = Some pk"
    and "\<And>st enc. persona_core (im_db m) pk = Some (st, enc) \<Longrightarrow> st = Active \<Longrightarrow> persona_core (im_db m') pk = Some (Active, enc)"
  shows "selected m' = Some pk"
proof -
  have g: "get_setting SELECTED_PERSONA_KEY (im_db m) = Some pk"
    using assms(1) by (auto simp: selected_def split: option.splits if_splits)
  obtain st enc where c: "persona_core (im_db m) pk = Some (st, enc)"
    using assms(1) g by (auto simp: selected_core split: option.splits)
  with assms(1) g have a: "st = Active" by (auto simp: selected_core split: if_splits)
  from assms(4) [OF c a] have "persona_core (im_db m') pk = Some (Active, enc)" .
  with assms(1-3) g c a show ?thesis by (simp add: selected_core same_keys_def)
qed

lemma selected_setting: "selected m = Some pk \<Longrightarrow> get_setting SELECTED_PERSONA_KEY (im_db m) = Some pk"
  by (auto simp: selected_def split: option.splits if_splits)

lemma selected_same_db: "same_keys m m' \<Longrightarrow> im_db m' = im_db m \<Longrightarrow> selected m' = selected m"
  by (auto simp: selected_core same_keys_def split: option.splits)

lemma untouched_db:
  "im_db (fst (assign_channel c pk m)) = im_db m" "im_db (fst (reserve c m)) = im_db m"
  by (simp_all add: assign_channel_def reserve_def split: prod.splits)

lemma section_frozen:
  assumes "section_step m m'" "is_broadcasting (im_broadcast m)" "selected m = Some pk"
  shows "selected m' = Some pk"
  using assms(1)
proof cases
  case (sec_insert now rowid pk' enc label)
  show ?thesis by (rule selected_keeps [OF assms(3)])
      (use selected_setting [OF assms(3)] in \<open>auto simp: sec_insert same_keys_def intro: persona_core_insert\<close>)
next
  case (sec_select pk')
  then show ?thesis using assms(2,3) by (simp add: select_commit_def guard_selected_mutation_def)
next
  case (sec_label pk' label)
  show ?thesis by (rule selected_keeps [OF assms(3)])
      (use selected_setting [OF assms(3)] in \<open>auto simp: sec_label method_same_keys method_db persona_core_label\<close>)
next
  case (sec_state pk' st)
  show ?thesis
  proof (cases "st = Archived \<and> pk' = pk")
    case True
    then show ?thesis using assms(2,3) selected_setting [OF assms(3)]
      by (simp add: sec_state set_state_def guard_selected_mutation_def is_current_selected_def)
  next
    case False
    have "fst (set_state pk' st m) = m \<or> fst (set_state pk' st m) = fst (store_state pk' st m)"
      by (auto simp: set_state_def guard_selected_mutation_def)
    then show ?thesis
    proof
      assume "fst (set_state pk' st m) = m"
      then show ?thesis using sec_state assms(3) by simp
    next
      assume "fst (set_state pk' st m) = fst (store_state pk' st m)"
      moreover have "pk = pk' \<Longrightarrow> st = Active" using False by (cases st) auto
      ultimately show ?thesis using sec_state
        by (intro selected_keeps [OF assms(3)])
          (use selected_setting [OF assms(3)] in \<open>auto simp: method_same_keys method_db persona_core_state\<close>)
    qed
  qed
next
  case (sec_assign c pk')
  then show ?thesis using assms(3) selected_same_db [OF method_same_keys(3) untouched_db(1)] by simp
next
  case (sec_delete pk')
  show ?thesis
  proof (cases "pk' = pk")
    case True
    then show ?thesis using assms(2,3) selected_setting [OF assms(3)]
      by (simp add: sec_delete delete_guarded_def guard_selected_mutation_def is_current_selected_def)
  next
    case False
    have "im_db m' = im_db m \<or> im_db m' = fst (delete_persona_row pk' (im_db m))"
      by (auto simp: sec_delete delete_guarded_def guard_selected_mutation_def split: prod.splits)
    with False selected_setting [OF assms(3)] show ?thesis
      by (intro selected_keeps [OF assms(3)]) (auto simp: sec_delete method_same_keys persona_core_delete)
  qed
next
  case (sec_reserve c)
  then show ?thesis using assms(3) selected_same_db [OF method_same_keys(7) untouched_db(2)] by simp
next
  case (sec_release c)
  then show ?thesis using assms(3) selected_same_db [of m m'] by (simp add: same_keys_def)
qed

text \<open>C18: the persona that signs cannot change under a running broadcast. Whatever the threads do, as long as
  at least one channel is on air before every atomic section, the selected persona stays the same: it
  is not exchanged, archived or deleted, and no other persona takes its place.\<close>

theorem selected_frozen_on_air:
  assumes "on_air_run m m'" and "selected m = Some pk"
  shows "selected m' = Some pk"
  using assms by induction (auto intro: section_frozen)

text \<open>A persona and a manager that has it selected, with the concrete ciphers of the key store.\<close>

definition demo_keystore :: keystore where
  "demo_keystore = \<lparr>ks_platform = Windows, ks_master = None\<rparr>"

definition demo_persona :: "string \<Rightarrow> persona" where
  "demo_persona pk = \<lparr>ps_id = 1, ps_pubkey = pk, ps_secret_enc = encode_envelope 1 [7], ps_label = [], ps_created_at = 0, ps_state = Active\<rparr>"

definition demo_manager :: "string list \<Rightarrow> broadcast_state \<Rightarrow> identity_manager" where
  "demo_manager pks b = (identity_new plain_ciphers (store_open\<lparr>db_personas := map demo_persona pks,
     db_settings := [(SELECTED_PERSONA_KEY, ''a'')]\<rparr>) demo_keystore)\<lparr>im_broadcast := b\<rparr>"

lemmas demo_defs = demo_manager_def demo_persona_def demo_keystore_def identity_new_def identity_new_with_health_def store_open_def
  plain_ciphers_def

lemma demo_selected: "selected (demo_manager [''a'', ''b''] b) = Some ''a''"
  by (simp add: selected_def get_setting_def get_persona_by_pubkey_def persona_usable_def is_unavailable_def unprotect_def demo_defs)

theorem selected_frozen_on_air_witness:
  "selected (fst (delete_guarded ''a'' (demo_manager [''a'', ''b''] {''c''}))) = Some ''a''"
proof -
  have "is_broadcasting (im_broadcast (demo_manager [''a'', ''b''] {''c''}))" by (simp add: is_broadcasting_def demo_manager_def)
  from on_air_run.air_step [OF on_air_run.air_refl this sec_delete] show ?thesis
    using demo_selected by (rule selected_frozen_on_air)
qed

subsection \<open>A failing creation leaves a persona behind\<close>

text \<open>Creating a persona can fail and still create it. When no persona is stored while a channel is on air
  (the persona assigned to the channel has been deleted, which the lock allows for a persona that is not
  selected), the new persona is stored as the first one, then its automatic selection is refused because
  of the broadcast, and the call reports an error although the persona exists.\<close>

theorem create_fails_after_insert:
  assumes "\<not> is_unavailable (im_health m)" and "db_personas (im_db m) = []" and "is_broadcasting (im_broadcast m)"
    and "protect (im_ciphers m) nonce secret (im_keystore m) = Inr enc" and "unprotect (im_ciphers m) enc (im_keystore m) = Inr secret"
    and "is_lower_hex pk PUBKEY_HEX_LEN" and "length (utf8_chars label) \<le> LABEL_MAX_CHARS"
  shows "snd (identity_create now rowid nonce (pk, secret) label m) = Inl BroadcastingLocked \<and>
    map pi_pubkey (identity_list (fst (identity_create now rowid nonce (pk, secret) label m))) = [pk]"
  using assms
  by (simp add: identity_create_def list_personas_def insert_persona_def Let_def sort_by_def select_persona_def
      get_persona_by_pubkey_def persona_usable_def select_commit_def guard_selected_mutation_def identity_list_def)

definition hex_pk :: string where
  "hex_pk = replicate 64 CHR ''a''"

text \<open>The state is reached by the methods themselves.\<close>

definition emptied_manager :: identity_manager where
  "emptied_manager = fst (delete_persona ''b'' (fst (reserve ''c'' (fst (assign_channel ''c'' ''b''
     (fst (delete_persona ''a'' (demo_manager [''a'', ''b''] {}))))))))"

lemma emptied_manager_state:
  "db_personas (im_db emptied_manager) = []" "im_broadcast emptied_manager = {''c''}" "im_health emptied_manager = HealthOk"
  "im_ciphers emptied_manager = plain_ciphers" "im_keystore emptied_manager = demo_keystore"
  by (simp_all add: emptied_manager_def delete_persona_def delete_guarded_def guard_selected_mutation_def is_broadcasting_def
      is_unavailable_def is_current_selected_def delete_persona_row_def sql_delete_def reserve_def reserve_and_read_selected_def
      persona_for_channel_def assign_channel_def get_persona_by_pubkey_def get_setting_def SELECTED_PERSONA_KEY_def
      to_ascii_lowercase_def less_eq_char_def demo_defs)

theorem create_fails_after_insert_witness:
  "snd (identity_create 0 3 [] (hex_pk, [5]) [] emptied_manager) = Inl BroadcastingLocked \<and>
   map pi_pubkey (identity_list (fst (identity_create 0 3 [] (hex_pk, [5]) [] emptied_manager))) = [hex_pk]"
proof (rule create_fails_after_insert [where enc = "encode_envelope 1 [5]"])
  show "is_lower_hex hex_pk PUBKEY_HEX_LEN" by (simp add: is_lower_hex_def hex_pk_def PUBKEY_HEX_LEN_def is_lower_hex_char_def list_all_iff)
qed (simp_all add: emptied_manager_state is_unavailable_def is_broadcasting_def protect_def unprotect_def demo_keystore_def
    plain_ciphers_def LABEL_MAX_CHARS_def)

end
