(* ===== verification/Platform_Dirs.thy ===== *)
theory Platform_Dirs
  imports Identity_Manager "HOL-Library.Word"
begin

text \<open>
  The platform module (\<open>src/platform/mod.rs\<close>): where the data directory is, its creation, and the check
  of the permissions of the stored files at startup. Environment variables are a lookup function, the
  outcomes of system calls are arguments; \<open>lossy\<close> is \<open>OsStr::to_string_lossy\<close>. The texts of the
  errors are left out, each error is a value. The files of the data directory are a map from
  their names to what \<open>symlink_metadata\<close> says of them; modes are written in hexadecimal (\<open>0x1C0\<close> is
  the octal \<open>0700\<close>, \<open>0x3F\<close> the bits of group and others). \<open>sd_notify\<close> and \<open>shutdown_signal\<close> are system
  calls only and have no counterpart here.

  The lemmas show the order of the sources of the directory, and that after the check no stored
  file is open to other users while personas are usable.
\<close>

unbundle bit_operations_syntax

subsection \<open>Data directory\<close>

datatype data_dir_error = HomeUnset | AppdataUnset | CreateFailed

text \<open>\<open>PathBuf::join\<close> with a relative path.\<close>

definition unix_join :: "string \<Rightarrow> string \<Rightarrow> string" where
  "unix_join base part = (if base = [] \<or> last base = CHR ''/'' then base @ part else base @ ''/'' @ part)"

definition windows_join :: "string \<Rightarrow> string \<Rightarrow> string" where
  "windows_join base part = (if base = [] \<or> last base = CHR ''/'' \<or> last base = CHR 0x5C \<or> (length base = 2 \<and> base ! 1 = CHR '':'')
     then base @ part else base @ [CHR 0x5C] @ part)"

definition resolve_with_unix :: "(string \<Rightarrow> string) \<Rightarrow> (string \<Rightarrow> string option) \<Rightarrow> string option \<Rightarrow> data_dir_error + string" where
  "resolve_with_unix lossy lookup cli = (case cli of Some dir \<Rightarrow> Inr dir
   | None \<Rightarrow>
       let first = (case lookup ''STATE_DIRECTORY'' of Some val \<Rightarrow> trim (hd (split_at CHR '':'' (lossy val))) | None \<Rightarrow> []) in
       if first \<noteq> [] then Inr first
       else case lookup ''XDG_STATE_HOME'' of
         Some (x # xs) \<Rightarrow> Inr (unix_join (x # xs) ''peca-p2p-yp'')
       | _ \<Rightarrow> (case lookup ''HOME'' of
           Some (x # xs) \<Rightarrow> Inr (unix_join (x # xs) ''.local/state/peca-p2p-yp'')
         | _ \<Rightarrow> Inl HomeUnset))"

definition resolve_with_windows :: "(string \<Rightarrow> string option) \<Rightarrow> string option \<Rightarrow> data_dir_error + string" where
  "resolve_with_windows lookup cli = (case cli of Some dir \<Rightarrow> Inr dir
   | None \<Rightarrow> (case lookup ''APPDATA'' of Some val \<Rightarrow> Inr (windows_join val ''peca-p2p-yp'') | None \<Rightarrow> Inl AppdataUnset))"

definition resolve_data_dir :: "platform \<Rightarrow> (string \<Rightarrow> string) \<Rightarrow> (string \<Rightarrow> string option) \<Rightarrow> string option \<Rightarrow> data_dir_error + string" where
  "resolve_data_dir pf lossy env cli = (case pf of Unix \<Rightarrow> resolve_with_unix lossy env cli | Windows \<Rightarrow> resolve_with_windows env cli)"

definition ensure_data_dir ::
  "platform \<Rightarrow> (string \<Rightarrow> string) \<Rightarrow> (string \<Rightarrow> string option) \<Rightarrow> (string \<Rightarrow> bool) \<Rightarrow> string option \<Rightarrow> data_dir_error + string" where
  "ensure_data_dir pf lossy env create_ok cli = and_then (resolve_data_dir pf lossy env cli) (\<lambda>dir.
     if create_ok dir then Inr dir else Inl CreateFailed)"

subsection \<open>Permissions\<close>

record permission_check =
  pc_fixed :: "string list"
  pc_unfixable :: "string list"

definition is_healthy :: "permission_check \<Rightarrow> bool" where
  "is_healthy c \<longleftrightarrow> pc_unfixable c = []"

record file_meta =
  fm_mode :: "32 word"
  fm_symlink :: bool

datatype enforce_outcome = Absent | AlreadyStrict | Fixed | Unfixable

text \<open>\<open>chmod_ok\<close> tells whether \<open>set_permissions\<close> succeeds on a file.\<close>

definition enforce_one :: "(string \<Rightarrow> bool) \<Rightarrow> string \<Rightarrow> 32 word \<Rightarrow> (string \<rightharpoonup> file_meta) \<Rightarrow> (string \<rightharpoonup> file_meta) \<times> enforce_outcome" where
  "enforce_one chmod_ok name target_mode files = (case files name of
     None \<Rightarrow> (files, Absent)
   | Some meta \<Rightarrow>
       let mode = fm_mode meta AND 0xFFF in
       if mode AND 0x3F = 0 then (files, AlreadyStrict)
       else if fm_symlink meta then (files, Unfixable)
       else if chmod_ok name then (files(name \<mapsto> meta\<lparr>fm_mode := target_mode\<rparr>), Fixed)
       else (files, Unfixable))"

text \<open>The texts of the two log entries, in UTF-8.\<close>

definition FIXED_DETAIL :: string where
  "FIXED_DETAIL = [
     CHR 0xE4, CHR 0xBF, CHR 0x9D, CHR 0xE7, CHR 0xAE, CHR 0xA1, CHR 0xE7, CHR 0x89, CHR 0xA9, CHR 0xE3, CHR 0x81,
     CHR 0xAE, CHR 0xE3, CHR 0x83, CHR 0x91, CHR 0xE3, CHR 0x83, CHR 0xBC, CHR 0xE3, CHR 0x83, CHR 0x9F, CHR 0xE3,
     CHR 0x83, CHR 0x83, CHR 0xE3, CHR 0x82, CHR 0xB7, CHR 0xE3, CHR 0x83, CHR 0xA7, CHR 0xE3, CHR 0x83, CHR 0xB3,
     CHR 0xE3, CHR 0x82, CHR 0x92, CHR 0xE6, CHR 0x98, CHR 0xAF, CHR 0xE6, CHR 0xAD, CHR 0xA3, CHR 0xE3, CHR 0x81,
     CHR 0x97, CHR 0xE3, CHR 0x81, CHR 0xBE, CHR 0xE3, CHR 0x81, CHR 0x97, CHR 0xE3, CHR 0x81, CHR 0x9F]"

definition UNFIXABLE_DETAIL :: string where
  "UNFIXABLE_DETAIL = [
     CHR 0xE4, CHR 0xBF, CHR 0x9D, CHR 0xE7, CHR 0xAE, CHR 0xA1, CHR 0xE7, CHR 0x89, CHR 0xA9, CHR 0xE3, CHR 0x81,
     CHR 0xAE, CHR 0xE3, CHR 0x83, CHR 0x91, CHR 0xE3, CHR 0x83, CHR 0xBC, CHR 0xE3, CHR 0x83, CHR 0x9F, CHR 0xE3,
     CHR 0x83, CHR 0x83, CHR 0xE3, CHR 0x82, CHR 0xB7, CHR 0xE3, CHR 0x83, CHR 0xA7, CHR 0xE3, CHR 0x83, CHR 0xB3,
     CHR 0xE3, CHR 0x82, CHR 0x92, CHR 0xE6, CHR 0x98, CHR 0xAF, CHR 0xE6, CHR 0xAD, CHR 0xA3, CHR 0xE3, CHR 0x81,
     CHR 0xA7, CHR 0xE3, CHR 0x81, CHR 0x8D, CHR 0xE3, CHR 0x81, CHR 0xBE, CHR 0xE3, CHR 0x81, CHR 0x9B, CHR 0xE3,
     CHR 0x82, CHR 0x93, CHR 0xE3, CHR 0x81, CHR 0xA7, CHR 0xE3, CHR 0x81, CHR 0x97, CHR 0xE3, CHR 0x81, CHR 0x9F]"

definition permission_targets :: "(string \<times> 32 word) list" where
  "permission_targets = [(''.'', 0x1C0), (''master.key'', 0x180), (''app.db'', 0x180), (''app.db-wal'', 0x180), (''app.db-shm'', 0x180)]"

record permission_run =
  pr_files :: "string \<rightharpoonup> file_meta"
  pr_check :: permission_check
  pr_logged :: "(security_category \<times> string \<times> string) list"

definition enforce_target :: "(string \<Rightarrow> bool) \<Rightarrow> string \<times> 32 word \<Rightarrow> permission_run \<Rightarrow> permission_run" where
  "enforce_target chmod_ok target r = (case target of (name, mode) \<Rightarrow> case enforce_one chmod_ok name mode (pr_files r) of (files, outcome) \<Rightarrow>
     let r = r\<lparr>pr_files := files\<rparr>; check = pr_check r in
     (case outcome of
        Fixed \<Rightarrow> r\<lparr>pr_check := check\<lparr>pc_fixed := pc_fixed check @ [name]\<rparr>, pr_logged := pr_logged r @ [(KeyPermissionFixed, name, FIXED_DETAIL)]\<rparr>
      | Unfixable \<Rightarrow> r\<lparr>pr_check := check\<lparr>pc_unfixable := pc_unfixable check @ [name]\<rparr>,
          pr_logged := pr_logged r @ [(KeyPermissionUnfixable, name, UNFIXABLE_DETAIL)]\<rparr>
      | _ \<Rightarrow> r))"

definition enforce_permissions :: "platform \<Rightarrow> (string \<Rightarrow> bool) \<Rightarrow> (string \<rightharpoonup> file_meta) \<Rightarrow> permission_run" where
  "enforce_permissions pf chmod_ok files = (let start = \<lparr>pr_files = files, pr_check = \<lparr>pc_fixed = [], pc_unfixable = []\<rparr>, pr_logged = []\<rparr> in
     case pf of Windows \<Rightarrow> start | Unix \<Rightarrow> fold (enforce_target chmod_ok) permission_targets start)"

subsection \<open>No stored file stays open to other users\<close>

definition shared :: "file_meta \<Rightarrow> bool" where
  "shared m \<longleftrightarrow> fm_mode m AND 0x3F \<noteq> 0"

lemma mask_strict: "((m :: 32 word) AND 0xFFF) AND 0x3F = m AND 0x3F"
  by (simp add: and.assoc)

lemma enforce_one_cases:
  assumes "mode AND 0x3F = 0"
  shows "(case enforce_one chmod_ok name mode files of (files', outcome) \<Rightarrow>
     (\<forall>n. n \<noteq> name \<or> outcome \<noteq> Fixed \<longrightarrow> files' n = files n) \<and>
     (outcome = Fixed \<longrightarrow> (\<exists>m. files name = Some m \<and> \<not> fm_symlink m \<and> files' name = Some (m\<lparr>fm_mode := mode\<rparr>))) \<and>
     (outcome \<noteq> Unfixable \<longrightarrow> (\<forall>m. files' name = Some m \<longrightarrow> \<not> shared m)))"
  using assms by (auto simp: enforce_one_def Let_def mask_strict shared_def split: option.splits)

text \<open>What holds of a run over any list of targets with private modes.\<close>

definition enforced :: "string set \<Rightarrow> permission_run \<Rightarrow> permission_run \<Rightarrow> bool" where
  "enforced names r r' \<longleftrightarrow> (\<forall>n. n \<notin> names \<longrightarrow> pr_files r' n = pr_files r n) \<and>
     (\<forall>n m. pr_files r n = Some m \<and> fm_symlink m \<longrightarrow> pr_files r' n = Some m) \<and>
     (\<forall>n \<in> names. \<forall>m. pr_files r' n = Some m \<and> shared m \<longrightarrow> n \<in> set (pc_unfixable (pr_check r'))) \<and>
     set (pc_unfixable (pr_check r)) \<subseteq> set (pc_unfixable (pr_check r')) \<and>
     (set (pr_logged r) = (\<lambda>n. (KeyPermissionFixed, n, FIXED_DETAIL)) ` set (pc_fixed (pr_check r)) \<union>
         (\<lambda>n. (KeyPermissionUnfixable, n, UNFIXABLE_DETAIL)) ` set (pc_unfixable (pr_check r)) \<longrightarrow>
      set (pr_logged r') = (\<lambda>n. (KeyPermissionFixed, n, FIXED_DETAIL)) ` set (pc_fixed (pr_check r')) \<union>
         (\<lambda>n. (KeyPermissionUnfixable, n, UNFIXABLE_DETAIL)) ` set (pc_unfixable (pr_check r')))"

lemma enforce_target_enforced:
  assumes "mode AND 0x3F = 0"
  shows "enforced {name} r (enforce_target chmod_ok (name, mode) r)"
proof -
  obtain files outcome where e: "enforce_one chmod_ok name mode (pr_files r) = (files, outcome)" by fastforce
  have c: "\<forall>n. n \<noteq> name \<or> outcome \<noteq> Fixed \<longrightarrow> files n = pr_files r n"
    "outcome = Fixed \<longrightarrow> (\<exists>m. pr_files r name = Some m \<and> \<not> fm_symlink m \<and> files name = Some (m\<lparr>fm_mode := mode\<rparr>))"
    "outcome \<noteq> Unfixable \<longrightarrow> (\<forall>m. files name = Some m \<longrightarrow> \<not> shared m)"
    using enforce_one_cases [OF assms, where chmod_ok = chmod_ok and name = name and files = "pr_files r"] e by auto
  have sym: "files n = Some m" if "pr_files r n = Some m" "fm_symlink m" for n m using c(1,2) that by (cases "n = name") auto
  show ?thesis unfolding enforced_def
    by (cases outcome) (use c e sym in \<open>auto simp: enforce_target_def Let_def\<close>)
qed

lemma enforced_append:
  assumes "enforced A r r1" "enforced B r1 r2" "A \<inter> B = {}"
  shows "enforced (A \<union> B) r r2"
proof -
  have "pr_files r2 n = pr_files r1 n" if "n \<in> A" for n using assms(2,3) that by (auto simp: enforced_def)
  then have "n \<in> set (pc_unfixable (pr_check r2))" if "n \<in> A" "pr_files r2 n = Some m" "shared m" for n m
    using assms(1,2) that unfolding enforced_def by (metis subsetD)
  with assms(1,2) show ?thesis unfolding enforced_def by (intro conjI; (auto; fail)?)
qed

lemma enforce_run:
  "distinct (map fst ts) \<Longrightarrow> \<forall>t \<in> set ts. snd t AND 0x3F = 0 \<Longrightarrow> enforced (fst ` set ts) r (fold (enforce_target chmod_ok) ts r)"
proof (induction ts arbitrary: r)
  case (Cons t ts)
  have "enforced {fst t} r (enforce_target chmod_ok t r)" using enforce_target_enforced [where mode = "snd t" and name = "fst t" and r = r and chmod_ok = chmod_ok] Cons.prems(2) by simp
  then have "enforced ({fst t} \<union> fst ` set ts) r (fold (enforce_target chmod_ok) ts (enforce_target chmod_ok t r))"
    by (rule enforced_append) (use Cons in auto)
  then show ?case by simp
qed (simp add: enforced_def)

text \<open>C34: usable personas have private files. After the check at startup on Unix: a stored file (data
  directory, key file, database and its journals) that other users can reach is named in the
  result and logged; so when the key store is found healthy, none of them is reachable. Symbolic
  links and other files are never changed.\<close>

theorem usable_keys_private:
  assumes "r = enforce_permissions Unix chmod_ok files"
  shows "(\<forall>n \<in> fst ` set permission_targets. \<forall>m. pr_files r n = Some m \<and> shared m \<longrightarrow>
      n \<in> set (pc_unfixable (pr_check r)) \<and> (KeyPermissionUnfixable, n, UNFIXABLE_DETAIL) \<in> set (pr_logged r)) \<and>
    (health_evaluate (is_healthy (pr_check r)) init = HealthOk \<longrightarrow>
      (\<forall>n \<in> fst ` set permission_targets. \<forall>m. pr_files r n = Some m \<longrightarrow> \<not> shared m)) \<and>
    (\<forall>n. n \<notin> fst ` set permission_targets \<longrightarrow> pr_files r n = files n) \<and>
    (\<forall>n m. files n = Some m \<and> fm_symlink m \<longrightarrow> pr_files r n = Some m)"
proof -
  have "distinct (map fst permission_targets)" "\<forall>t \<in> set permission_targets. snd t AND 0x3F = 0" by (simp_all add: permission_targets_def)
  from enforce_run [OF this, of "\<lparr>pr_files = files, pr_check = \<lparr>pc_fixed = [], pc_unfixable = []\<rparr>, pr_logged = []\<rparr>" chmod_ok]
  have e: "enforced (fst ` set permission_targets) \<lparr>pr_files = files, pr_check = \<lparr>pc_fixed = [], pc_unfixable = []\<rparr>, pr_logged = []\<rparr> r"
    by (simp add: assms enforce_permissions_def)
  moreover have "health_evaluate (is_healthy (pr_check r)) init = HealthOk \<Longrightarrow> pc_unfixable (pr_check r) = []"
    by (simp add: health_evaluate_def is_healthy_def split: if_splits)
  ultimately show ?thesis unfolding enforced_def by auto
qed

lemma enforce_absent: "pr_files r name = None \<Longrightarrow> enforce_target chmod_ok (name, mode) r = r"
  by (simp add: enforce_target_def enforce_one_def)

theorem usable_keys_private_witness:
  "let r = enforce_permissions Unix (\<lambda>n. True) [''master.key'' \<mapsto> \<lparr>fm_mode = 0x1A4, fm_symlink = False\<rparr>] in
   pr_files r ''master.key'' = Some \<lparr>fm_mode = 0x180, fm_symlink = False\<rparr> \<and> health_evaluate (is_healthy (pr_check r)) Loaded = HealthOk \<and>
   (\<forall>m. pr_files r ''master.key'' = Some m \<longrightarrow> \<not> shared m)"
proof -
  let ?r = "enforce_permissions Unix (\<lambda>n. True) [''master.key'' \<mapsto> \<lparr>fm_mode = 0x1A4, fm_symlink = False\<rparr>]"
  have r: "pr_files ?r ''master.key'' = Some \<lparr>fm_mode = 0x180, fm_symlink = False\<rparr>" "health_evaluate (is_healthy (pr_check ?r)) Loaded = HealthOk"
  proof -
    let ?s = "\<lparr>pr_files = [''master.key'' \<mapsto> \<lparr>fm_mode = 0x1A4, fm_symlink = False\<rparr>], pr_check = \<lparr>pc_fixed = [], pc_unfixable = []\<rparr>, pr_logged = []\<rparr>"
    have "enforce_target (\<lambda>n. True) (''master.key'', 0x180) ?s =
        \<lparr>pr_files = [''master.key'' \<mapsto> \<lparr>fm_mode = 0x180, fm_symlink = False\<rparr>], pr_check = \<lparr>pc_fixed = [''master.key''], pc_unfixable = []\<rparr>,
          pr_logged = [(KeyPermissionFixed, ''master.key'', FIXED_DETAIL)]\<rparr>"
      by (simp add: enforce_target_def enforce_one_def Let_def)
    then have "?r = \<lparr>pr_files = [''master.key'' \<mapsto> \<lparr>fm_mode = 0x180, fm_symlink = False\<rparr>], pr_check = \<lparr>pc_fixed = [''master.key''], pc_unfixable = []\<rparr>,
          pr_logged = [(KeyPermissionFixed, ''master.key'', FIXED_DETAIL)]\<rparr>"
      by (simp add: enforce_permissions_def permission_targets_def enforce_absent)
    then show "pr_files ?r ''master.key'' = Some \<lparr>fm_mode = 0x180, fm_symlink = False\<rparr>" "health_evaluate (is_healthy (pr_check ?r)) Loaded = HealthOk"
      by (simp_all add: is_healthy_def health_evaluate_def)
  qed
  have mem: "''master.key'' \<in> fst ` set permission_targets" by (simp add: permission_targets_def)
  have "\<forall>m. pr_files ?r ''master.key'' = Some m \<longrightarrow> \<not> shared m"
    by (rule usable_keys_private [OF refl, THEN conjunct2, THEN conjunct1, THEN mp, OF r(2), THEN bspec, OF mem])
  with r show ?thesis unfolding Let_def by (intro conjI)
qed

end
