(* ===== verification/Event_Publish.thy ===== *)
theory Event_Publish
  imports Event_Schema Identity_Manager
begin

text \<open>
  The publishing engine (\<open>src/event/publish.rs\<close>): signing of the listings of the local broadcasts with
  the persona of the channel, reassignment, the final event and the periodic republication. The sink is
  the list of the events handed to it, each with the key, the listing and the time from which it was
  made. Clock readings are arguments; the nostr crate is a parameter.

  The lemmas show that the channels on air are exactly those with a publication state, so that the
  broadcast lock is always released; that a channel without an assignment is signed by one persona from
  its first event to its last; and that every republication carries a later time than its predecessor.
\<close>

datatype publish_error = PubIdentity identity_error | PubBuild event_build_error

record channel_publish_state =
  cp_persona :: string
  cp_last_created_at :: nat

type_synonym sent_entry = "string \<times> channel_listing \<times> nat \<times> event"

record publish_engine =
  pg_identity :: identity_manager
  pg_republish_interval :: nat
  pg_pow_bits :: nat
  pg_states :: "string \<rightharpoonup> channel_publish_state"
  pg_sent :: "sent_entry list"

definition publish_engine_new :: "identity_manager \<Rightarrow> nat \<Rightarrow> publish_engine" where
  "publish_engine_new identity republish_interval_sec = \<lparr>pg_identity = identity,
     pg_republish_interval = max republish_interval_sec 1, pg_pow_bits = 0, pg_states = Map.empty, pg_sent = []\<rparr>"

definition sign_and_send ::
  "'k nostr \<Rightarrow> (bytes \<Rightarrow> 'k option) \<Rightarrow> nat \<Rightarrow> string \<Rightarrow> channel_listing \<Rightarrow> publish_engine \<Rightarrow>
     publish_engine \<times> (publish_error + unit)" where
  "sign_and_send ns from_slice now pubkey listing e =
     (case signing_keys from_slice pubkey (pg_identity e) of
        Inl err \<Rightarrow> (e, Inl (PubIdentity err))
      | Inr keys \<Rightarrow>
          let floor = (case pg_states e (cl_channel_id listing) of None \<Rightarrow> 0
                | Some s \<Rightarrow> wrapping_add_u64 (cp_last_created_at s) 1);
              created_at = max now floor
          in case sign_listing ns listing keys created_at (pg_pow_bits e) of
               Inl err \<Rightarrow> (e, Inl (PubBuild err))
             | Inr event \<Rightarrow> (e\<lparr>pg_sent := pg_sent e @ [(pubkey, listing, created_at, event)],
                 pg_states := (pg_states e)(cl_channel_id listing \<mapsto>
                   \<lparr>cp_persona = pubkey, cp_last_created_at = created_at\<rparr>)\<rparr>, Inr ()))"

definition release_channel :: "string \<Rightarrow> publish_engine \<Rightarrow> publish_engine" where
  "release_channel c e = e\<lparr>pg_identity := (pg_identity e)\<lparr>im_broadcast := release c (im_broadcast (pg_identity e))\<rparr>\<rparr>"

text \<open>\<open>nows\<close> are the clock readings for the final event of the former persona and for the event itself.\<close>

definition publish_listing ::
  "'k nostr \<Rightarrow> (bytes \<Rightarrow> 'k option) \<Rightarrow> nat \<times> nat \<Rightarrow> channel_listing \<Rightarrow> publish_engine \<Rightarrow>
     publish_engine \<times> (publish_error + bool)" where
  "publish_listing ns from_slice nows listing e =
     (let c = cl_channel_id listing; first_publish = (pg_states e c = None);
          (identity, resolved) = (if first_publish then reserve c (pg_identity e)
            else (pg_identity e, Inr (persona_for_channel c (pg_identity e))));
          e = e\<lparr>pg_identity := identity\<rparr>
      in case resolved of
           Inl err \<Rightarrow> (e, Inl (PubIdentity err))
         | Inr None \<Rightarrow> (e, Inr False)
         | Inr (Some pubkey) \<Rightarrow>
             let e = (case pg_states e c of
                   Some s \<Rightarrow> if cp_persona s \<noteq> pubkey
                     then fst (sign_and_send ns from_slice (fst nows) (cp_persona s) (listing\<lparr>cl_status := Ended\<rparr>) e) else e
                 | None \<Rightarrow> e)
             in case sign_and_send ns from_slice (snd nows) pubkey listing e of
                  (e', Inl err) \<Rightarrow> (if first_publish then release_channel c e' else e', Inl err)
                | (e', Inr _) \<Rightarrow> (e', Inr True))"

definition drop_state :: "string \<Rightarrow> publish_engine \<Rightarrow> publish_engine" where
  "drop_state c e = e\<lparr>pg_states := (pg_states e)(c := None)\<rparr>"

definition publish_ended ::
  "'k nostr \<Rightarrow> (bytes \<Rightarrow> 'k option) \<Rightarrow> nat \<Rightarrow> channel_listing \<Rightarrow> publish_engine \<Rightarrow> publish_engine \<times> (publish_error + bool)" where
  "publish_ended ns from_slice now listing e =
     (let c = cl_channel_id listing in
      case (case pg_states e c of Some s \<Rightarrow> Some (cp_persona s) | None \<Rightarrow> persona_for_channel c (pg_identity e)) of
        None \<Rightarrow> (release_channel c (drop_state c e), Inr False)
      | Some pubkey \<Rightarrow>
          (case sign_and_send ns from_slice now pubkey (listing\<lparr>cl_status := Ended\<rparr>) e of
             (e', result) \<Rightarrow> (release_channel c (drop_state c e'), map_sum id (\<lambda>_. True) result)))"

text \<open>One turn of the republication loop: the snapshot is published, each listing with its own clock
  readings; errors are only logged.\<close>

definition republish_turn ::
  "'k nostr \<Rightarrow> (bytes \<Rightarrow> 'k option) \<Rightarrow> ((nat \<times> nat) \<times> channel_listing) list \<Rightarrow> publish_engine \<Rightarrow> publish_engine" where
  "republish_turn ns from_slice snapshot e = fold (\<lambda>(nows, l) e. fst (publish_listing ns from_slice nows l e)) snapshot e"

subsection \<open>Effect of signing\<close>

lemma sign_and_send_identity [simp]: "pg_identity (fst (sign_and_send ns kd now pk l e)) = pg_identity e"
  by (simp add: sign_and_send_def Let_def split: sum.splits)

lemma sign_and_send_states:
  "pg_states (fst (sign_and_send ns kd now pk l e)) = (if isl (snd (sign_and_send ns kd now pk l e)) then pg_states e
     else (pg_states e)(cl_channel_id l \<mapsto> \<lparr>cp_persona = pk, cp_last_created_at =
       max now (case pg_states e (cl_channel_id l) of None \<Rightarrow> 0 | Some s \<Rightarrow> wrapping_add_u64 (cp_last_created_at s) 1)\<rparr>))"
  by (simp add: sign_and_send_def Let_def split: sum.splits)

lemma sign_and_send_sent:
  "\<exists>new. pg_sent (fst (sign_and_send ns kd now pk l e)) = pg_sent e @ new \<and> (\<forall>x \<in> set new. fst x = pk \<and> fst (snd x) = l \<and>
     fst (snd (snd x)) = max now (case pg_states e (cl_channel_id l) of None \<Rightarrow> 0 | Some s \<Rightarrow> wrapping_add_u64 (cp_last_created_at s) 1)) \<and>
     (isl (snd (sign_and_send ns kd now pk l e)) \<longleftrightarrow> new = [])"
  by (simp add: sign_and_send_def Let_def split: sum.splits)

subsection \<open>Runs of the engine\<close>

datatype engine_op =
  CreatePersona int int bytes "string \<times> bytes" string | LabelPersona string string | StatePersona string persona_state
| SelectPersona string | AssignChannel string string | DeletePersona string
| PublishListing "nat \<times> nat" channel_listing | PublishEnded nat channel_listing

definition on_identity :: "(identity_manager \<Rightarrow> identity_manager) \<Rightarrow> publish_engine \<Rightarrow> publish_engine" where
  "on_identity f e = e\<lparr>pg_identity := f (pg_identity e)\<rparr>"

fun engine_step :: "'k nostr \<Rightarrow> (bytes \<Rightarrow> 'k option) \<Rightarrow> engine_op \<Rightarrow> publish_engine \<Rightarrow> publish_engine" where
  "engine_step ns kd (CreatePersona now rowid nonce keys label) e = on_identity (fst \<circ> identity_create now rowid nonce keys label) e"
| "engine_step ns kd (LabelPersona pk label) e = on_identity (fst \<circ> set_label pk label) e"
| "engine_step ns kd (StatePersona pk st) e = on_identity (fst \<circ> set_state pk st) e"
| "engine_step ns kd (SelectPersona pk) e = on_identity (fst \<circ> select_persona pk) e"
| "engine_step ns kd (AssignChannel c pk) e = on_identity (fst \<circ> assign_channel c pk) e"
| "engine_step ns kd (DeletePersona pk) e = on_identity (fst \<circ> delete_persona pk) e"
| "engine_step ns kd (PublishListing nows l) e = fst (publish_listing ns kd nows l e)"
| "engine_step ns kd (PublishEnded now l) e = fst (publish_ended ns kd now l e)"

text \<open>Channel identifiers of announced channels are lower-case hexadecimal.\<close>

fun op_lower :: "engine_op \<Rightarrow> bool" where
  "op_lower (PublishListing nows l) \<longleftrightarrow> to_ascii_lowercase (cl_channel_id l) = cl_channel_id l"
| "op_lower (PublishEnded now l) \<longleftrightarrow> to_ascii_lowercase (cl_channel_id l) = cl_channel_id l"
| "op_lower _ \<longleftrightarrow> True"

lemma identity_methods_broadcast:
  "im_broadcast (fst (set_label pk label m)) = im_broadcast m" "im_broadcast (fst (set_state pk st m)) = im_broadcast m"
  "im_broadcast (fst (select_persona pk m)) = im_broadcast m" "im_broadcast (fst (assign_channel c pk m)) = im_broadcast m"
  "im_broadcast (fst (delete_persona pk m)) = im_broadcast m"
  by (auto simp: set_label_def set_state_def store_state_def guard_selected_mutation_def select_persona_def select_commit_def
      assign_channel_def delete_persona_def delete_guarded_def split: prod.splits sum.splits option.splits)

lemma create_broadcast: "im_broadcast (fst (identity_create now rowid nonce keys label m)) = im_broadcast m"
proof -
  have "im_broadcast (fst (select_persona pk (m\<lparr>im_db := d\<rparr>))) = im_broadcast m" for pk d
    by (simp add: identity_methods_broadcast)
  then show ?thesis by (auto simp: identity_create_def Let_def split: sum.splits prod.splits) (metis fst_conv)+
qed

definition on_air_exact :: "publish_engine \<Rightarrow> bool" where
  "on_air_exact e \<longleftrightarrow> im_broadcast (pg_identity e) = dom (pg_states e)"

lemma reserve_effect:
  "fst (reserve c m) = m\<lparr>im_broadcast := (if persona_for_channel c m = None then im_broadcast m
     else insert (to_ascii_lowercase c) (im_broadcast m))\<rparr>"
  "snd (reserve c m) = Inr (persona_for_channel c m)"
  by (simp_all add: reserve_def reserve_and_read_selected_def)

lemma reserve_eq:
  "reserve c m = (m\<lparr>im_broadcast := (if persona_for_channel c m = None then im_broadcast m
     else insert (to_ascii_lowercase c) (im_broadcast m))\<rparr>, Inr (persona_for_channel c m))"
  using reserve_effect [of c m] by (metis prod.collapse)

text \<open>\<open>publish_listing\<close> on a channel that has been published, and on a new one.\<close>

definition after_switch ::
  "'k nostr \<Rightarrow> (bytes \<Rightarrow> 'k option) \<Rightarrow> nat \<Rightarrow> channel_listing \<Rightarrow> string \<Rightarrow> channel_publish_state \<Rightarrow> publish_engine \<Rightarrow> publish_engine" where
  "after_switch ns kd now l pk st e = (if cp_persona st \<noteq> pk
     then fst (sign_and_send ns kd now (cp_persona st) (l\<lparr>cl_status := Ended\<rparr>) e) else e)"

lemma publish_again:
  assumes "pg_states e (cl_channel_id l) = Some st"
  shows "fst (publish_listing ns kd nows l e) = (case persona_for_channel (cl_channel_id l) (pg_identity e) of None \<Rightarrow> e
    | Some pk \<Rightarrow> fst (sign_and_send ns kd (snd nows) pk l (after_switch ns kd (fst nows) l pk st e)))"
  using assms by (auto simp: publish_listing_def after_switch_def Let_def split: option.splits prod.splits sum.splits)

lemma publish_first:
  fixes l e
  defines "e1 \<equiv> e\<lparr>pg_identity := fst (reserve (cl_channel_id l) (pg_identity e))\<rparr>"
  assumes "pg_states e (cl_channel_id l) = None"
  shows "fst (publish_listing ns kd nows l e) = (case persona_for_channel (cl_channel_id l) (pg_identity e) of None \<Rightarrow> e1
    | Some pk \<Rightarrow> if isl (snd (sign_and_send ns kd (snd nows) pk l e1)) then release_channel (cl_channel_id l) e1
        else fst (sign_and_send ns kd (snd nows) pk l e1))"
proof (cases "persona_for_channel (cl_channel_id l) (pg_identity e)")
  case None
  with assms show ?thesis by (simp add: publish_listing_def Let_def reserve_eq)
next
  case (Some pk)
  obtain e2 r where s: "sign_and_send ns kd (snd nows) pk l e1 = (e2, r)" by fastforce
  then have "isl r \<Longrightarrow> e2 = e1" by (auto simp: sign_and_send_def Let_def split: sum.splits)
  with Some s assms(2) show ?thesis
    by (cases r) (simp_all add: publish_listing_def Let_def e1_def reserve_eq)
qed

lemma after_switch_identity [simp]: "pg_identity (after_switch ns kd now l pk st e) = pg_identity e"
  by (simp add: after_switch_def)

lemma dom_sign: "cl_channel_id l \<in> dom (pg_states e) \<Longrightarrow> dom (pg_states (fst (sign_and_send ns kd now pk l e))) = dom (pg_states e)"
  by (auto simp: sign_and_send_states)

lemma publish_on_air:
  assumes "on_air_exact e" "to_ascii_lowercase (cl_channel_id l) = cl_channel_id l"
  shows "on_air_exact (fst (publish_listing ns kd nows l e))"
proof (cases "pg_states e (cl_channel_id l)")
  case None
  then show ?thesis using assms
    by (auto simp: publish_first on_air_exact_def reserve_effect sign_and_send_states release_channel_def release_def split: option.splits)
next
  case (Some st)
  have d: "dom (pg_states (after_switch ns kd now l pk st e)) = dom (pg_states e)" for now pk
  proof -
    have "cl_channel_id (l\<lparr>cl_status := Ended\<rparr>) \<in> dom (pg_states e)" using Some by auto
    from dom_sign [OF this, of ns kd now "cp_persona st"] show ?thesis by (simp add: after_switch_def)
  qed
  then have "cl_channel_id l \<in> dom (pg_states (after_switch ns kd now l pk st e))" for now pk using Some by auto
  from dom_sign [OF this, of ns kd "snd nows"] d assms(1) Some show ?thesis
    by (simp add: publish_again on_air_exact_def split: option.splits)
qed

lemma ended_result:
  "fst (publish_ended ns kd now l e) = release_channel (cl_channel_id l) (drop_state (cl_channel_id l)
     (case (case pg_states e (cl_channel_id l) of Some s \<Rightarrow> Some (cp_persona s)
         | None \<Rightarrow> persona_for_channel (cl_channel_id l) (pg_identity e)) of
        None \<Rightarrow> e | Some pk \<Rightarrow> fst (sign_and_send ns kd now pk (l\<lparr>cl_status := Ended\<rparr>) e)))"
  by (simp add: publish_ended_def Let_def split: option.splits prod.splits)

lemma ended_on_air:
  assumes "on_air_exact e" "to_ascii_lowercase (cl_channel_id l) = cl_channel_id l"
  shows "on_air_exact (fst (publish_ended ns kd now l e))"
proof -
  have r: "on_air_exact (release_channel (cl_channel_id l) (drop_state (cl_channel_id l) e'))"
    if "pg_identity e' = pg_identity e" "insert (cl_channel_id l) (dom (pg_states e')) = insert (cl_channel_id l) (dom (pg_states e))" for e'
  proof -
    have "dom (pg_states e') - {cl_channel_id l} = dom (pg_states e) - {cl_channel_id l}" using that(2) by blast
    then show ?thesis using assms that(1) by (simp add: on_air_exact_def release_channel_def drop_state_def release_def)
  qed
  have "insert (cl_channel_id l) (dom (pg_states (fst (sign_and_send ns kd now pk (l\<lparr>cl_status := Ended\<rparr>) e)))) =
      insert (cl_channel_id l) (dom (pg_states e))" for pk
    by (simp add: sign_and_send_states)
  then show ?thesis unfolding ended_result by (intro r) (simp_all split: option.splits)
qed

lemma on_air_step: "on_air_exact e \<Longrightarrow> op_lower op \<Longrightarrow> on_air_exact (engine_step ns kd op e)"
proof (induction ns kd op e rule: engine_step.induct)
  case (7 ns kd nows l e)
  then show ?case using publish_on_air by simp
next
  case (8 ns kd now l e)
  then show ?case using ended_on_air by simp
qed (simp_all add: on_air_exact_def on_identity_def identity_methods_broadcast create_broadcast)

interpretation lock_steps: guarded_steps "engine_step ns kd" op_lower on_air_exact for ns kd
  by unfold_locales (rule on_air_step)


subsection \<open>The last event of a channel\<close>

fun last_entry :: "string \<Rightarrow> sent_entry list \<Rightarrow> sent_entry option" where
  "last_entry c [] = None"
| "last_entry c (x # xs) = (case last_entry c xs of Some y \<Rightarrow> Some y
     | None \<Rightarrow> if cl_channel_id (fst (snd x)) = c then Some x else None)"

lemma last_entry_snoc: "last_entry c (xs @ [x]) = (if cl_channel_id (fst (snd x)) = c then Some x else last_entry c xs)"
  by (induction xs) (auto split: option.splits)

definition states_recorded :: "publish_engine \<Rightarrow> bool" where
  "states_recorded e \<longleftrightarrow> (\<forall>c st. pg_states e c = Some st \<longrightarrow>
     (\<exists>l ev. last_entry c (pg_sent e) = Some (cp_persona st, l, cp_last_created_at st, ev)))"

lemma sign_recorded: "states_recorded e \<Longrightarrow> states_recorded (fst (sign_and_send ns kd now pk l e))"
  by (auto simp: states_recorded_def sign_and_send_def Let_def last_entry_snoc split: sum.splits)

lemma recorded_cong: "states_recorded e \<Longrightarrow> pg_sent e' = pg_sent e \<Longrightarrow> pg_states e' \<subseteq>\<^sub>m pg_states e \<Longrightarrow> states_recorded e'"
  by (force simp: states_recorded_def map_le_def dom_def)

lemma recorded_step: "states_recorded e \<Longrightarrow> states_recorded (engine_step ns kd op e)"
proof (induction ns kd op e rule: engine_step.induct)
  case (7 ns kd nows l e)
  have r: "states_recorded (e\<lparr>pg_identity := m\<rparr>)" for m using 7 by (rule recorded_cong) auto
  then have "states_recorded (release_channel c (e\<lparr>pg_identity := m\<rparr>))" for c m by (simp add: release_channel_def)
  with r sign_recorded [OF 7] sign_recorded [OF r] show ?case
    by (cases "pg_states e (cl_channel_id l)")
      (auto simp: publish_first publish_again after_switch_def sign_recorded 7 split: option.splits)
next
  case (8 ns kd now l e)
  have "states_recorded e' \<Longrightarrow> states_recorded (release_channel c (drop_state c e'))" for c e'
    by (erule recorded_cong) (auto simp: release_channel_def drop_state_def map_le_def)
  then show ?case using 8 sign_recorded [OF 8, of ns kd] by (simp add: ended_result split: option.splits)
qed (auto simp: on_identity_def elim: recorded_cong)

subsection \<open>One persona per broadcast\<close>

lemma publish_identity:
  "\<exists>b. pg_identity (fst (publish_listing ns kd nows l e)) = (pg_identity e)\<lparr>im_broadcast := b\<rparr>"
  "\<exists>b. pg_identity (fst (publish_ended ns kd now l e)) = (pg_identity e)\<lparr>im_broadcast := b\<rparr>"
proof -
  have same: "\<exists>b. m = m\<lparr>im_broadcast := b\<rparr>" for m :: identity_manager by (rule exI [of _ "im_broadcast m"]) simp
  show "\<exists>b. pg_identity (fst (publish_listing ns kd nows l e)) = (pg_identity e)\<lparr>im_broadcast := b\<rparr>"
    using same by (cases "pg_states e (cl_channel_id l)")
      (auto simp: publish_first publish_again reserve_effect release_channel_def split: option.splits)
  show "\<exists>b. pg_identity (fst (publish_ended ns kd now l e)) = (pg_identity e)\<lparr>im_broadcast := b\<rparr>"
    by (auto simp: ended_result release_channel_def drop_state_def split: option.splits)
qed

lemma selected_broadcast [simp]: "selected (m\<lparr>im_broadcast := b\<rparr>) = selected m"
  by (rule selected_same_db) (simp_all add: same_keys_def)

lemma assignments_kept:
  assumes "im_assignments m c = None"
  shows "im_assignments (fst (set_label pk label m)) c = None" "im_assignments (fst (set_state pk st m)) c = None"
    "im_assignments (fst (select_persona pk m)) c = None" "im_assignments (fst (delete_persona pk m)) c = None"
    "to_ascii_lowercase c' \<noteq> c \<Longrightarrow> im_assignments (fst (assign_channel c' pk m)) c = None"
  using assms
  by (auto simp: set_label_def set_state_def store_state_def guard_selected_mutation_def select_persona_def select_commit_def
      assign_channel_def delete_persona_def delete_guarded_def split: prod.splits sum.splits option.splits)

lemma create_result:
  "fst (identity_create now rowid nonce keys label m) \<in> {m} \<union> (\<Union>d \<in> {fst (insert_persona now rowid (fst keys) enc label (im_db m)) | enc. True}.
     {m\<lparr>im_db := d\<rparr>, fst (select_persona (fst keys) (m\<lparr>im_db := d\<rparr>))})"
proof (cases "is_unavailable (im_health m) \<or> isl (protect (im_ciphers m) nonce (snd keys) (im_keystore m))")
  case True
  then show ?thesis by (auto simp: identity_create_def split: sum.splits)
next
  case False
  then obtain enc where e: "\<not> is_unavailable (im_health m)" "protect (im_ciphers m) nonce (snd keys) (im_keystore m) = Inr enc"
    by (cases "protect (im_ciphers m) nonce (snd keys) (im_keystore m)") auto
  obtain d r where d: "insert_persona now rowid (fst keys) enc label (im_db m) = (d, r)" by fastforce
  obtain m' r' where m': "select_persona (fst keys) (m\<lparr>im_db := d\<rparr>) = (m', r')" by fastforce
  have "fst (identity_create now rowid nonce keys label m) \<in> {m\<lparr>im_db := d\<rparr>, m'}"
    using e d m' by (auto simp: identity_create_def Let_def split: sum.splits)
  moreover have "d = fst (insert_persona now rowid (fst keys) enc label (im_db m))" "m' = fst (select_persona (fst keys) (m\<lparr>im_db := d\<rparr>))"
    using d m' by simp_all
  ultimately show ?thesis by auto
qed

lemma method_frozen:
  assumes "is_broadcasting (im_broadcast m)" "selected m = Some pk"
  shows "selected (fst (set_label pk' label m)) = Some pk" "selected (fst (set_state pk' st m)) = Some pk"
    "selected (fst (select_persona pk' m)) = Some pk" "selected (fst (delete_persona pk' m)) = Some pk"
    "selected (fst (assign_channel c pk' m)) = Some pk" "selected (m\<lparr>im_db := fst (insert_persona now rowid pk' enc label (im_db m))\<rparr>) = Some pk"
  using section_frozen [OF sec_label assms] section_frozen [OF sec_state assms] section_frozen [OF sec_select assms]
    section_frozen [OF sec_delete assms] section_frozen [OF sec_assign assms] section_frozen [OF sec_insert assms] assms(2)
  by (auto simp: select_persona_def delete_persona_def split: option.splits)

lemma create_frozen:
  assumes "is_broadcasting (im_broadcast m)" "selected m = Some pk"
  shows "selected (fst (identity_create now rowid nonce keys label m)) = Some pk"
  using create_result [of now rowid nonce keys label m] method_frozen(6) [OF assms] method_frozen(3) [OF _ method_frozen(6) [OF assms]] assms
  by auto

lemma create_assignments: "im_assignments m c = None \<Longrightarrow> im_assignments (fst (identity_create now rowid nonce keys label m)) c = None"
  using create_result [of now rowid nonce keys label m] assignments_kept(3) [of "m\<lparr>im_db := _\<rparr>"] by auto

definition one_persona :: "string \<Rightarrow> publish_engine \<Rightarrow> bool" where
  "one_persona c e \<longleftrightarrow> im_assignments (pg_identity e) c = None \<and>
     (\<forall>st. pg_states e c = Some st \<longrightarrow> selected (pg_identity e) = Some (cp_persona st))"

fun op_unassigned :: "string \<Rightarrow> engine_op \<Rightarrow> bool" where
  "op_unassigned c (AssignChannel c' pk) \<longleftrightarrow> to_ascii_lowercase c' \<noteq> c"
| "op_unassigned c _ \<longleftrightarrow> True"

lemma persona_unassigned: "im_assignments m (to_ascii_lowercase c) = None \<Longrightarrow> persona_for_channel c m = selected m"
  by (simp add: persona_for_channel_def)

lemma on_identity_persona:
  assumes "one_persona c e" "on_air_exact e" "im_assignments (f (pg_identity e)) c = None"
    and "\<And>pk. is_broadcasting (im_broadcast (pg_identity e)) \<Longrightarrow> selected (pg_identity e) = Some pk \<Longrightarrow> selected (f (pg_identity e)) = Some pk"
  shows "one_persona c (on_identity f e)"
proof -
  have "selected (f (pg_identity e)) = Some (cp_persona st)" if "pg_states e c = Some st" for st
  proof (rule assms(4))
    show "is_broadcasting (im_broadcast (pg_identity e))" using that assms(2) by (auto simp: on_air_exact_def is_broadcasting_def)
    show "selected (pg_identity e) = Some (cp_persona st)" using that assms(1) by (simp add: one_persona_def)
  qed
  with assms(3) show ?thesis by (simp add: one_persona_def on_identity_def)
qed

lemma one_persona_unassigned: "one_persona c e \<Longrightarrow> im_assignments (pg_identity e) c = None"
  by (simp add: one_persona_def)

lemma sign_other: "cl_channel_id l \<noteq> c \<Longrightarrow> pg_states (fst (sign_and_send ns kd now pk l e)) c = pg_states e c"
  by (simp add: sign_and_send_states)

lemma sign_persona:
  "pg_states (fst (sign_and_send ns kd now pk l e)) (cl_channel_id l) = Some st \<Longrightarrow>
     cp_persona st = pk \<or> pg_states e (cl_channel_id l) = Some st"
  by (auto simp: sign_and_send_states split: if_splits)

lemma publish_persona:
  assumes "one_persona c e" "to_ascii_lowercase (cl_channel_id l) = cl_channel_id l"
  shows "one_persona c (fst (publish_listing ns kd nows l e))"
proof -
  obtain b where b: "pg_identity (fst (publish_listing ns kd nows l e)) = (pg_identity e)\<lparr>im_broadcast := b\<rparr>"
    using publish_identity(1) by blast
  have "selected (pg_identity e) = Some (cp_persona st)" if st: "pg_states (fst (publish_listing ns kd nows l e)) c = Some st" for st
  proof (cases "cl_channel_id l = c")
    case True
    with assms have p: "persona_for_channel c (pg_identity e) = selected (pg_identity e)"
      by (simp add: one_persona_def persona_unassigned)
    show ?thesis
    proof (cases "pg_states e c")
      case None
      with True st p show ?thesis
        by (auto simp: publish_first reserve_effect sign_and_send_states release_channel_def split: option.splits if_splits)
    next
      case (Some st0)
      with assms(1) have "selected (pg_identity e) = Some (cp_persona st0)" by (simp add: one_persona_def)
      with True Some st p show ?thesis
        by (auto simp: publish_again after_switch_def sign_and_send_states split: option.splits if_splits)
    qed
  next
    case False
    then have "pg_states (fst (publish_listing ns kd nows l e)) c = pg_states e c"
      by (cases "pg_states e (cl_channel_id l)")
        (auto simp: publish_first publish_again after_switch_def release_channel_def sign_other split: option.splits)
    with assms(1) st show ?thesis by (simp add: one_persona_def)
  qed
  then show ?thesis using assms(1) b by (auto simp: one_persona_def)
qed

lemma ended_persona:
  assumes "one_persona c e"
  shows "one_persona c (fst (publish_ended ns kd now l e))"
proof -
  obtain b where b: "pg_identity (fst (publish_ended ns kd now l e)) = (pg_identity e)\<lparr>im_broadcast := b\<rparr>"
    using publish_identity(2) by blast
  have "pg_states (fst (publish_ended ns kd now l e)) c = (if cl_channel_id l = c then None else pg_states e c)"
    by (auto simp: ended_result release_channel_def drop_state_def sign_other split: option.splits)
  with assms b show ?thesis by (simp add: one_persona_def)
qed

lemma one_persona_step:
  "one_persona c e \<Longrightarrow> on_air_exact e \<Longrightarrow> op_lower op \<Longrightarrow> op_unassigned c op \<Longrightarrow> one_persona c (engine_step ns kd op e)"
proof (induction ns kd op e rule: engine_step.induct)
  case (7 ns kd nows l e)
  then show ?case using publish_persona by simp
next
  case (8 ns kd now l e)
  then show ?case using ended_persona by simp
qed (simp_all add: on_identity_persona one_persona_unassigned assignments_kept create_assignments method_frozen create_frozen)

interpretation persona_steps: guarded_steps "engine_step ns kd" "\<lambda>op. op_lower op \<and> op_unassigned c op"
    "\<lambda>e. one_persona c e \<and> on_air_exact e \<and> states_recorded e" for ns kd c
  by unfold_locales (auto simp: one_persona_step on_air_step recorded_step)

lemma engine_run_inv:
  assumes "\<forall>op \<in> set ops. op_lower op \<and> op_unassigned c op" "one_persona c e" "on_air_exact e" "states_recorded e"
  shows "one_persona c (fold (engine_step ns kd) ops e) \<and> on_air_exact (fold (engine_step ns kd) ops e) \<and>
    states_recorded (fold (engine_step ns kd) ops e)"
  using persona_steps.run_inv [of c e ops] assms by simp

lemma new_entry:
  assumes "pg_states e (cl_channel_id l) = Some st" "cp_last_created_at st < u64_max"
  shows "\<exists>new. pg_sent (fst (sign_and_send ns kd now pk l e)) = pg_sent e @ new \<and>
    (\<forall>x \<in> set new. fst x = pk \<and> cl_channel_id (fst (snd x)) = cl_channel_id l \<and> cp_last_created_at st < fst (snd (snd x)))"
proof -
  have "wrapping_add_u64 (cp_last_created_at st) 1 = cp_last_created_at st + 1"
    using assms(2) by (simp add: wrapping_add_u64_def u64_max_def)
  with sign_and_send_sent [of ns kd now pk l e] assms(1) show ?thesis by fastforce
qed


subsection \<open>A concrete broadcast\<close>

definition air_listing :: channel_listing where
  "air_listing = demo_listing\<lparr>cl_channel_id := ''c''\<rparr>"

definition air_nostr :: "bytes nostr" where
  "air_nostr = \<lparr>nostr_from_json = (\<lambda>s. None), nostr_as_json = (\<lambda>e. []), nostr_verify = (\<lambda>e. True),
     nostr_check_pow = (\<lambda>n e. True), nostr_tag_parse = Inr, nostr_sign_with_keys = (\<lambda>keys b. Inr \<lparr>ev_id = [], ev_pubkey = [],
       ev_created_at = eb_created_at b, ev_kind = eb_kind b, ev_tags = eb_tags b, ev_content = [], ev_sig = []\<rparr>)\<rparr>"

lemma parse_tags_id: "parse_tags Inr ts = Inr ts"
  by (induction ts) auto

definition air_event :: "channel_listing \<Rightarrow> nat \<Rightarrow> event" where
  "air_event l t = \<lparr>ev_id = [], ev_pubkey = [], ev_created_at = t, ev_kind = CHANNEL_KIND, ev_tags = raw_tags l t, ev_content = [], ev_sig = []\<rparr>"

lemma air_sign: "sign_listing air_nostr l keys t 0 = Inr (air_event l t)"
  by (simp add: sign_listing_def to_tags_def air_nostr_def air_event_def parse_tags_id)

definition air_ops :: "engine_op list" where
  "air_ops = [PublishListing (100, 100) air_listing, SelectPersona ''b'', DeletePersona ''a'']"

lemma air_run:
  "pg_states (fold (engine_step air_nostr Some) air_ops (publish_engine_new (demo_manager [''a'', ''b''] {}) 60)) ''c'' =
     Some \<lparr>cp_persona = ''a'', cp_last_created_at = 100\<rparr>"
proof -
  have "persona_for_channel ''c'' (demo_manager [''a'', ''b''] b) = Some ''a''" for b
    using demo_selected [of b] by (simp add: persona_for_channel_def demo_defs)
  moreover have "signing_keys Some ''a'' ((demo_manager [''a'', ''b''] b)\<lparr>im_broadcast := b'\<rparr>) = Inr [7]" for b b'
    by (simp add: signing_keys_def is_unavailable_def get_persona_by_pubkey_def unprotect_def demo_defs)
  moreover have "im_broadcast (demo_manager [''a'', ''b''] {}) = {}" by (simp add: demo_manager_def)
  ultimately show ?thesis
    by (simp add: air_ops_def publish_first on_identity_def sign_and_send_def reserve_effect air_sign publish_engine_new_def
        air_listing_def Let_def)
qed

lemma air_start: "im_broadcast (demo_manager [''a'', ''b''] {}) = {}" "im_assignments (demo_manager [''a'', ''b''] {}) = Map.empty"
  by (simp_all add: demo_defs)

lemma air_ops_ok: "\<forall>op \<in> set air_ops. op_lower op \<and> op_unassigned (cl_channel_id air_listing) op"
  by (simp add: air_ops_def air_listing_def to_ascii_lowercase_def less_eq_char_def)



end
