(* ===== verification/Config_Settings.thy ===== *)
theory Config_Settings
  imports Store_Db Std_Net
begin

unbundle bit_operations_syntax

text \<open>
  Settings (\<open>src/config.rs\<close>): the record of settings with its defaults, reading it from and writing it
  to the settings table, the command-line overrides and the validation, which is the only gate
  between a stored or entered value and a socket. \<open>u32\<close> and \<open>u64\<close> fields are natural numbers; what
  the table holds is text.

  The lemmas show that settings survive saving and loading and that saving touches no other key, that
  validated settings bind the local services to loopback addresses and the LAN listener to loopback or
  private addresses only, and how command lines are read.
\<close>

subsection \<open>Defaults and keys\<close>

definition DEFAULT_PCP_BIND :: string where
  "DEFAULT_PCP_BIND = ''127.0.0.1:7146''"

definition DEFAULT_HTTP_BIND :: string where
  "DEFAULT_HTTP_BIND = ''127.0.0.1:7180''"

definition DEFAULT_P2P_BIND :: string where
  "DEFAULT_P2P_BIND = ''0.0.0.0:7147,[::]:7147''"

definition DEFAULT_P2P_OUTBOUND_TARGET :: nat where
  "DEFAULT_P2P_OUTBOUND_TARGET = 8"

definition DEFAULT_P2P_INBOUND_MAX :: nat where
  "DEFAULT_P2P_INBOUND_MAX = 32"

definition DEFAULT_PEX_ENABLED :: bool where
  "DEFAULT_PEX_ENABLED = True"

definition DEFAULT_UPNP_ENABLED :: bool where
  "DEFAULT_UPNP_ENABLED = True"

definition DEFAULT_FRESHNESS_WINDOW_SEC :: nat where
  "DEFAULT_FRESHNESS_WINDOW_SEC = 600"

definition DEFAULT_REPUBLISH_INTERVAL_SEC :: nat where
  "DEFAULT_REPUBLISH_INTERVAL_SEC = 60"

definition DEFAULT_MAX_CLOCK_SKEW_SEC :: nat where
  "DEFAULT_MAX_CLOCK_SKEW_SEC = 300"

definition DEFAULT_MIN_POW_BITS :: nat where
  "DEFAULT_MIN_POW_BITS = 0"

definition DEFAULT_EVENT_STORE_MAX :: nat where
  "DEFAULT_EVENT_STORE_MAX = 4096"

definition DEFAULT_INDEX_TXT_ENCODING :: string where
  "DEFAULT_INDEX_TXT_ENCODING = ''utf-8''"

definition DEFAULT_INDEX_BIND :: string where
  "DEFAULT_INDEX_BIND = []"


definition KEY_PCP_BIND :: string where
  "KEY_PCP_BIND = ''pcp_bind''"

definition KEY_HTTP_BIND :: string where
  "KEY_HTTP_BIND = ''http_bind''"

definition KEY_P2P_BIND :: string where
  "KEY_P2P_BIND = ''p2p_bind''"

definition KEY_P2P_OUTBOUND_TARGET :: string where
  "KEY_P2P_OUTBOUND_TARGET = ''p2p_outbound_target''"

definition KEY_P2P_INBOUND_MAX :: string where
  "KEY_P2P_INBOUND_MAX = ''p2p_inbound_max''"

definition KEY_PEX_ENABLED :: string where
  "KEY_PEX_ENABLED = ''pex_enabled''"

definition KEY_UPNP_ENABLED :: string where
  "KEY_UPNP_ENABLED = ''upnp_enabled''"

definition KEY_FRESHNESS_WINDOW_SEC :: string where
  "KEY_FRESHNESS_WINDOW_SEC = ''freshness_window_sec''"

definition KEY_REPUBLISH_INTERVAL_SEC :: string where
  "KEY_REPUBLISH_INTERVAL_SEC = ''republish_interval_sec''"

definition KEY_MAX_CLOCK_SKEW_SEC :: string where
  "KEY_MAX_CLOCK_SKEW_SEC = ''max_clock_skew_sec''"

definition KEY_MIN_POW_BITS :: string where
  "KEY_MIN_POW_BITS = ''min_pow_bits''"

definition KEY_EVENT_STORE_MAX :: string where
  "KEY_EVENT_STORE_MAX = ''event_store_max''"

definition KEY_INDEX_TXT_ENCODING :: string where
  "KEY_INDEX_TXT_ENCODING = ''index_txt_encoding''"

definition KEY_INDEX_BIND :: string where
  "KEY_INDEX_BIND = ''index_bind''"


lemmas key_defs = KEY_PCP_BIND_def KEY_HTTP_BIND_def KEY_P2P_BIND_def KEY_P2P_OUTBOUND_TARGET_def KEY_P2P_INBOUND_MAX_def
  KEY_PEX_ENABLED_def KEY_UPNP_ENABLED_def KEY_FRESHNESS_WINDOW_SEC_def KEY_REPUBLISH_INTERVAL_SEC_def
  KEY_MAX_CLOCK_SKEW_SEC_def KEY_MIN_POW_BITS_def KEY_EVENT_STORE_MAX_def KEY_INDEX_TXT_ENCODING_def KEY_INDEX_BIND_def

datatype config_error =
  CfgStore store_error | NonLoopbackBind string | NonLanBind string | InvalidBind string | InvalidArgument | InvalidEncoding

datatype index_encoding = ShiftJis | Utf8

record settings =
  se_pcp_bind :: string
  se_http_bind :: string
  se_p2p_bind :: string
  se_p2p_outbound_target :: nat
  se_p2p_inbound_max :: nat
  se_pex_enabled :: bool
  se_upnp_enabled :: bool
  se_freshness_window_sec :: nat
  se_republish_interval_sec :: nat
  se_max_clock_skew_sec :: nat
  se_min_pow_bits :: nat
  se_event_store_max :: nat
  se_index_txt_encoding :: string
  se_index_bind :: string

definition settings_default :: settings where
  "settings_default = \<lparr>se_pcp_bind = DEFAULT_PCP_BIND, se_http_bind = DEFAULT_HTTP_BIND, se_p2p_bind = DEFAULT_P2P_BIND,
     se_p2p_outbound_target = DEFAULT_P2P_OUTBOUND_TARGET, se_p2p_inbound_max = DEFAULT_P2P_INBOUND_MAX,
     se_pex_enabled = DEFAULT_PEX_ENABLED, se_upnp_enabled = DEFAULT_UPNP_ENABLED,
     se_freshness_window_sec = DEFAULT_FRESHNESS_WINDOW_SEC, se_republish_interval_sec = DEFAULT_REPUBLISH_INTERVAL_SEC,
     se_max_clock_skew_sec = DEFAULT_MAX_CLOCK_SKEW_SEC, se_min_pow_bits = DEFAULT_MIN_POW_BITS,
     se_event_store_max = DEFAULT_EVENT_STORE_MAX, se_index_txt_encoding = DEFAULT_INDEX_TXT_ENCODING,
     se_index_bind = DEFAULT_INDEX_BIND\<rparr>"

subsection \<open>Loading and saving\<close>

definition u32_max :: nat where
  "u32_max = 2 ^ 32 - 1"

definition parse_or :: "nat \<Rightarrow> (string \<rightharpoonup> string) \<Rightarrow> string \<Rightarrow> nat \<Rightarrow> nat" where
  "parse_or hi stored key dflt = unwrap_or dflt (Option.bind (stored key) (parse_uint hi))"

definition parse_bool_or :: "(string \<rightharpoonup> string) \<Rightarrow> string \<Rightarrow> bool \<Rightarrow> bool" where
  "parse_bool_or stored key dflt = (case stored key of None \<Rightarrow> dflt
     | Some v \<Rightarrow> if v = ''1'' \<or> v = ''true'' then True else if v = ''0'' \<or> v = ''false'' then False else dflt)"

definition bool_to_str :: "bool \<Rightarrow> string" where
  "bool_to_str b = (if b then ''1'' else ''0'')"

definition settings_load :: "db \<Rightarrow> settings" where
  "settings_load store =
     (let stored = map_of (all_settings store); d = settings_default; s = (\<lambda>key dflt. unwrap_or dflt (stored key)) in
      \<lparr>se_pcp_bind = s KEY_PCP_BIND (se_pcp_bind d), se_http_bind = s KEY_HTTP_BIND (se_http_bind d),
       se_p2p_bind = s KEY_P2P_BIND (se_p2p_bind d),
       se_p2p_outbound_target = parse_or u32_max stored KEY_P2P_OUTBOUND_TARGET (se_p2p_outbound_target d),
       se_p2p_inbound_max = parse_or u32_max stored KEY_P2P_INBOUND_MAX (se_p2p_inbound_max d),
       se_pex_enabled = parse_bool_or stored KEY_PEX_ENABLED (se_pex_enabled d),
       se_upnp_enabled = parse_bool_or stored KEY_UPNP_ENABLED (se_upnp_enabled d),
       se_freshness_window_sec = parse_or u64_max stored KEY_FRESHNESS_WINDOW_SEC (se_freshness_window_sec d),
       se_republish_interval_sec = parse_or u64_max stored KEY_REPUBLISH_INTERVAL_SEC (se_republish_interval_sec d),
       se_max_clock_skew_sec = parse_or u64_max stored KEY_MAX_CLOCK_SKEW_SEC (se_max_clock_skew_sec d),
       se_min_pow_bits = parse_or u32_max stored KEY_MIN_POW_BITS (se_min_pow_bits d),
       se_event_store_max = parse_or u64_max stored KEY_EVENT_STORE_MAX (se_event_store_max d),
       se_index_txt_encoding = s KEY_INDEX_TXT_ENCODING (se_index_txt_encoding d),
       se_index_bind = s KEY_INDEX_BIND (se_index_bind d)\<rparr>)"

definition settings_rows :: "settings \<Rightarrow> (string \<times> string) list" where
  "settings_rows s = [(KEY_PCP_BIND, se_pcp_bind s), (KEY_HTTP_BIND, se_http_bind s), (KEY_P2P_BIND, se_p2p_bind s),
     (KEY_P2P_OUTBOUND_TARGET, show_nat (se_p2p_outbound_target s)), (KEY_P2P_INBOUND_MAX, show_nat (se_p2p_inbound_max s)),
     (KEY_PEX_ENABLED, bool_to_str (se_pex_enabled s)), (KEY_UPNP_ENABLED, bool_to_str (se_upnp_enabled s)),
     (KEY_FRESHNESS_WINDOW_SEC, show_nat (se_freshness_window_sec s)),
     (KEY_REPUBLISH_INTERVAL_SEC, show_nat (se_republish_interval_sec s)),
     (KEY_MAX_CLOCK_SKEW_SEC, show_nat (se_max_clock_skew_sec s)), (KEY_MIN_POW_BITS, show_nat (se_min_pow_bits s)),
     (KEY_EVENT_STORE_MAX, show_nat (se_event_store_max s)), (KEY_INDEX_TXT_ENCODING, se_index_txt_encoding s),
     (KEY_INDEX_BIND, se_index_bind s)]"

definition settings_save :: "settings \<Rightarrow> db \<Rightarrow> db" where
  "settings_save s store = fold (\<lambda>(key, value). set_setting key value) (settings_rows s) store"

subsection \<open>Command line\<close>

record cli_overrides =
  co_pcp_bind :: "string option"
  co_http_bind :: "string option"
  co_p2p_bind :: "string option"
  co_index_bind :: "string option"
  co_data_dir :: "string option"

definition cli_default :: cli_overrides where
  "cli_default = \<lparr>co_pcp_bind = None, co_http_bind = None, co_p2p_bind = None, co_index_bind = None, co_data_dir = None\<rparr>"

definition apply_overrides :: "cli_overrides \<Rightarrow> settings \<Rightarrow> settings" where
  "apply_overrides o1 s = s\<lparr>se_pcp_bind := unwrap_or (se_pcp_bind s) (co_pcp_bind o1),
     se_http_bind := unwrap_or (se_http_bind s) (co_http_bind o1), se_p2p_bind := unwrap_or (se_p2p_bind s) (co_p2p_bind o1),
     se_index_bind := unwrap_or (se_index_bind s) (co_index_bind o1)\<rparr>"

text \<open>\<open>str::split_once('=')\<close>.\<close>

definition split_once_eq :: "string \<Rightarrow> (string \<times> string) option" where
  "split_once_eq s = (if CHR ''='' \<in> set s then
     Some (takeWhile (\<lambda>c. c \<noteq> CHR ''='') s, tl (dropWhile (\<lambda>c. c \<noteq> CHR ''='') s)) else None)"

definition cli_set :: "string \<Rightarrow> string \<Rightarrow> cli_overrides \<Rightarrow> config_error + cli_overrides" where
  "cli_set key value out =
     (if key = ''--pcp-bind'' then Inr (out\<lparr>co_pcp_bind := Some value\<rparr>)
      else if key = ''--http-bind'' then Inr (out\<lparr>co_http_bind := Some value\<rparr>)
      else if key = ''--p2p-bind'' then Inr (out\<lparr>co_p2p_bind := Some value\<rparr>)
      else if key = ''--index-bind'' then Inr (out\<lparr>co_index_bind := Some value\<rparr>)
      else if key = ''--data-dir'' then Inr (out\<lparr>co_data_dir := Some value\<rparr>)
      else Inl InvalidArgument)"

fun cli_loop :: "string list \<Rightarrow> cli_overrides \<Rightarrow> config_error + cli_overrides" where
  "cli_loop [] out = Inr out"
| "cli_loop (arg # args) out = (case split_once_eq arg of
     Some (key, value) \<Rightarrow> and_then (cli_set key value out) (cli_loop args)
   | None \<Rightarrow> (case args of [] \<Rightarrow> Inl InvalidArgument
       | value # rest \<Rightarrow> and_then (cli_set arg value out) (cli_loop rest)))"

definition cli_parse :: "string list \<Rightarrow> config_error + cli_overrides" where
  "cli_parse args = cli_loop args cli_default"

subsection \<open>Validation\<close>

definition parse_bind :: "string \<Rightarrow> string \<Rightarrow> config_error + socket_addr" where
  "parse_bind key value = ok_or (parse_socket_addr value) (InvalidBind key)"

fun collect_results :: "('e + 'a) list \<Rightarrow> 'e + 'a list" where
  "collect_results [] = Inr []"
| "collect_results (r # rs) = and_then r (\<lambda>x. and_then (collect_results rs) (\<lambda>xs. Inr (x # xs)))"

definition parse_bind_list :: "string \<Rightarrow> string \<Rightarrow> config_error + socket_addr list" where
  "parse_bind_list key value =
     collect_results (map (parse_bind key) (filter (\<lambda>s. s \<noteq> []) (map trim (split_at CHR '','' value))))"

text \<open>The predicates of \<open>std::net\<close> that the code uses.\<close>

fun is_loopback :: "ip_addr \<Rightarrow> bool" where
  "is_loopback (V4 os) \<longleftrightarrow> os ! 0 = 127"
| "is_loopback (V6 gs) \<longleftrightarrow> gs = [0, 0, 0, 0, 0, 0, 0, 1]"

definition v4_is_private :: "nat list \<Rightarrow> bool" where
  "v4_is_private os \<longleftrightarrow> os ! 0 = 10 \<or> os ! 0 = 172 \<and> 16 \<le> os ! 1 \<and> os ! 1 \<le> 31 \<or> os ! 0 = 192 \<and> os ! 1 = 168"

definition v4_is_link_local :: "nat list \<Rightarrow> bool" where
  "v4_is_link_local os \<longleftrightarrow> os ! 0 = 169 \<and> os ! 1 = 254"

fun to_canonical :: "ip_addr \<Rightarrow> ip_addr" where
  "to_canonical (V4 os) = V4 os"
| "to_canonical (V6 gs) = (if take 6 gs = [0, 0, 0, 0, 0, 0xFFFF]
     then V4 [gs ! 6 div 256, gs ! 6 mod 256, gs ! 7 div 256, gs ! 7 mod 256] else V6 gs)"

definition require_loopback :: "string \<Rightarrow> string \<Rightarrow> config_error + unit" where
  "require_loopback key value = and_then (parse_bind key value) (\<lambda>addr.
     if is_loopback (socket_ip addr) then Inr () else Inl (NonLoopbackBind key))"

definition lan_allowed :: "ip_addr \<Rightarrow> bool" where
  "lan_allowed ip = (case to_canonical ip of
     V4 os \<Rightarrow> is_loopback (V4 os) \<or> v4_is_private os \<or> v4_is_link_local os
   | V6 gs \<Rightarrow> is_loopback (V6 gs) \<or> gs ! 0 AND 0xfe00 = 0xfc00 \<or> gs ! 0 AND 0xffc0 = 0xfe80)"

definition require_lan_or_loopback :: "string \<Rightarrow> string \<Rightarrow> config_error + unit" where
  "require_lan_or_loopback key value = and_then (parse_bind key value) (\<lambda>addr.
     if lan_allowed (socket_ip addr) then Inr () else Inl (NonLanBind key))"

definition index_encoding_of :: "settings \<Rightarrow> config_error + index_encoding" where
  "index_encoding_of s = (if se_index_txt_encoding s = ''shift_jis'' then Inr ShiftJis
     else if se_index_txt_encoding s = ''utf-8'' \<or> se_index_txt_encoding s = ''utf8'' then Inr Utf8 else Inl InvalidEncoding)"

definition settings_validate :: "settings \<Rightarrow> config_error + unit" where
  "settings_validate s =
     and_then (require_loopback KEY_PCP_BIND (se_pcp_bind s)) (\<lambda>_.
     and_then (require_loopback KEY_HTTP_BIND (se_http_bind s)) (\<lambda>_.
     and_then (parse_bind_list KEY_P2P_BIND (se_p2p_bind s)) (\<lambda>_.
     and_then (index_encoding_of s) (\<lambda>_.
     if se_index_bind s \<noteq> [] then require_lan_or_loopback KEY_INDEX_BIND (se_index_bind s) else Inr ()))))"

definition pcp_addr :: "settings \<Rightarrow> config_error + socket_addr" where
  "pcp_addr s = parse_bind KEY_PCP_BIND (se_pcp_bind s)"

definition http_addr :: "settings \<Rightarrow> config_error + socket_addr" where
  "http_addr s = parse_bind KEY_HTTP_BIND (se_http_bind s)"

definition p2p_addr :: "settings \<Rightarrow> config_error + socket_addr list" where
  "p2p_addr s = parse_bind_list KEY_P2P_BIND (se_p2p_bind s)"

subsection \<open>Saved settings are read back\<close>

lemma get_set_setting: "get_setting k (set_setting key value d) = (if k = key then Some value else get_setting k d)"
  by (simp add: get_setting_def set_setting_def update_conv')

lemma get_after_rows:
  "distinct (map fst rows) \<Longrightarrow> get_setting k (fold (\<lambda>(key, value). set_setting key value) rows d) =
     (case map_of rows k of Some v \<Rightarrow> Some v | None \<Rightarrow> get_setting k d)"
proof (induction rows arbitrary: d)
  case (Cons r rows)
  obtain key v where r: "r = (key, v)" by fastforce
  with Cons.prems have "map_of rows key = None" by (auto simp: map_of_eq_None_iff)
  with Cons r show ?case by (auto simp: get_set_setting split: option.splits)
qed simp

lemma settings_keys_distinct: "distinct (map fst (settings_rows s))"
  by (simp add: settings_rows_def key_defs)

lemma get_saved: "get_setting k (settings_save s d) = (case map_of (settings_rows s) k of Some v \<Rightarrow> Some v | None \<Rightarrow> get_setting k d)"
  unfolding settings_save_def by (rule get_after_rows [OF settings_keys_distinct])

definition settings_wf :: "settings \<Rightarrow> bool" where
  "settings_wf s \<longleftrightarrow> se_p2p_outbound_target s \<le> u32_max \<and> se_p2p_inbound_max s \<le> u32_max \<and> se_min_pow_bits s \<le> u32_max \<and>
     se_freshness_window_sec s \<le> u64_max \<and> se_republish_interval_sec s \<le> u64_max \<and> se_max_clock_skew_sec s \<le> u64_max \<and>
     se_event_store_max s \<le> u64_max"

lemma load_saved:
  assumes "settings_wf s"
  shows "settings_load (settings_save s d) = s"
proof -
  have get: "map_of (all_settings (settings_save s d)) k = (case map_of (settings_rows s) k of Some v \<Rightarrow> Some v | None \<Rightarrow> get_setting k d)" for k
    using get_saved [of k s d] by (simp add: get_setting_def all_settings_def)
  have n: "parse_or hi stored key n = v" if "stored key = Some (show_nat v)" "v \<le> hi" for hi stored key n v
    using that by (simp add: parse_or_def parse_uint_show)
  have b: "parse_bool_or stored key x = v" if "stored key = Some (bool_to_str v)" for stored key x v
    using that by (auto simp: parse_bool_or_def bool_to_str_def)
  have rows: "map_of (settings_rows s) KEY_PCP_BIND = Some (se_pcp_bind s)" "map_of (settings_rows s) KEY_HTTP_BIND = Some (se_http_bind s)"
    "map_of (settings_rows s) KEY_P2P_BIND = Some (se_p2p_bind s)"
    "map_of (settings_rows s) KEY_P2P_OUTBOUND_TARGET = Some (show_nat (se_p2p_outbound_target s))"
    "map_of (settings_rows s) KEY_P2P_INBOUND_MAX = Some (show_nat (se_p2p_inbound_max s))"
    "map_of (settings_rows s) KEY_PEX_ENABLED = Some (bool_to_str (se_pex_enabled s))"
    "map_of (settings_rows s) KEY_UPNP_ENABLED = Some (bool_to_str (se_upnp_enabled s))"
    "map_of (settings_rows s) KEY_FRESHNESS_WINDOW_SEC = Some (show_nat (se_freshness_window_sec s))"
    "map_of (settings_rows s) KEY_REPUBLISH_INTERVAL_SEC = Some (show_nat (se_republish_interval_sec s))"
    "map_of (settings_rows s) KEY_MAX_CLOCK_SKEW_SEC = Some (show_nat (se_max_clock_skew_sec s))"
    "map_of (settings_rows s) KEY_MIN_POW_BITS = Some (show_nat (se_min_pow_bits s))"
    "map_of (settings_rows s) KEY_EVENT_STORE_MAX = Some (show_nat (se_event_store_max s))"
    "map_of (settings_rows s) KEY_INDEX_TXT_ENCODING = Some (se_index_txt_encoding s)"
    "map_of (settings_rows s) KEY_INDEX_BIND = Some (se_index_bind s)"
    by (simp_all add: settings_rows_def key_defs)
  show ?thesis using assms by (simp add: settings_load_def Let_def get rows n b settings_wf_def)
qed

text \<open>Settings survive a restart. Loading after saving gives back exactly the saved settings (numbers within
  their machine range), whatever the table held before, and saving changes no other key of the table, so
  the selected persona is not affected.\<close>

theorem settings_roundtrip:
  assumes "settings_wf s"
  shows "settings_load (settings_save s d) = s \<and>
    (k \<notin> set (map fst (settings_rows s)) \<longrightarrow> get_setting k (settings_save s d) = get_setting k d)"
proof -
  have "k \<notin> set (map fst (settings_rows s)) \<Longrightarrow> map_of (settings_rows s) k = None" by (simp add: map_of_eq_None_iff)
  then show ?thesis using load_saved [OF assms] by (simp add: get_saved)
qed

theorem settings_roundtrip_witness:
  "settings_load (settings_save (settings_default\<lparr>se_p2p_bind := [], se_min_pow_bits := 4294967295, se_pex_enabled := False\<rparr>) store_open) =
     settings_default\<lparr>se_p2p_bind := [], se_min_pow_bits := 4294967295, se_pex_enabled := False\<rparr> \<and>
   get_setting ''selected_persona'' (settings_save settings_default (set_setting ''selected_persona'' ''a'' store_open)) = Some ''a''"
proof -
  let ?s = "settings_default\<lparr>se_p2p_bind := [], se_min_pow_bits := 4294967295, se_pex_enabled := False\<rparr>"
  have w: "settings_wf ?s" "settings_wf settings_default"
    by (simp_all add: settings_wf_def settings_default_def u32_max_def u64_max_def DEFAULT_P2P_OUTBOUND_TARGET_def
        DEFAULT_P2P_INBOUND_MAX_def DEFAULT_FRESHNESS_WINDOW_SEC_def DEFAULT_REPUBLISH_INTERVAL_SEC_def
        DEFAULT_MAX_CLOCK_SKEW_SEC_def DEFAULT_EVENT_STORE_MAX_def DEFAULT_MIN_POW_BITS_def)
  have "''selected_persona'' \<notin> set (map fst (settings_rows settings_default))" by (simp add: settings_rows_def key_defs)
  with settings_roundtrip [OF w(1), of store_open]
    settings_roundtrip [OF w(2), of "set_setting ''selected_persona'' ''a'' store_open" "''selected_persona''"]
  show ?thesis by (simp add: get_set_setting)
qed

subsection \<open>Where validated settings listen\<close>

text \<open>The two masks of the IPv6 ranges select intervals.\<close>

lemma and_high_bits: "g AND push_bit n (mask k) = push_bit n (take_bit k (drop_bit n g))" for g :: nat
  by (rule bit_eqI) (auto simp: bit_simps)

lemma ula_interval: "g \<le> 65535 \<Longrightarrow> g AND 0xfe00 = 0xfc00 \<longleftrightarrow> 0xfc00 \<le> g \<and> g \<le> 0xfdff" for g :: nat
proof -
  assume g: "g \<le> 65535"
  have m: "0xfe00 = push_bit 9 (mask 7 :: nat)" by (simp add: push_bit_eq_mult mask_eq_exp_minus_1)
  from g have "g div 512 < 128" by linarith
  then have "g AND 0xfe00 = g div 512 * 512"
    unfolding m and_high_bits by (simp add: push_bit_eq_mult drop_bit_eq_div take_bit_nat_eq_self)
  then show ?thesis by auto
qed

lemma link_local_interval: "g \<le> 65535 \<Longrightarrow> g AND 0xffc0 = 0xfe80 \<longleftrightarrow> 0xfe80 \<le> g \<and> g \<le> 0xfebf" for g :: nat
proof -
  assume g: "g \<le> 65535"
  have m: "0xffc0 = push_bit 6 (mask 10 :: nat)" by (simp add: push_bit_eq_mult mask_eq_exp_minus_1)
  from g have "g div 64 < 1024" by linarith
  then have "g AND 0xffc0 = g div 64 * 64"
    unfolding m and_high_bits by (simp add: push_bit_eq_mult drop_bit_eq_div take_bit_nat_eq_self)
  then show ?thesis by auto
qed

text \<open>Addresses that do not leave the machine or the local network: the ranges of RFC 1122, 1918, 3927,
  4193 and 4291, with IPv4-mapped addresses judged by the IPv4 address.\<close>

fun lan_v4 :: "nat list \<Rightarrow> bool" where
  "lan_v4 [a, b, c, d] \<longleftrightarrow> a = 127 \<or> a = 10 \<or> a = 172 \<and> b \<in> {16..31} \<or> a = 192 \<and> b = 168 \<or> a = 169 \<and> b = 254"
| "lan_v4 os \<longleftrightarrow> False"

fun lan_ip :: "ip_addr \<Rightarrow> bool" where
  "lan_ip (V4 os) \<longleftrightarrow> lan_v4 os"
| "lan_ip (V6 [a, b, c, d, e, f, g, h]) \<longleftrightarrow>
     (if [a, b, c, d, e, f] = [0, 0, 0, 0, 0, 0xFFFF] then lan_v4 [g div 256, g mod 256, h div 256, h mod 256]
      else [a, b, c, d, e, f, g, h] = [0, 0, 0, 0, 0, 0, 0, 1] \<or> a \<in> {0xfc00..0xfdff} \<or> a \<in> {0xfe80..0xfebf})"
| "lan_ip (V6 gs) \<longleftrightarrow> False"

fun loopback_ip :: "ip_addr \<Rightarrow> bool" where
  "loopback_ip (V4 [a, b, c, d]) \<longleftrightarrow> a = 127"
| "loopback_ip (V4 os) \<longleftrightarrow> False"
| "loopback_ip (V6 gs) \<longleftrightarrow> gs = [0, 0, 0, 0, 0, 0, 0, 1]"

lemma wf_segments_cases:
  assumes "wf_segments gs"
  obtains a b c d e f g h where "gs = [a, b, c, d, e, f, g, h]" "\<forall>x \<in> set gs. x \<le> 65535"
proof -
  from assms have "length gs = Suc (Suc (Suc (Suc (Suc (Suc (Suc (Suc 0)))))))" by (simp add: wf_segments_def)
  then obtain a b c d e f g h where "gs = [a, b, c, d, e, f, g, h]" by (auto simp: length_Suc_conv)
  with assms that show ?thesis by (simp add: wf_segments_def)
qed

lemma lan_allowed_iff:
  assumes "wf_socket sa"
  shows "lan_allowed (socket_ip sa) \<longleftrightarrow> lan_ip (socket_ip sa)"
proof (cases sa)
  case (SocketV4 os port)
  with assms have "wf_octets os" by simp
  then obtain a b c d where "os = [a, b, c, d]" by (rule wf_octets_cases)
  with SocketV4 show ?thesis by (auto simp: lan_allowed_def v4_is_private_def v4_is_link_local_def)
next
  case (SocketV6 gs scope port)
  with assms have "wf_segments gs" by simp
  then obtain a b c d e f g h where "gs = [a, b, c, d, e, f, g, h]" "\<forall>x \<in> set gs. x \<le> 65535" by (rule wf_segments_cases)
  with SocketV6 show ?thesis
    by (auto simp: lan_allowed_def v4_is_private_def v4_is_link_local_def ula_interval link_local_interval)
qed

lemma is_loopback_iff:
  assumes "wf_socket sa"
  shows "is_loopback (socket_ip sa) \<longleftrightarrow> loopback_ip (socket_ip sa)"
proof (cases sa)
  case (SocketV4 os port)
  with assms have "wf_octets os" by simp
  then obtain a b c d where "os = [a, b, c, d]" by (rule wf_octets_cases)
  with SocketV4 show ?thesis by simp
qed simp

lemma parse_bind_wf: "parse_bind key v = Inr sa \<Longrightarrow> wf_socket sa"
  by (auto simp: parse_bind_def ok_or_Inr_iff dest: parse_socket_wf)

text \<open>C6: Validated settings do not expose the local services. Settings pass the validation exactly when the PCP
  and the HTTP address are socket addresses in 127.0.0.0/8 or \<open>::1\<close>, every non-empty element of the gossip
  address list is a socket address, the encoding is a supported one, and the address for index.txt is
  empty or a socket address in the loopback, private or link-local ranges. In particular the
  unspecified address, global addresses and the shared range 100.64.0.0/10 are never accepted.\<close>

theorem validate_exact:
  "settings_validate s = Inr () \<longleftrightarrow>
     (\<exists>sa. pcp_addr s = Inr sa \<and> loopback_ip (socket_ip sa)) \<and>
     (\<exists>sa. http_addr s = Inr sa \<and> loopback_ip (socket_ip sa)) \<and>
     (\<exists>sas. p2p_addr s = Inr sas) \<and> se_index_txt_encoding s \<in> {''shift_jis'', ''utf-8'', ''utf8''} \<and>
     (se_index_bind s = [] \<or> (\<exists>sa. parse_socket_addr (se_index_bind s) = Some sa \<and> lan_ip (socket_ip sa)))"
proof -
  have lo: "require_loopback key v = Inr () \<longleftrightarrow> (\<exists>sa. parse_bind key v = Inr sa \<and> loopback_ip (socket_ip sa))" for key v
    using parse_bind_wf [of key v] is_loopback_iff by (auto simp: require_loopback_def and_then_Inr_iff split: if_splits)
  have lan: "require_lan_or_loopback key v = Inr () \<longleftrightarrow> (\<exists>sa. parse_socket_addr v = Some sa \<and> lan_ip (socket_ip sa))" for key v
    using parse_socket_wf [of v] lan_allowed_iff
    by (auto simp: require_lan_or_loopback_def and_then_Inr_iff parse_bind_def ok_or_Inr_iff split: if_splits)
  have enc: "(\<exists>x. index_encoding_of s = Inr x) \<longleftrightarrow> se_index_txt_encoding s \<in> {''shift_jis'', ''utf-8'', ''utf8''}"
    by (auto simp: index_encoding_of_def)
  show ?thesis unfolding settings_validate_def pcp_addr_def http_addr_def p2p_addr_def enc [symmetric]
    by (auto simp: and_then_Inr_iff lo lan)
qed

end
