(* ===== verification/Yp_Index_Txt.thy ===== *)
theory Yp_Index_Txt
  imports Event_View Config_Settings
begin

text \<open>
  The channel list in the format of traditional directories (\<open>src/yp/index_txt.rs\<close>): one line of
  nineteen fields per channel, separated by \<open><>\<close>, in UTF-8 or Shift_JIS. The conversion of one character
  to Shift_JIS (crate \<open>encoding_rs\<close>) is a parameter.

  The lemmas show that no text of a received listing can break the format: a reader that splits the
  output at line ends and each line at \<open><>\<close> gets exactly the channels and, for each, exactly the
  nineteen fields that were written.
\<close>

subsection \<open>Generation\<close>

definition replace_char :: "char \<Rightarrow> string \<Rightarrow> string \<Rightarrow> string" where
  "replace_char a t s = concat (map (\<lambda>c. if c = a then t else [c]) s)"

definition sanitize :: "string \<Rightarrow> string" where
  "sanitize s = replace_char CHR ''>'' ''&gt;'' (replace_char CHR ''<'' ''&lt;'' s)"

type_synonym sjis = "string \<Rightarrow> string option"

definition encode_shift_jis :: "sjis \<Rightarrow> string \<Rightarrow> string" where
  "encode_shift_jis sj text = concat (map (\<lambda>ch. case sj ch of None \<Rightarrow> ''?'' | Some encoded \<Rightarrow> encoded) (utf8_chars text))"

definition encode_text :: "sjis \<Rightarrow> index_encoding \<Rightarrow> string \<Rightarrow> string" where
  "encode_text sj encoding text = (case encoding of Utf8 \<Rightarrow> text | ShiftJis \<Rightarrow> encode_shift_jis sj text)"

definition unreserved :: "char \<Rightarrow> bool" where
  "unreserved c \<longleftrightarrow> (let b = byte_of c in 65 \<le> b \<and> b \<le> 90 \<or> 97 \<le> b \<and> b \<le> 122 \<or> 48 \<le> b \<and> b \<le> 57) \<or>
     c = CHR ''-'' \<or> c = CHR ''_'' \<or> c = CHR ''.'' \<or> c = CHR 0x7E"

definition upper_hex_digit :: "nat \<Rightarrow> char" where
  "upper_hex_digit d = char_of (if d < 10 then 48 + d else 55 + d)"

definition percent_encode_name :: "sjis \<Rightarrow> string \<Rightarrow> index_encoding \<Rightarrow> string" where
  "percent_encode_name sj name encoding = concat (map (\<lambda>b. if unreserved b then [b]
     else ''%'' @ [upper_hex_digit (byte_of b div 16), upper_hex_digit (byte_of b mod 16)]) (encode_text sj encoding name))"

definition pad2 :: "nat \<Rightarrow> string" where
  "pad2 n = (if n < 10 then ''0'' else []) @ show_nat n"

definition format_broadcast_time :: "nat \<Rightarrow> nat \<Rightarrow> string" where
  "format_broadcast_time now starts = (let duration_secs = now - starts in
     show_nat (duration_secs div 3600) @ '':'' @ pad2 (duration_secs mod 3600 div 60))"

definition show_int :: "int \<Rightarrow> string" where
  "show_int n = (if n < 0 then ''-'' else []) @ show_nat (nat \<bar>n\<bar>)"

text \<open>\<open>str::to_uppercase\<close> on the hexadecimal channel identifiers, which are ASCII.\<close>

definition ascii_upper :: "char \<Rightarrow> char" where
  "ascii_upper c = (if CHR ''a'' \<le> c \<and> c \<le> CHR ''z'' then char_of (byte_of c - 32 :: nat) else c)"

definition text_or_empty :: "string option \<Rightarrow> string" where
  "text_or_empty v = sanitize (unwrap_or [] v)"

definition channel_fields :: "sjis \<Rightarrow> discovered_channel \<Rightarrow> nat \<Rightarrow> index_encoding \<Rightarrow> string list" where
  "channel_fields sj ch now encoding = (let l = dc_listing ch in
     [sanitize (cl_title l), map ascii_upper (dc_channel_id ch), text_or_empty (cl_tip l), text_or_empty (cl_contact l),
      text_or_empty (cl_genre l), text_or_empty (cl_summary l), show_int (cl_current_participants l), show_int (cl_relays l),
      show_nat (unwrap_or 0 (cl_bitrate_kbps l)), text_or_empty (cl_content_type l)] @
     (case cl_track_info l of
        Some t \<Rightarrow> [sanitize (tr_artist t), sanitize (tr_album t), sanitize (tr_title t), sanitize (tr_url t)]
      | None \<Rightarrow> [[], [], [], []]) @
     [percent_encode_name sj (cl_title l) encoding, format_broadcast_time now (cl_starts l), ''click'',
      text_or_empty (cl_comment l), ''0''])"

fun join_fields :: "string list \<Rightarrow> string" where
  "join_fields [] = []"
| "join_fields [f] = f"
| "join_fields (f # fl) = f @ ''<>'' @ join_fields fl"

definition channel_line :: "sjis \<Rightarrow> discovered_channel \<Rightarrow> nat \<Rightarrow> index_encoding \<Rightarrow> string" where
  "channel_line sj ch now encoding = join_fields (channel_fields sj ch now encoding)"

definition newline :: char where
  "newline = CHR 0x0A"

definition generate :: "sjis \<Rightarrow> discovered_channel list \<Rightarrow> index_encoding \<Rightarrow> nat \<Rightarrow> string" where
  "generate sj channels encoding now = (if channels = [] then []
     else encode_text sj encoding (concat (map (\<lambda>ch. channel_line sj ch now encoding @ [newline]) channels)))"

subsection \<open>Reading\<close>

text \<open>A reader of the format: fields are what stands between the separators.\<close>

fun split_fields :: "string \<Rightarrow> string list" where
  "split_fields [] = [[]]"
| "split_fields [c] = [[c]]"
| "split_fields (a # b # s) = (if a = CHR ''<'' \<and> b = CHR ''>'' then [] # split_fields s
     else case split_fields (b # s) of [] \<Rightarrow> [[a]] | f # fl \<Rightarrow> (a # f) # fl)"

lemma split_fields_plain: "CHR ''<'' \<notin> set f \<Longrightarrow> split_fields f = [f]"
  by (induction f rule: split_fields.induct) auto

lemma split_fields_sep: "CHR ''<'' \<notin> set f \<Longrightarrow> split_fields (f @ ''<>'' @ rest) = f # split_fields rest"
proof (induction f)
  case (Cons a f)
  then show ?case by (cases f) auto
qed simp

lemma split_join: "\<forall>f \<in> set fl. CHR ''<'' \<notin> set f \<Longrightarrow> fl \<noteq> [] \<Longrightarrow> split_fields (join_fields fl) = fl"
proof (induction fl rule: join_fields.induct)
  case (3 f g fl)
  then show ?case using split_fields_sep [of f "join_fields (g # fl)"] by simp
qed (auto simp: split_fields_plain)

lemma split_at_sep: "c \<notin> set l \<Longrightarrow> split_at c (l @ c # rest) = l # split_at c rest"
  by (induction l) auto

lemma split_lines: "\<forall>l \<in> set ls. c \<notin> set l \<Longrightarrow> split_at c (concat (map (\<lambda>l. l @ [c]) ls)) = ls @ [[]]"
  by (induction ls) (auto simp: split_at_sep)

subsection \<open>Texts\<close>

text \<open>In UTF-8 a continuation byte never follows an ASCII byte and never begins a text.\<close>

fun utf8_from :: "bool \<Rightarrow> string \<Rightarrow> bool" where
  "utf8_from ascii [] = True"
| "utf8_from ascii (c # s) = ((is_cont c \<longrightarrow> \<not> ascii) \<and> utf8_from (byte_of c < 128) s)"

definition utf8_ok :: "string \<Rightarrow> bool" where
  "utf8_ok s = utf8_from True s"

lemma utf8_ok_wf: "utf8_ok s \<Longrightarrow> str_wf s"
  by (cases s) (auto simp: utf8_ok_def str_wf_def)

lemma utf8_from_weaken: "utf8_from True s \<Longrightarrow> utf8_from p s"
  by (cases s) auto

lemma utf8_ascii: "\<forall>c \<in> set s. byte_of c < (128 :: nat) \<Longrightarrow> utf8_ok s"
proof -
  have "\<forall>c \<in> set s. byte_of c < (128 :: nat) \<Longrightarrow> utf8_from p s" for p
    by (induction s arbitrary: p) (auto simp: is_cont_def)
  then show "\<forall>c \<in> set s. byte_of c < (128 :: nat) \<Longrightarrow> utf8_ok s" by (simp add: utf8_ok_def)
qed

lemma replace_char_simps [simp]:
  "replace_char a t [] = []"
  "replace_char a t (c # s) = (if c = a then t else [c]) @ replace_char a t s"
  by (simp_all add: replace_char_def)

lemma utf8_replace:
  assumes "byte_of a < (128 :: nat)" "\<And>s p. utf8_from True s \<Longrightarrow> utf8_from p (t @ s)"
  shows "utf8_from p s \<Longrightarrow> utf8_from p (replace_char a t s)"
  using assms by (induction s arbitrary: p) (auto split: if_splits)

lemma utf8_sanitize: "utf8_ok s \<Longrightarrow> utf8_ok (sanitize s)"
  unfolding utf8_ok_def sanitize_def by (intro utf8_replace) (auto simp: is_cont_def)

lemma set_replace_char: "set (replace_char a t s) \<subseteq> (set s - {a}) \<union> set t"
  by (induction s) auto

lemma sanitize_safe: "CHR ''<'' \<notin> set (sanitize s)" "set (sanitize s) \<subseteq> set s \<union> set ''&lgt;''"
proof -
  note a = set_replace_char [of "CHR ''<''" "''&lt;''" s]
  note b = set_replace_char [of "CHR ''>''" "''&gt;''" "replace_char CHR ''<'' ''&lt;'' s"]
  show "CHR ''<'' \<notin> set (sanitize s)" using a b by (auto simp: sanitize_def)
  show "set (sanitize s) \<subseteq> set s \<union> set ''&lgt;''" using a b by (auto simp: sanitize_def)
qed

lemma utf8_chars_append: "str_wf b \<Longrightarrow> utf8_chars (a @ b) = utf8_chars a @ utf8_chars b"
proof (induction a rule: utf8_chars.induct)
  case (2 x a)
  have t: "takeWhile is_cont (a @ b) = takeWhile is_cont a \<and> dropWhile is_cont (a @ b) = dropWhile is_cont a @ b"
    using 2(2) by (induction a) (auto simp: str_wf_def split: list.splits)
  then show ?case using 2 by simp
qed simp

lemma ascii_single_byte: "utf8_from p s \<Longrightarrow> g \<in> set (utf8_chars s) \<Longrightarrow> byte_of (hd g) < (128 :: nat) \<Longrightarrow> length g = 1"
proof (induction s arbitrary: p rule: utf8_chars.induct)
  case (2 b bs)
  have drop: "utf8_from q bs \<Longrightarrow> \<exists>r. utf8_from r (dropWhile is_cont bs)" for q
    by (induction bs arbitrary: q) auto
  show ?case
  proof (cases "g = b # takeWhile is_cont bs")
    case True
    with 2 have "utf8_from True bs" by simp
    then have "takeWhile is_cont bs = []" by (cases bs) auto
    with True show ?thesis by simp
  next
    case False
    with 2 drop show ?thesis by fastforce
  qed
qed simp

text \<open>Documented behaviour of the conversion: ASCII characters stay, and the bytes of other characters are
  never below 0x40, so none of them is a separator or a line end.\<close>

definition sjis_contract :: "sjis \<Rightarrow> bool" where
  "sjis_contract sj \<longleftrightarrow> (\<forall>b. byte_of b < (128 :: nat) \<longrightarrow> sj [b] = Some [b]) \<and>
     (\<forall>g bs. g \<noteq> [] \<and> 128 \<le> (byte_of (hd g) :: nat) \<and> sj g = Some bs \<longrightarrow> (\<forall>c \<in> set bs. 64 \<le> (byte_of c :: nat)))"

lemma encode_append: "str_wf b \<Longrightarrow> encode_text sj enc (a @ b) = encode_text sj enc a @ encode_text sj enc b"
  by (simp add: encode_text_def encode_shift_jis_def utf8_chars_append split: index_encoding.splits)

lemma encode_ascii:
  assumes "sjis_contract sj" "\<forall>c \<in> set s. byte_of c < (128 :: nat)"
  shows "encode_text sj enc s = s"
proof -
  have "utf8_chars s = map (\<lambda>c. [c]) s"
    using assms(2)
  proof (induction s rule: utf8_chars.induct)
    case (2 b bs)
    then have "takeWhile is_cont bs = [] \<and> dropWhile is_cont bs = bs" by (cases bs) (auto simp: is_cont_def)
    with 2 show ?case by simp
  qed simp
  moreover have "concat (map (\<lambda>c. case sj [c] of None \<Rightarrow> ''?'' | Some e \<Rightarrow> e) s) = s"
    using assms by (induction s) (auto simp: sjis_contract_def)
  ultimately show ?thesis by (simp add: encode_text_def encode_shift_jis_def comp_def split: index_encoding.splits)
qed

lemma encode_low_bytes:
  assumes "sjis_contract sj" "utf8_ok s" "byte_of c < (64 :: nat)" "c \<noteq> CHR ''?''" "c \<in> set (encode_text sj enc s)"
  shows "c \<in> set s"
proof (cases enc)
  case ShiftJis
  with assms(5) obtain g where g: "g \<in> set (utf8_chars s)" "c \<in> set (case sj g of None \<Rightarrow> ''?'' | Some e \<Rightarrow> e)"
    by (auto simp: encode_text_def encode_shift_jis_def)
  then obtain e where e: "sj g = Some e" "c \<in> set e" using assms(4) by (auto split: option.splits)
  obtain b bs where gb: "g = b # bs" using utf8_chars_shape [OF utf8_ok_wf [OF assms(2)] g(1)] by blast
  have "byte_of b < (128 :: nat)"
  proof (rule ccontr)
    assume "\<not> byte_of b < (128 :: nat)"
    then have "g \<noteq> [] \<and> 128 \<le> (byte_of (hd g) :: nat) \<and> sj g = Some e" using e gb by simp
    with assms(1) have "\<forall>c \<in> set e. 64 \<le> (byte_of c :: nat)" unfolding sjis_contract_def by blast
    with e(2) assms(3) show False by force
  qed
  moreover from this have "bs = []" using ascii_single_byte [OF assms(2) [unfolded utf8_ok_def] g(1)] gb by simp
  ultimately have "c = b" using assms(1) e gb by (auto simp: sjis_contract_def)
  moreover have "set g \<subseteq> set s" using g(1) concat_utf8_chars [of s] by (metis UN_upper set_concat)
  ultimately show ?thesis using gb by auto
qed (use assms(5) in \<open>simp add: encode_text_def\<close>)

lemma encode_join:
  assumes "sjis_contract sj" "\<forall>f \<in> set fl. str_wf f"
  shows "encode_text sj enc (join_fields fl) = join_fields (map (encode_text sj enc) fl)"
  using assms(2)
proof (induction fl rule: join_fields.induct)
  case 1
  then show ?case using encode_ascii [OF assms(1), of "[]"] by simp
next
  case (3 f g fl)
  have w: "str_wf (join_fields (g # fl))" using 3 by (cases fl) (auto simp: str_wf_def is_cont_def split: list.splits)
  have "str_wf (''<>'' @ join_fields (g # fl))" by (simp add: str_wf_def is_cont_def)
  from encode_append [OF this, of sj enc f] encode_append [OF w, of sj enc "''<>''"] encode_ascii [OF assms(1), of "''<>''" enc] 3
  show ?case by simp
qed simp

lemma encode_lines:
  assumes "sjis_contract sj" "\<forall>l \<in> set ls. str_wf l"
  shows "encode_text sj enc (concat (map (\<lambda>l. l @ [newline]) ls)) = concat (map (\<lambda>l. encode_text sj enc l @ [newline]) ls)"
  using assms(2)
proof (induction ls)
  case Nil
  then show ?case using encode_ascii [OF assms(1), of "[]"] by simp
next
  case (Cons l ls)
  have w: "str_wf (concat (map (\<lambda>l. l @ [newline]) ls))"
    using Cons.prems by (cases ls) (auto simp: str_wf_def is_cont_def newline_def split: list.splits)
  have n: "str_wf (newline # concat (map (\<lambda>l. l @ [newline]) ls))" by (simp add: str_wf_def is_cont_def newline_def)
  from encode_append [OF n, of sj enc l] encode_append [OF w, of sj enc "[newline]"] encode_ascii [OF assms(1), of "[newline]" enc]
    Cons show ?case by (simp add: newline_def)
qed

subsection \<open>Every channel is one line of nineteen fields\<close>

definition field_ok :: "string \<Rightarrow> bool" where
  "field_ok f \<longleftrightarrow> utf8_ok f \<and> CHR ''<'' \<notin> set f \<and> newline \<notin> set f"

lemma field_ok_encode:
  assumes "sjis_contract sj" "field_ok f"
  shows "CHR ''<'' \<notin> set (encode_text sj enc f)" "newline \<notin> set (encode_text sj enc f)"
  using encode_low_bytes [OF assms(1), of f "CHR ''<''" enc] encode_low_bytes [OF assms(1), of f newline enc] assms(2)
  by (auto simp: field_ok_def newline_def)

lemma field_ok_ascii: "\<forall>c \<in> set f. byte_of c < (128 :: nat) \<and> c \<noteq> CHR ''<'' \<and> c \<noteq> newline \<Longrightarrow> field_ok f"
  by (auto simp: field_ok_def intro: utf8_ascii)

lemma field_ok_sanitize: "utf8_ok s \<Longrightarrow> newline \<notin> set s \<Longrightarrow> field_ok (sanitize s)"
  using sanitize_safe [of s] by (auto simp: field_ok_def utf8_sanitize newline_def)

definition plain_char :: "char \<Rightarrow> bool" where
  "plain_char c \<longleftrightarrow> byte_of c < (128 :: nat) \<and> c \<noteq> CHR ''<'' \<and> c \<noteq> newline"

lemma field_ok_plain: "list_all plain_char f \<Longrightarrow> field_ok f"
  by (rule field_ok_ascii) (simp add: list_all_iff plain_char_def)

lemma digits_plain: "list_all plain_char (show_nat n)"
proof -
  have "is_ascii_digit c \<Longrightarrow> plain_char c" for c by (auto simp: plain_char_def is_ascii_digit_iff newline_def)
  with show_nat_digits [of n] show ?thesis by (simp add: list_all_iff)
qed

lemma plain_char_bytes: "plain_char c \<longleftrightarrow> byte_of c < (128 :: nat) \<and> byte_of c \<noteq> (60 :: nat) \<and> byte_of c \<noteq> (10 :: nat)"
proof -
  have "byte_of (CHR ''<'') = (60 :: nat)" "byte_of newline = (10 :: nat)" by (simp_all add: newline_def)
  then show ?thesis unfolding plain_char_def by (metis of_char_eq_iff)
qed

lemma upper_hex_plain: "d < 16 \<Longrightarrow> plain_char (upper_hex_digit d)"
  by (auto simp: plain_char_bytes upper_hex_digit_def)

lemma percent_plain: "list_all plain_char (percent_encode_name sj name enc)"
proof -
  have "byte_of b < (256 :: nat)" for b :: char by (metis of_char_mod_256 mod_less_divisor zero_less_numeral)
  then have h: "byte_of b div 16 < (16 :: nat)" "byte_of b mod 16 < (16 :: nat)" for b :: char
    by (simp_all add: less_mult_imp_div_less)
  have u: "unreserved c \<Longrightarrow> plain_char c" for c by (auto simp: unreserved_def plain_char_def newline_def Let_def)
  have p: "plain_char CHR ''%''" by (simp add: plain_char_def newline_def)
  show ?thesis using h u p upper_hex_plain by (auto simp: percent_encode_name_def list_all_iff split: if_splits)
qed

lemma clean_no_newline: "utf8_ok s \<Longrightarrow> \<not> contains_control_chars s \<Longrightarrow> newline \<notin> set s"
proof
  assume u: "utf8_ok s" and c: "\<not> contains_control_chars s" and n: "newline \<in> set s"
  from n have "newline \<in> set (concat (utf8_chars s))" by simp
  then obtain g where g: "g \<in> set (utf8_chars s)" "newline \<in> set g" unfolding set_concat by blast
  obtain b bs where gb: "g = b # bs" "\<forall>c \<in> set bs. is_cont c" using utf8_chars_shape [OF utf8_ok_wf [OF u] g(1)] by blast
  have nc: "\<not> is_cont newline" by (simp add: is_cont_def newline_def)
  with g(2) gb have b: "b = newline" by auto
  then have "length g = 1" using ascii_single_byte [OF u [unfolded utf8_ok_def] g(1)] gb by (simp add: newline_def)
  then have "is_control g" using gb b by (simp add: is_control_def code_point_def lead_bits_def newline_def Let_def)
  with c g(1) show False by (auto simp: contains_control_chars_def list_ex_iff)
qed

text \<open>The texts of a listing, and the channels that the reception checks let through: clean content, a
  hexadecimal identifier and texts in UTF-8.\<close>

definition listing_texts :: "channel_listing \<Rightarrow> string list" where
  "listing_texts l = cl_title l # List.map_filter id [cl_tip l, cl_contact l, cl_genre l, cl_summary l, cl_content_type l, cl_comment l] @
     (case cl_track_info l of None \<Rightarrow> [] | Some t \<Rightarrow> [tr_artist t, tr_album t, tr_title t, tr_url t])"

definition channel_clean :: "discovered_channel \<Rightarrow> bool" where
  "channel_clean ch \<longleftrightarrow> is_lower_hex (dc_channel_id ch) 32 \<and> listing_content_ok (dc_listing ch) \<and> list_all utf8_ok (listing_texts (dc_listing ch))"

lemma listing_texts_clean: "listing_content_ok l \<Longrightarrow> t \<in> set (listing_texts l) \<Longrightarrow> \<not> contains_control_chars t"
  by (auto simp: listing_content_ok_def listing_ok_def listing_texts_def List.map_filter_def clean_opt_def tip_ok_def track_ok_def
      split: option.splits if_splits)

lemma text_field_ok:
  assumes "channel_clean ch" "t \<in> set (listing_texts (dc_listing ch))"
  shows "field_ok (sanitize t)"
proof -
  have "utf8_ok t" "\<not> contains_control_chars t" using assms listing_texts_clean by (auto simp: channel_clean_def list_all_iff)
  then show ?thesis using clean_no_newline field_ok_sanitize by blast
qed

lemma id_plain: "is_lower_hex i n \<Longrightarrow> list_all plain_char (map ascii_upper i)"
proof -
  assume h: "is_lower_hex i n"
  have "plain_char (ascii_upper c)" if "is_lower_hex_char c" for c
  proof -
    have "byte_of (ascii_upper c) = (if 97 \<le> byte_of c \<and> byte_of c \<le> (122 :: nat) then byte_of c - 32 else (byte_of c :: nat))"
      by (auto simp: ascii_upper_def less_eq_char_def)
    then show ?thesis using that by (auto simp: plain_char_bytes is_lower_hex_char_def is_ascii_digit_iff less_eq_char_def)
  qed
  with h show ?thesis by (auto simp: is_lower_hex_def list_all_iff)
qed

lemma fields_ok:
  assumes "channel_clean ch" "f \<in> set (channel_fields sj ch now enc)"
  shows "field_ok f"
proof -
  have e: "field_ok []" by (rule field_ok_plain) simp
  have t: "t \<in> set (listing_texts (dc_listing ch)) \<Longrightarrow> field_ok (sanitize t)" for t using text_field_ok assms(1) by blast
  have o: "v \<in> {cl_tip (dc_listing ch), cl_contact (dc_listing ch), cl_genre (dc_listing ch), cl_summary (dc_listing ch),
      cl_content_type (dc_listing ch), cl_comment (dc_listing ch)} \<Longrightarrow> field_ok (text_or_empty v)" for v
  proof (cases v)
    case None
    then show ?thesis using e by (simp add: text_or_empty_def sanitize_def)
  next
    case (Some x)
    moreover assume "v \<in> {cl_tip (dc_listing ch), cl_contact (dc_listing ch), cl_genre (dc_listing ch), cl_summary (dc_listing ch),
      cl_content_type (dc_listing ch), cl_comment (dc_listing ch)}"
    ultimately have "x \<in> set (listing_texts (dc_listing ch))" by (auto simp: listing_texts_def List.map_filter_def)
    with Some t show ?thesis by (simp add: text_or_empty_def)
  qed
  have plain: "list_all plain_char (map ascii_upper (dc_channel_id ch))" "list_all plain_char (show_int n)" "list_all plain_char (show_nat k)"
    "list_all plain_char (percent_encode_name sj (cl_title (dc_listing ch)) enc)"
    "list_all plain_char (format_broadcast_time now (cl_starts (dc_listing ch)))" "list_all plain_char ''click''" "list_all plain_char ''0''" for n k
    using assms(1) id_plain percent_plain digits_plain
    by (auto simp: channel_clean_def show_int_def format_broadcast_time_def pad2_def Let_def plain_char_def newline_def)
  have tracks: "field_ok (sanitize (tr_artist tr)) \<and> field_ok (sanitize (tr_album tr)) \<and> field_ok (sanitize (tr_title tr)) \<and>
      field_ok (sanitize (tr_url tr))" if "cl_track_info (dc_listing ch) = Some tr" for tr
    using that by (auto intro!: t simp: listing_texts_def)
  have "field_ok (sanitize (cl_title (dc_listing ch)))" by (rule t) (simp add: listing_texts_def)
  then show ?thesis using assms(2) o e tracks plain [THEN field_ok_plain]
    by (auto simp: channel_fields_def Let_def split: option.splits)
qed

lemma length_fields: "length (channel_fields sj ch now enc) = 19"
  by (simp add: channel_fields_def Let_def split: option.split)

lemma join_newline: "\<forall>f \<in> set fl. newline \<notin> set f \<Longrightarrow> newline \<notin> set (join_fields fl)"
  by (induction fl rule: join_fields.induct) (auto simp: newline_def)

lemma join_wf: "\<forall>f \<in> set fl. str_wf f \<Longrightarrow> str_wf (join_fields fl)"
  by (induction fl rule: join_fields.induct) (auto simp: str_wf_def is_cont_def split: list.splits)

text \<open>C21: the channel list cannot be broken by what others publish. For channels that passed the reception
  checks, in both encodings, a reader that splits the output at line ends and the lines at the
  separator gets one line per channel, in order, and for each exactly the nineteen fields of that
  channel; no title, comment, address or other text of a listing can add a line or a field.\<close>

theorem index_txt_fields:
  assumes "sjis_contract sj" and "\<forall>ch \<in> set channels. channel_clean ch"
  shows "map split_fields (butlast (split_at newline (generate sj channels enc now))) =
      map (\<lambda>ch. map (encode_text sj enc) (channel_fields sj ch now enc)) channels \<and>
    (\<forall>ch \<in> set channels. length (channel_fields sj ch now enc) = 19)"
proof -
  let ?line = "\<lambda>ch. channel_line sj ch now enc"
  have wf: "str_wf f" and enc: "CHR ''<'' \<notin> set (encode_text sj enc f)" "newline \<notin> set (encode_text sj enc f)"
    if "ch \<in> set channels" "f \<in> set (channel_fields sj ch now enc)" for ch f
    using field_ok_encode [OF assms(1) fields_ok] fields_ok assms(2) that utf8_ok_wf by (auto simp: field_ok_def)
  have join: "encode_text sj enc (?line ch) = join_fields (map (encode_text sj enc) (channel_fields sj ch now enc))"
    if "ch \<in> set channels" for ch
    unfolding channel_line_def using wf that by (intro encode_join [OF assms(1)]) blast
  have "encode_text sj enc (concat (map (\<lambda>l. l @ [newline]) (map ?line channels))) =
      concat (map (\<lambda>l. encode_text sj enc l @ [newline]) (map ?line channels))"
    using wf by (intro encode_lines [OF assms(1)]) (auto simp: channel_line_def intro: join_wf)
  then have g: "generate sj channels enc now = concat (map (\<lambda>l. l @ [newline]) (map (encode_text sj enc \<circ> ?line) channels))"
    by (simp add: generate_def comp_def)
  have "\<forall>l \<in> set (map (encode_text sj enc \<circ> ?line) channels). newline \<notin> set l"
    using join enc(2) by (auto intro!: join_newline)
  from split_lines [OF this] have "butlast (split_at newline (generate sj channels enc now)) = map (encode_text sj enc \<circ> ?line) channels"
    unfolding g by simp
  moreover have "split_fields (encode_text sj enc (?line ch)) = map (encode_text sj enc) (channel_fields sj ch now enc)"
    if "ch \<in> set channels" for ch
    unfolding join [OF that] using enc(1) that length_fields [of sj ch now enc] by (intro split_join) auto
  ultimately show ?thesis using length_fields by simp
qed

text \<open>A channel whose title tries to add a field, and a converter for ASCII.\<close>

definition demo_sjis :: sjis where
  "demo_sjis g = (if length g = 1 \<and> byte_of (hd g) < (128 :: nat) then Some g else None)"

definition hostile_channel :: discovered_channel where
  "hostile_channel = \<lparr>dc_author_pubkey = ''p'', dc_channel_id = ''00112233445566778899aabbccddeeff'',
     dc_listing = demo_listing\<lparr>cl_title := ''a<>b''\<rparr>, dc_created_at = 1700000100, dc_source_peers = []\<rparr>"

lemma hostile_clean: "channel_clean hostile_channel"
proof -
  have "is_lower_hex (dc_channel_id hostile_channel) 32" by (simp add: hostile_channel_def is_lower_hex_def is_lower_hex_char_def is_ascii_digit_iff less_eq_char_def)
  moreover have "listing_content_ok (dc_listing hostile_channel)"
    by (simp add: hostile_channel_def listing_content_ok_def listing_ok_def demo_listing_def clean_opt_def count_ok_def UNKNOWN_COUNT_def
      u64_max_def MAX_BITRATE_KBPS_def tip_ok_def track_ok_def demo_tip_ok printable_no_control i64_range_def)
  moreover have "list_all utf8_ok (listing_texts (dc_listing hostile_channel))"
    by (simp add: hostile_channel_def demo_listing_def listing_texts_def List.map_filter_def utf8_ascii)
  ultimately show ?thesis by (simp add: channel_clean_def)
qed

theorem index_txt_fields_witness:
  "sjis_contract demo_sjis \<and> channel_clean hostile_channel \<and>
    map split_fields (butlast (split_at newline (generate demo_sjis [hostile_channel, hostile_channel] ShiftJis 1700003700))) =
      map (\<lambda>ch. map (encode_text demo_sjis ShiftJis) (channel_fields demo_sjis ch 1700003700 ShiftJis)) [hostile_channel, hostile_channel]"
proof -
  have c: "sjis_contract demo_sjis" by (auto simp: sjis_contract_def demo_sjis_def split: if_splits)
  show ?thesis using index_txt_fields [of demo_sjis "[hostile_channel, hostile_channel]" ShiftJis 1700003700] c hostile_clean by simp
qed

end
