(* ===== verification/Web_Guard.thy ===== *)
theory Web_Guard
  imports P2p_Hub Identity_Manager Yp_Index_Txt
begin

text \<open>
  The protection layers of the local HTTP service (\<open>src/web/mod.rs\<close>) and the handler of the channel
  list (\<open>src/yp/index_txt.rs\<close>): requests and responses, the rate limiter per address, the four layers
  around every path below \<open>/api/v1\<close>, and the separate listener that offers only the channel list to
  the local network.

  Matching a path to a route is the work of the framework (\<open>axum\<close>): a request carries the route it was
  matched to. The body is the bytes that can be read from the connection, or nothing when reading
  fails. Clock readings and what the suppliers of the channel list and of the node status answer are
  arguments. The identity manager works on the same database as the rest of the service: it is
  stored without a database of its own and given the current one for each call.
\<close>

subsection \<open>Requests and responses\<close>

datatype http_method = HttpGet | HttpHead | HttpPost | HttpPut | HttpDelete | HttpPatch | HttpOther string

datatype api_route =
  RouteToken | RouteSettings | RouteChannels | RouteMutes | RouteMute "int option" | RoutePeers | RoutePeersExport
| RoutePeer "int option" | RoutePersonas | RoutePersona string | RoutePersonaExport string | RouteAnnounced
| RouteStatus | RouteApiUnknown

datatype http_route = RouteApi api_route | RouteIndexTxt | RouteOther

record http_request =
  rq_method :: http_method
  rq_route :: http_route
  rq_path :: string
  rq_query_text :: "string option"
  rq_query :: "(string \<times> string) list option"
  rq_headers :: "(string \<times> string) list"
  rq_peer_ip :: "ip_addr option"
  rq_body :: "string option"

datatype json = JNull | JBool bool | JNum int | JStr string | JArr "json list" | JObj "(string \<times> json) list"

datatype http_body = EmptyBody | JsonBody json | TextBody string string

record http_response =
  rs_status :: nat
  rs_body :: http_body

definition error_response :: "nat \<Rightarrow> string \<Rightarrow> http_response" where
  "error_response status code = \<lparr>rs_status = status, rs_body = JsonBody (JObj [(''error'', JStr code)])\<rparr>"

text \<open>\<open>HeaderMap::get\<close> and \<open>HeaderValue::to_str\<close>: the first value of the name, if it is visible ASCII.\<close>

definition header_str :: "string \<Rightarrow> http_request \<Rightarrow> string option" where
  "header_str name req = (case map_of (rq_headers req) name of None \<Rightarrow> None
     | Some v \<Rightarrow> if list_all (\<lambda>c. let b = (byte_of c :: nat) in 32 \<le> b \<and> b < 127 \<or> b = 9) v then Some v else None)"

subsection \<open>Rate limiter\<close>

definition MAX_BODY_BYTES :: nat where
  "MAX_BODY_BYTES = 64 * 1024"

definition RATE_LIMIT_PER_SEC :: nat where
  "RATE_LIMIT_PER_SEC = 20"

definition INDEX_TXT_RATE_LIMIT_PER_SEC :: nat where
  "INDEX_TXT_RATE_LIMIT_PER_SEC = 10"

definition RATE_LIMITER_SWEEP_THRESHOLD :: nat where
  "RATE_LIMITER_SWEEP_THRESHOLD = 1024"

record rate_window =
  rw_window :: nat
  rw_count :: nat

record http_limiter =
  hl_max_per_sec :: nat
  hl_state :: "(ip_addr \<times> rate_window) list"

definition per_second :: "nat \<Rightarrow> http_limiter" where
  "per_second m = \<lparr>hl_max_per_sec = m, hl_state = []\<rparr>"

definition swept :: "nat \<Rightarrow> (ip_addr \<times> rate_window) list \<Rightarrow> (ip_addr \<times> rate_window) list" where
  "swept now st = (if length st \<ge> RATE_LIMITER_SWEEP_THRESHOLD then filter (\<lambda>e. rw_window (snd e) = now) st else st)"

definition limiter_check :: "nat \<Rightarrow> ip_addr \<Rightarrow> http_limiter \<Rightarrow> http_limiter \<times> bool" where
  "limiter_check now ip l =
     (let st = swept now (hl_state l);
          entry = (case map_of st ip of Some w \<Rightarrow> w | None \<Rightarrow> \<lparr>rw_window = now, rw_count = 0\<rparr>);
          entry = (if rw_window entry \<noteq> now then \<lparr>rw_window = now, rw_count = 0\<rparr> else entry)
      in if rw_count entry < hl_max_per_sec l
         then (l\<lparr>hl_state := AList.update ip (entry\<lparr>rw_count := rw_count entry + 1\<rparr>) st\<rparr>, True)
         else (l\<lparr>hl_state := AList.update ip entry st\<rparr>, False))"

subsection \<open>Application state\<close>

record index_lan_status =
  il_bind :: string
  il_listening :: bool
  il_error :: "string option"

record app_state =
  as_db :: db
  as_logged :: "log_call_args list"
  as_token :: string
  as_allowed_hosts :: "string set"
  as_rate_limiter :: http_limiter
  as_index_txt_rate_limiter :: http_limiter
  as_identity :: "identity_manager option"
  as_broadcast :: "broadcast_state option"
  as_index_lan :: "index_lan_status option"

definition loopback_hosts :: "nat \<Rightarrow> string set" where
  "loopback_hosts port = {''127.0.0.1:'' @ show_nat port, ''localhost:'' @ show_nat port, ''[::1]:'' @ show_nat port}"

definition to_hex :: "bytes \<Rightarrow> string" where
  "to_hex bs = concat (map (\<lambda>b. [''0123456789abcdef'' ! unat (drop_bit 4 b), ''0123456789abcdef'' ! unat (b AND 0x0F)]) bs)"

text \<open>\<open>random\<close> are the 32 bytes drawn for the token.\<close>

definition app_state_new :: "db \<Rightarrow> bytes \<Rightarrow> nat \<Rightarrow> app_state" where
  "app_state_new d random http_port = \<lparr>as_db = d, as_logged = [], as_token = to_hex random,
     as_allowed_hosts = loopback_hosts http_port, as_rate_limiter = per_second RATE_LIMIT_PER_SEC,
     as_index_txt_rate_limiter = per_second 10, as_identity = None, as_broadcast = None, as_index_lan = None\<rparr>"

definition log_call :: "security_category \<Rightarrow> string \<Rightarrow> string \<Rightarrow> app_state \<Rightarrow> app_state" where
  "log_call category source detail st = st\<lparr>as_logged := as_logged st @ [(category, source, detail)]\<rparr>"

subsection \<open>Protection layers\<close>

type_synonym handler = "app_state \<Rightarrow> app_state \<times> http_response"

definition host_guard :: "http_request \<Rightarrow> handler \<Rightarrow> handler" where
  "host_guard req next_layer st =
     (if (case header_str ''host'' req of None \<Rightarrow> False | Some h \<Rightarrow> h \<in> as_allowed_hosts st) then next_layer st
      else (st, error_response 403 ''forbidden_host''))"

definition LOCALHOST :: ip_addr where
  "LOCALHOST = V4 [127, 0, 0, 1]"

definition rate_limit :: "nat \<Rightarrow> http_request \<Rightarrow> handler \<Rightarrow> handler" where
  "rate_limit now req next_layer st =
     (let ip = unwrap_or LOCALHOST (rq_peer_ip req); (limiter, admitted) = limiter_check now ip (as_rate_limiter st);
          st = st\<lparr>as_rate_limiter := limiter\<rparr>
      in if admitted then next_layer st
         else (log_call HttpRateLimited (show_ip ip) ''rate limit exceeded'' st, error_response 429 ''rate_limited''))"

definition needs_token :: "http_method \<Rightarrow> bool" where
  "needs_token m \<longleftrightarrow> m \<in> {HttpPost, HttpPut, HttpDelete, HttpPatch}"

definition require_token :: "http_request \<Rightarrow> handler \<Rightarrow> handler" where
  "require_token req next_layer st =
     (if \<not> needs_token (rq_method req) then next_layer st
      else if header_str ''x-api-token'' req = Some (as_token st) then next_layer st
      else (st, error_response 401 ''unauthorized''))"

definition body_limit :: "http_request \<Rightarrow> (string \<Rightarrow> handler) \<Rightarrow> handler" where
  "body_limit req next_layer st = (case rq_body req of
     Some bytes \<Rightarrow> if length bytes \<le> MAX_BODY_BYTES then next_layer bytes st else (st, error_response 413 ''payload_too_large'')
   | None \<Rightarrow> (st, error_response 413 ''payload_too_large''))"

text \<open>The layers in the order in which they are evaluated.\<close>

definition api_layers :: "nat \<Rightarrow> http_request \<Rightarrow> (string \<Rightarrow> handler) \<Rightarrow> handler" where
  "api_layers now req inner = host_guard req (rate_limit now req (require_token req (body_limit req inner)))"

subsection \<open>The channel list\<close>

definition header_bytes :: "http_request \<Rightarrow> nat" where
  "header_bytes req = sum_list (map (\<lambda>(k, v). length k + length v + 4) (rq_headers req))"

definition index_handler :: "sjis \<Rightarrow> nat \<Rightarrow> discovered_channel list option \<Rightarrow> http_request \<Rightarrow> handler" where
  "index_handler sj now directory req st =
     (let uri_len = length (rq_path req) + (case rq_query_text req of None \<Rightarrow> 0 | Some q \<Rightarrow> length q + 1) in
      if uri_len > 1024 then (st, error_response 400 ''request_too_large'')
      else if header_bytes req > 8192 then (st, error_response 400 ''request_too_large'')
      else
        let ip = unwrap_or LOCALHOST (rq_peer_ip req); (limiter, admitted) = limiter_check now ip (as_index_txt_rate_limiter st);
            st = st\<lparr>as_index_txt_rate_limiter := limiter\<rparr>
        in if \<not> admitted
           then (log_call HttpRateLimited (show_ip ip) ''index.txt rate limit exceeded'' st, error_response 429 ''rate_limited'')
           else
             let encoding = (case index_encoding_of (settings_load (as_db st)) of Inl e \<Rightarrow> Utf8 | Inr e \<Rightarrow> e);
                 body_bytes = generate sj (unwrap_or [] directory) encoding now;
                 content_type = (case encoding of ShiftJis \<Rightarrow> ''text/plain; charset=Shift_JIS'' | Utf8 \<Rightarrow> ''text/plain; charset=UTF-8'')
             in (st, \<lparr>rs_status = 200, rs_body = TextBody content_type (if rq_method req = HttpHead then [] else body_bytes)\<rparr>))"

text \<open>\<open>method_not_allowed\<close> is the framework's answer to a method that a matched path does not have.\<close>

definition method_not_allowed :: http_response where
  "method_not_allowed = \<lparr>rs_status = 405, rs_body = EmptyBody\<rparr>"

definition index_routes :: "sjis \<Rightarrow> nat \<Rightarrow> discovered_channel list option \<Rightarrow> http_request \<Rightarrow> handler" where
  "index_routes sj now directory req st =
     (if rq_method req = HttpGet \<or> rq_method req = HttpHead then index_handler sj now directory req st else (st, method_not_allowed))"

text \<open>The second listener: the channel list and nothing else.\<close>

definition index_router :: "sjis \<Rightarrow> nat \<Rightarrow> discovered_channel list option \<Rightarrow> http_request \<Rightarrow> handler" where
  "index_router sj now directory req st = (case rq_route req of
     RouteIndexTxt \<Rightarrow> index_routes sj now directory req st
   | RouteApi r \<Rightarrow> (st, error_response 404 ''not_found'')
   | RouteOther \<Rightarrow> (st, error_response 404 ''not_found''))"

subsection \<open>What the rate limiter admits\<close>

fun limiter_run :: "(nat \<times> ip_addr) list \<Rightarrow> http_limiter \<Rightarrow> bool list" where
  "limiter_run [] l = []"
| "limiter_run (c # calls) l = (case limiter_check (fst c) (snd c) l of (l', admitted) \<Rightarrow> admitted # limiter_run calls l')"

definition entry_ok :: "nat \<Rightarrow> nat \<Rightarrow> (nat \<times> ip_addr) list \<Rightarrow> ip_addr \<Rightarrow> rate_window option \<Rightarrow> bool" where
  "entry_ok m T past ip v \<longleftrightarrow> (case v of None \<Rightarrow> \<forall>t \<ge> T. count_list past (t, ip) = 0
     | Some w \<Rightarrow> rw_window w \<le> T \<and> rw_count w = min m (count_list past (rw_window w, ip)) \<and>
         (\<forall>t > rw_window w. count_list past (t, ip) = 0))"

definition limiter_inv :: "nat \<Rightarrow> nat \<Rightarrow> (nat \<times> ip_addr) list \<Rightarrow> http_limiter \<Rightarrow> bool" where
  "limiter_inv m T past l \<longleftrightarrow> hl_max_per_sec l = m \<and> distinct (map fst (hl_state l)) \<and>
     (\<forall>ip. entry_ok m T past ip (map_of (hl_state l) ip))"

lemma map_of_filter_window:
  "distinct (map fst st) \<Longrightarrow> map_of (filter (\<lambda>e. P (snd e)) st) k = (case map_of st k of None \<Rightarrow> None | Some w \<Rightarrow> if P w then Some w else None)"
  by (induction st) (auto split: option.splits simp: map_of_eq_None_iff rev_image_eqI)

text \<open>Reclaiming the entries of past seconds does not change what the table says about the current one.\<close>

lemma swept_ok:
  assumes "limiter_inv m T past l" "T \<le> now"
  shows "distinct (map fst (swept now (hl_state l)))" "entry_ok m now past ip (map_of (swept now (hl_state l)) ip)"
proof -
  have d: "distinct (map fst (hl_state l))" and e: "entry_ok m T past ip (map_of (hl_state l) ip)"
    using assms(1) by (auto simp: limiter_inv_def)
  show "distinct (map fst (swept now (hl_state l)))" using d by (simp add: swept_def distinct_filter_fst)
  show "entry_ok m now past ip (map_of (swept now (hl_state l)) ip)"
    using e assms(2)
    by (cases "map_of (hl_state l) ip") (auto simp: entry_ok_def swept_def map_of_filter_window [OF d, of "\<lambda>w. rw_window w = now"] simp del: map_of_eq_Some_iff)
qed

definition current_count :: "nat \<Rightarrow> rate_window option \<Rightarrow> nat" where
  "current_count now v = (case v of Some w \<Rightarrow> if rw_window w = now then rw_count w else 0 | None \<Rightarrow> 0)"

lemma limiter_check_eq:
  "limiter_check now ip l = (let st = swept now (hl_state l); n = current_count now (map_of st ip); ok = n < hl_max_per_sec l in
     (l\<lparr>hl_state := AList.update ip \<lparr>rw_window = now, rw_count = (if ok then n + 1 else n)\<rparr> st\<rparr>, ok))"
proof (cases "map_of (swept now (hl_state l)) ip")
  case (Some w)
  then show ?thesis by (cases w) (simp add: limiter_check_def current_count_def Let_def)
qed (simp add: limiter_check_def current_count_def Let_def)

lemma current_count_ok: "entry_ok m now past ip v \<Longrightarrow> current_count now v = min m (count_list past (now, ip))"
  by (auto simp: entry_ok_def current_count_def split: option.splits)

lemma limiter_check_inv:
  assumes "limiter_inv m T past l" "T \<le> now"
  shows "limiter_inv m now (past @ [(now, ip)]) (fst (limiter_check now ip l))"
    and "snd (limiter_check now ip l) \<longleftrightarrow> count_list past (now, ip) < m"
proof -
  note s = swept_ok [OF assms]
  have m: "hl_max_per_sec l = m" using assms(1) by (simp add: limiter_inv_def)
  note c = current_count_ok [OF s(2) [of ip]]
  show "snd (limiter_check now ip l) \<longleftrightarrow> count_list past (now, ip) < m"
    by (auto simp: limiter_check_eq Let_def c m)
  have "entry_ok m now (past @ [(now, ip)]) ip' v" if "entry_ok m now past ip' v" "ip' \<noteq> ip" for ip' v
    using that by (auto simp: entry_ok_def split: option.splits)
  moreover have "entry_ok m now (past @ [(now, ip)]) ip (Some \<lparr>rw_window = now,
      rw_count = (if current_count now (map_of (swept now (hl_state l)) ip) < m then current_count now (map_of (swept now (hl_state l)) ip) + 1
        else current_count now (map_of (swept now (hl_state l)) ip))\<rparr>)"
    using s(2) [of ip] unfolding c by (auto simp: entry_ok_def split: option.splits)
  ultimately show "limiter_inv m now (past @ [(now, ip)]) (fst (limiter_check now ip l))"
    using s m by (auto simp: limiter_inv_def limiter_check_eq Let_def update_conv' distinct_update)
qed

lemma limiter_run_exact:
  assumes "limiter_inv m T past l" "sorted (T # map fst calls)"
  shows "limiter_run calls l = map (\<lambda>i. count_list (past @ take i calls) (calls ! i) < m) [0..<length calls]"
  using assms
proof (induction calls arbitrary: T past l)
  case (Cons c calls)
  have le: "T \<le> fst c" "sorted (fst c # map fst calls)" using Cons.prems(2) by auto
  note inv = limiter_check_inv [OF Cons.prems(1) le(1), of "snd c"]
  have "limiter_run calls (fst (limiter_check (fst c) (snd c) l)) =
      map (\<lambda>i. count_list ((past @ [c]) @ take i calls) (calls ! i) < m) [0..<length calls]"
    using Cons.IH [OF inv(1) le(2)] by simp
  moreover have "[0..<length (c # calls)] = 0 # map Suc [0..<length calls]"
    by (simp add: map_Suc_upt upt_conv_Cons del: upt_Suc)
  ultimately show ?case using inv(2) by (simp add: split_beta comp_def)
qed simp

text \<open>C31: The rate limiter is exact. With a clock that does not go back, a request is admitted exactly when
  fewer than the maximum number of requests of the same address were made in the same second before
  it; other addresses, and the reclaiming of entries of past seconds when many addresses are known,
  have no influence on that.\<close>

theorem http_limit_exact:
  assumes "sorted (map fst calls)"
  shows "limiter_run calls (per_second m) = map (\<lambda>i. count_list (take i calls) (calls ! i) < m) [0..<length calls]"
proof -
  have "limiter_inv m 0 [] (per_second m)" by (simp add: limiter_inv_def per_second_def entry_ok_def)
  from limiter_run_exact [OF this, of calls] assms show ?thesis by simp
qed

theorem http_limit_exact_witness:
  "limiter_run [(5, LOCALHOST), (5, V4 [10, 0, 0, 1]), (5, LOCALHOST), (6, LOCALHOST)] (per_second 1) = [True, True, False, True]"
  using http_limit_exact [of "[(5, LOCALHOST), (5, V4 [10, 0, 0, 1]), (5, LOCALHOST), (6, LOCALHOST)]" 1]
  by (simp add: LOCALHOST_def upt_rec)

text \<open>The table stays small: after a call fewer entries of past seconds are kept than the threshold.\<close>

lemma stale_entries_bounded:
  "length (filter (\<lambda>e. rw_window (snd e) \<noteq> now) (hl_state (fst (limiter_check now ip l)))) < RATE_LIMITER_SWEEP_THRESHOLD"
proof -
  have u: "length (filter (\<lambda>e. rw_window (snd e) \<noteq> now) (AList.update ip \<lparr>rw_window = now, rw_count = n\<rparr> st)) \<le>
      length (filter (\<lambda>e. rw_window (snd e) \<noteq> now) st)" for n st
    by (induction st) auto
  have "length (filter (\<lambda>e. rw_window (snd e) \<noteq> now) (swept now st)) < RATE_LIMITER_SWEEP_THRESHOLD" for st
    by (auto simp: swept_def RATE_LIMITER_SWEEP_THRESHOLD_def intro: le_less_trans [OF length_filter_le])
  from le_less_trans [OF u this] show ?thesis by (simp add: limiter_check_eq Let_def)
qed

end
