(* ===== verification/Web_Api.thy ===== *)
theory Web_Api
  imports Web_Guard P2p_Peers Pcp_Channel "HOL-Library.Signed_Division"
begin

text \<open>
  The handlers of the local HTTP service (\<open>src/web/settings.rs\<close>, \<open>mutes.rs\<close>, \<open>peers.rs\<close>, \<open>personas.rs\<close>,
  \<open>channels.rs\<close>, \<open>announced.rs\<close>) and the routers that put them behind the protection layers
  (\<open>src/web/mod.rs\<close>).

  Reading a request body as JSON (\<open>serde_json\<close>) is a parameter, one function per request type. Whatever
  a handler takes from the outside, the clock and the new row identifiers of the store, the generated
  key and nonce of a new persona, and the answers of the suppliers, is in the record \<open>api_env\<close>.
\<close>

subsection \<open>Request types\<close>

record settings_update =
  su_pcp_bind :: "string option"
  su_http_bind :: "string option"
  su_p2p_bind :: "string option"
  su_p2p_outbound_target :: "nat option"
  su_p2p_inbound_max :: "nat option"
  su_pex_enabled :: "bool option"
  su_upnp_enabled :: "bool option"
  su_freshness_window_sec :: "nat option"
  su_republish_interval_sec :: "nat option"
  su_max_clock_skew_sec :: "nat option"
  su_min_pow_bits :: "nat option"
  su_event_store_max :: "nat option"
  su_index_txt_encoding :: "string option"
  su_index_bind :: "string option"

record update_persona_request =
  up_label :: "string option"
  up_state :: "string option"
  up_select :: "bool option"
  up_channel_id :: "string option"

record request_parsers =
  rp_settings :: "string \<Rightarrow> settings_update option"
  rp_mute :: "string \<Rightarrow> (string \<times> string) option"
  rp_addrs :: "string \<Rightarrow> string list option"
  rp_enabled :: "string \<Rightarrow> bool option"
  rp_label :: "string \<Rightarrow> string option"
  rp_persona :: "string \<Rightarrow> update_persona_request option"
  rp_confirm :: "string \<Rightarrow> bool option"

record announced_summary =
  an_channel_id :: string
  an_name :: string
  an_genre :: string
  an_description :: string
  an_contact_url :: string
  an_bitrate_kbps :: nat
  an_content_type :: string
  an_tracker :: string
  an_listeners :: int
  an_relays :: int
  an_started_at :: nat
  an_state :: string
  an_persona_pubkey :: "string option"

record clock_skew =
  cs_median_sec :: "int option"
  cs_warning :: bool

record node_status =
  ns_pcp_listening :: bool
  ns_established :: "nat \<times> nat"
  ns_all_peers_unreachable :: bool
  ns_clock_skew :: clock_skew
  ns_inbound_reachable :: bool

record 'k api_env =
  en_parsers :: request_parsers
  en_now :: "nat \<Rightarrow> int"
  en_rowid :: "nat \<Rightarrow> int"
  en_nonce :: bytes
  en_keys :: "string \<times> bytes"
  en_from_slice :: "bytes \<Rightarrow> 'k option"
  en_to_bech32 :: "'k \<Rightarrow> string option"
  en_channels :: "discovered_channel list option"
  en_announced :: "announced_summary list option"
  en_node_status :: "node_status option"

subsection \<open>JSON values\<close>

definition json_opt :: "('a \<Rightarrow> json) \<Rightarrow> 'a option \<Rightarrow> json" where
  "json_opt f v = (case v of None \<Rightarrow> JNull | Some x \<Rightarrow> f x)"

definition json_nat :: "nat \<Rightarrow> json" where
  "json_nat n = JNum (int n)"

definition json_ok :: "nat \<Rightarrow> json \<Rightarrow> http_response" where
  "json_ok status j = \<lparr>rs_status = status, rs_body = JsonBody j\<rparr>"

definition no_content :: http_response where
  "no_content = \<lparr>rs_status = 204, rs_body = EmptyBody\<rparr>"

text \<open>The framework's answer when a path or a query cannot be read as the handler's argument types.\<close>

definition bad_argument :: http_response where
  "bad_argument = \<lparr>rs_status = 400, rs_body = TextBody ''text/plain; charset=utf-8'' []\<rparr>"

subsection \<open>Settings\<close>

definition BIND_KEYS :: "string list" where
  "BIND_KEYS = [''pcp_bind'', ''http_bind'', ''p2p_bind'', ''index_bind'']"

definition settings_to_json :: "settings \<Rightarrow> json" where
  "settings_to_json s = JObj [
     (''pcp_bind'', JStr (se_pcp_bind s)), (''http_bind'', JStr (se_http_bind s)), (''p2p_bind'', JStr (se_p2p_bind s)),
     (''p2p_outbound_target'', json_nat (se_p2p_outbound_target s)), (''p2p_inbound_max'', json_nat (se_p2p_inbound_max s)),
     (''pex_enabled'', JBool (se_pex_enabled s)), (''upnp_enabled'', JBool (se_upnp_enabled s)),
     (''freshness_window_sec'', json_nat (se_freshness_window_sec s)),
     (''republish_interval_sec'', json_nat (se_republish_interval_sec s)),
     (''max_clock_skew_sec'', json_nat (se_max_clock_skew_sec s)), (''min_pow_bits'', json_nat (se_min_pow_bits s)),
     (''event_store_max'', json_nat (se_event_store_max s)), (''index_txt_encoding'', JStr (se_index_txt_encoding s)),
     (''index_bind'', JStr (se_index_bind s))]"

definition get_settings :: handler where
  "get_settings st = (st, json_ok 200 (settings_to_json (settings_load (as_db st))))"

definition apply_to :: "settings_update \<Rightarrow> settings \<Rightarrow> settings" where
  "apply_to u base = \<lparr>
     se_pcp_bind = unwrap_or (se_pcp_bind base) (su_pcp_bind u),
     se_http_bind = unwrap_or (se_http_bind base) (su_http_bind u),
     se_p2p_bind = unwrap_or (se_p2p_bind base) (su_p2p_bind u),
     se_p2p_outbound_target = unwrap_or (se_p2p_outbound_target base) (su_p2p_outbound_target u),
     se_p2p_inbound_max = unwrap_or (se_p2p_inbound_max base) (su_p2p_inbound_max u),
     se_pex_enabled = unwrap_or (se_pex_enabled base) (su_pex_enabled u),
     se_upnp_enabled = unwrap_or (se_upnp_enabled base) (su_upnp_enabled u),
     se_freshness_window_sec = unwrap_or (se_freshness_window_sec base) (su_freshness_window_sec u),
     se_republish_interval_sec = unwrap_or (se_republish_interval_sec base) (su_republish_interval_sec u),
     se_max_clock_skew_sec = unwrap_or (se_max_clock_skew_sec base) (su_max_clock_skew_sec u),
     se_min_pow_bits = unwrap_or (se_min_pow_bits base) (su_min_pow_bits u),
     se_event_store_max = unwrap_or (se_event_store_max base) (su_event_store_max u),
     se_index_txt_encoding = unwrap_or (se_index_txt_encoding base) (su_index_txt_encoding u),
     se_index_bind = unwrap_or (se_index_bind base) (su_index_bind u)\<rparr>"

definition validation_error_response :: "config_error \<Rightarrow> http_response" where
  "validation_error_response e = (case e of
     NonLoopbackBind _ \<Rightarrow> error_response 400 ''non_loopback_bind''
   | NonLanBind _ \<Rightarrow> error_response 400 ''non_lan_bind''
   | InvalidBind _ \<Rightarrow> error_response 400 ''invalid_bind''
   | InvalidEncoding \<Rightarrow> error_response 400 ''invalid_encoding''
   | InvalidArgument \<Rightarrow> error_response 400 ''invalid_request''
   | CfgStore _ \<Rightarrow> error_response 500 ''internal'')"

definition changed_bind_keys :: "settings \<Rightarrow> settings \<Rightarrow> string list" where
  "changed_bind_keys current new =
     (if se_pcp_bind current \<noteq> se_pcp_bind new then [BIND_KEYS ! 0] else []) @
     (if se_http_bind current \<noteq> se_http_bind new then [BIND_KEYS ! 1] else []) @
     (if se_p2p_bind current \<noteq> se_p2p_bind new then [BIND_KEYS ! 2] else []) @
     (if se_index_bind current \<noteq> se_index_bind new then [BIND_KEYS ! 3] else [])"

definition put_settings :: "request_parsers \<Rightarrow> string \<Rightarrow> handler" where
  "put_settings ps body st = (case rp_settings ps body of
     None \<Rightarrow> (st, error_response 400 ''invalid_request'')
   | Some update \<Rightarrow>
       let current = settings_load (as_db st); new = apply_to update current in
       case settings_validate new of
         Inl e \<Rightarrow> (st, validation_error_response e)
       | Inr _ \<Rightarrow>
           let restart_keys = changed_bind_keys current new
           in (st\<lparr>as_db := settings_save new (as_db st)\<rparr>,
               json_ok 200 (JObj [(''restart_required'', JBool (restart_keys \<noteq> [])), (''restart_keys'', JArr (map JStr restart_keys))])))"

subsection \<open>Mutes\<close>

definition mute_to_json :: "mute_entry \<Rightarrow> json" where
  "mute_to_json m = JObj [(''id'', JNum (mu_id m)),
     (''kind'', JStr (case mu_kind m of MutePubkey \<Rightarrow> ''pubkey'' | MuteChannel \<Rightarrow> ''channel'')),
     (''value'', JStr (mu_value m)), (''created_at'', JNum (mu_created_at m))]"

definition web_list_mutes :: handler where
  "web_list_mutes st = (st, json_ok 200 (JArr (map mute_to_json (list_mutes (as_db st)))))"

definition web_add_mute :: "'k api_env \<Rightarrow> string \<Rightarrow> handler" where
  "web_add_mute env body st = (case rp_mute (en_parsers env) body of
     None \<Rightarrow> (st, error_response 400 ''invalid_request'')
   | Some (kind, v) \<Rightarrow>
       case (if kind = ''pubkey'' then Some MutePubkey else if kind = ''channel'' then Some MuteChannel else None) of
         None \<Rightarrow> (st, error_response 400 ''invalid_request'')
       | Some k \<Rightarrow>
           if v = [] then (st, error_response 400 ''invalid_request'')
           else (case insert_mute (en_now env 0) (en_rowid env 0) k v (as_db st) of
               (d, Inr entry) \<Rightarrow> (st\<lparr>as_db := d\<rparr>, json_ok 201 (mute_to_json entry))
             | (d, Inl e) \<Rightarrow> (st\<lparr>as_db := d\<rparr>, error_response 500 ''internal'')))"

definition web_delete_mute :: "int \<Rightarrow> handler" where
  "web_delete_mute i st = (case delete_mute i (as_db st) of (d, found) \<Rightarrow>
     (st\<lparr>as_db := d\<rparr>, if found then no_content else error_response 404 ''not_found''))"

subsection \<open>Peers\<close>

definition is_connected :: "string \<Rightarrow> bool" where
  "is_connected addr = False"

definition peer_to_json :: "peer_endpoint \<Rightarrow> json" where
  "peer_to_json p = JObj [(''id'', JNum (pe_id p)), (''addr'', JStr (pe_addr p)),
     (''source'', JStr (case pe_source p of Manual \<Rightarrow> ''manual'' | Pex \<Rightarrow> ''pex'')), (''verified'', JBool (pe_verified p)),
     (''enabled'', JBool (pe_enabled p)), (''last_ok_at'', json_opt JNum (pe_last_ok_at p)),
     (''fail_count'', JNum (pe_fail_count p)), (''connected'', JBool (is_connected (pe_addr p)))]"

definition resolve_addr :: "int \<Rightarrow> db \<Rightarrow> string option" where
  "resolve_addr i d = map_option pe_addr (find (\<lambda>p. pe_id p = i) (list_peers d))"

definition web_list_peers :: handler where
  "web_list_peers st = (st, json_ok 200 (JArr (map peer_to_json (list_peers (as_db st)))))"

definition addr_error_json :: "string \<Rightarrow> string \<Rightarrow> json" where
  "addr_error_json raw code = JObj [(''addr'', JStr raw), (''error'', JStr code)]"

text \<open>The loop of the bulk registration; \<open>i\<close> numbers the calls to the store.\<close>

fun bulk_loop :: "(nat \<Rightarrow> int) \<Rightarrow> (nat \<Rightarrow> int) \<Rightarrow> nat \<Rightarrow> string list \<Rightarrow> db \<Rightarrow> db \<times> peer_endpoint list \<times> json list" where
  "bulk_loop now rowid i [] d = (d, [], [])"
| "bulk_loop now rowid i (raw # raws) d = (case parse_addr raw of
     Inl e \<Rightarrow> (case bulk_loop now rowid i raws d of (d', added, errors) \<Rightarrow>
       (d', added, addr_error_json raw ''invalid_addr'' # errors))
   | Inr parsed \<Rightarrow> (case upsert_peer (now i) (rowid i) (canonical parsed) Manual d of
         (d1, Inr peer) \<Rightarrow> (case bulk_loop now rowid (Suc i) raws d1 of (d', added, errors) \<Rightarrow> (d', peer # added, errors))
       | (d1, Inl e) \<Rightarrow> (case bulk_loop now rowid (Suc i) raws d1 of (d', added, errors) \<Rightarrow>
           (d', added, addr_error_json raw ''store_error'' # errors))))"

definition bulk_add :: "'k api_env \<Rightarrow> string \<Rightarrow> handler" where
  "bulk_add env body st = (case rp_addrs (en_parsers env) body of
     None \<Rightarrow> (st, error_response 400 ''invalid_request'')
   | Some addrs \<Rightarrow> (case bulk_loop (en_now env) (en_rowid env) 0 addrs (as_db st) of (d, added, errors) \<Rightarrow>
       (st\<lparr>as_db := d\<rparr>, json_ok 200 (JObj [(''added'', JArr (map peer_to_json added)), (''errors'', JArr errors)]))))"

definition web_set_enabled :: "request_parsers \<Rightarrow> int \<Rightarrow> string \<Rightarrow> handler" where
  "web_set_enabled ps i body st = (case rp_enabled ps body of
     None \<Rightarrow> (st, error_response 400 ''invalid_request'')
   | Some enabled \<Rightarrow> (case resolve_addr i (as_db st) of
       None \<Rightarrow> (st, error_response 404 ''not_found'')
     | Some addr \<Rightarrow> (case set_peer_enabled addr enabled (as_db st) of (d, found) \<Rightarrow>
         (st\<lparr>as_db := d\<rparr>,
          if found then (case get_peer addr d of Some peer \<Rightarrow> json_ok 200 (peer_to_json peer) | None \<Rightarrow> error_response 500 ''internal'')
          else error_response 404 ''not_found''))))"

definition web_delete_peer :: "int \<Rightarrow> handler" where
  "web_delete_peer i st = (case resolve_addr i (as_db st) of
     None \<Rightarrow> (st, error_response 404 ''not_found'')
   | Some addr \<Rightarrow> (case delete_peer addr (as_db st) of (d, found) \<Rightarrow>
       (st\<lparr>as_db := d\<rparr>, if found then json_ok 200 (JObj [(''deleted'', JBool True)]) else error_response 404 ''not_found'')))"

definition export_peers :: handler where
  "export_peers st = (st, \<lparr>rs_status = 200, rs_body = TextBody ''text/plain; charset=utf-8''
     (concat (map (\<lambda>p. pe_addr p @ [newline]) (verified_peers_by_recency None (as_db st))))\<rparr>)"

subsection \<open>Personas\<close>

definition no_identity :: http_response where
  "no_identity = error_response 503 ''service_unavailable''"

fun identity_err :: "identity_error \<Rightarrow> http_response" where
  "identity_err NotFound = error_response 404 ''not_found''"
| "identity_err Unusable = error_response 422 ''persona_unusable''"
| "identity_err NotSelectable = error_response 409 ''persona_not_selectable''"
| "identity_err BroadcastingLocked = error_response 409 ''broadcasting_locked''"
| "identity_err CryptoErr = error_response 500 ''internal''"
| "identity_err (IdStore e) = error_response 500 ''internal''"

definition persona_to_json :: "persona_info \<Rightarrow> json" where
  "persona_to_json p = JObj [(''pubkey'', JStr (pi_pubkey p)), (''label'', JStr (pi_label p)),
     (''state'', JStr (case pi_state p of Active \<Rightarrow> ''active'' | Archived \<Rightarrow> ''archived'')), (''usable'', JBool (pi_usable p)),
     (''created_at'', JNum (pi_created_at p)), (''selected'', JBool (pi_selected p))]"

text \<open>The identity manager on the shared database.\<close>

definition identity_of :: "app_state \<Rightarrow> identity_manager option" where
  "identity_of st = map_option (\<lambda>m. m\<lparr>im_db := as_db st\<rparr>) (as_identity st)"

definition put_identity :: "identity_manager \<Rightarrow> app_state \<Rightarrow> app_state" where
  "put_identity m st = st\<lparr>as_db := im_db m, as_identity := Some m\<rparr>"

definition web_list_personas :: handler where
  "web_list_personas st = (case identity_of st of
     None \<Rightarrow> (st, no_identity)
   | Some m \<Rightarrow> (st, json_ok 200 (JArr (map persona_to_json (identity_list m)))))"

definition web_create_persona :: "'k api_env \<Rightarrow> string \<Rightarrow> handler" where
  "web_create_persona env body st = (case identity_of st of
     None \<Rightarrow> (st, no_identity)
   | Some m \<Rightarrow> (case rp_label (en_parsers env) body of
       None \<Rightarrow> (st, error_response 400 ''invalid_request'')
     | Some label \<Rightarrow>
         if label = [] then (st, error_response 400 ''invalid_request'')
         else (case identity_create (en_now env 0) (en_rowid env 0) (en_nonce env) (en_keys env) label m of
             (m', Inr p) \<Rightarrow> (put_identity m' st, json_ok 201 (JObj [(''pubkey'', JStr (pi_pubkey p))]))
           | (m', Inl e) \<Rightarrow> (put_identity m' st, identity_err e))))"

type_synonym persona_op = "identity_manager \<Rightarrow> identity_manager \<times> (http_response + unit)"

definition persona_call :: "(identity_manager \<Rightarrow> identity_manager \<times> (identity_error + unit)) \<Rightarrow> persona_op" where
  "persona_call f m = (case f m of (m', r) \<Rightarrow> (m', map_sum identity_err id r))"

definition persona_skip :: persona_op where
  "persona_skip m = (m, Inr ())"

fun run_persona_ops :: "persona_op list \<Rightarrow> persona_op" where
  "run_persona_ops [] m = (m, Inr ())"
| "run_persona_ops (f # fl) m = (case f m of (m', Inl r) \<Rightarrow> (m', Inl r) | (m', Inr _) \<Rightarrow> run_persona_ops fl m')"

definition update_persona_ops :: "string \<Rightarrow> update_persona_request \<Rightarrow> persona_op list" where
  "update_persona_ops pubkey req =
     [case up_label req of Some label \<Rightarrow> persona_call (set_label pubkey label) | None \<Rightarrow> persona_skip,
      case up_state req of
        Some s \<Rightarrow> if s = ''active'' then persona_call (set_state pubkey Active)
          else if s = ''archived'' then persona_call (set_state pubkey Archived)
          else (\<lambda>m. (m, Inl (error_response 400 ''invalid_request'')))
      | None \<Rightarrow> persona_skip,
      if up_select req = Some True then persona_call (select_persona pubkey) else persona_skip,
      case up_channel_id req of Some c \<Rightarrow> persona_call (assign_channel c pubkey) | None \<Rightarrow> persona_skip]"

definition web_update_persona :: "request_parsers \<Rightarrow> string \<Rightarrow> string \<Rightarrow> handler" where
  "web_update_persona ps pubkey body st = (case identity_of st of
     None \<Rightarrow> (st, no_identity)
   | Some m \<Rightarrow> (case rp_persona ps body of
       None \<Rightarrow> (st, error_response 400 ''invalid_request'')
     | Some req \<Rightarrow> (case run_persona_ops (update_persona_ops pubkey req) m of
           (m', Inl r) \<Rightarrow> (put_identity m' st, r)
         | (m', Inr _) \<Rightarrow> (put_identity m' st, no_content))))"

definition web_delete_persona :: "string \<Rightarrow> (string \<times> string) list \<Rightarrow> handler" where
  "web_delete_persona pubkey params st = (case identity_of st of
     None \<Rightarrow> (st, no_identity)
   | Some m \<Rightarrow>
       if map_of params ''confirm'' \<noteq> Some ''true'' then (st, error_response 400 ''confirm_required'')
       else (case delete_persona pubkey m of
           (m', Inr _) \<Rightarrow> (put_identity m' st, no_content)
         | (m', Inl e) \<Rightarrow> (put_identity m' st, identity_err e)))"

text \<open>The fixed warning text of the answer, in UTF-8.\<close>

definition EXPORT_WARNING :: string where
  "EXPORT_WARNING = [
     CHR 0xE7, CHR 0xA7, CHR 0x98, CHR 0xE5, CHR 0xAF, CHR 0x86, CHR 0xE9, CHR 0x8D, CHR 0xB5, CHR 0xE3, CHR 0x82,
     CHR 0x92, CHR 0xE7, CHR 0x9F, CHR 0xA5, CHR 0xE3, CHR 0x82, CHR 0x8B, CHR 0xE8, CHR 0x80, CHR 0x85, CHR 0xE3,
     CHR 0x81, CHR 0xAF, CHR 0xE3, CHR 0x81, CHR 0x93, CHR 0xE3, CHR 0x81, CHR 0xAE, CHR 0xE3, CHR 0x83, CHR 0x9A,
     CHR 0xE3, CHR 0x83, CHR 0xAB, CHR 0xE3, CHR 0x82, CHR 0xBD, CHR 0xE3, CHR 0x83, CHR 0x8A, CHR 0xE3, CHR 0x81,
     CHR 0xA8, CHR 0xE3, CHR 0x81, CHR 0x97, CHR 0xE3, CHR 0x81, CHR 0xA6, CHR 0xE6, CHR 0x8E, CHR 0xB2, CHR 0xE8,
     CHR 0xBC, CHR 0x89, CHR 0xE3, CHR 0x81, CHR 0xA7, CHR 0xE3, CHR 0x81, CHR 0x8D, CHR 0xE3, CHR 0x81, CHR 0xBE,
     CHR 0xE3, CHR 0x81, CHR 0x99, CHR 0xE3, CHR 0x80, CHR 0x82, CHR 0xE3, CHR 0x83, CHR 0x9A, CHR 0xE3, CHR 0x83,
     CHR 0xAB, CHR 0xE3, CHR 0x82, CHR 0xBD, CHR 0xE3, CHR 0x83, CHR 0x8A, CHR 0xE3, CHR 0x82, CHR 0x92, CHR 0xE7,
     CHR 0xA0, CHR 0xB4, CHR 0xE6, CHR 0xA3, CHR 0x84, CHR 0xE3, CHR 0x81, CHR 0x97, CHR 0xE3, CHR 0x81, CHR 0x9F,
     CHR 0xE5, CHR 0xBE, CHR 0x8C, CHR 0xE3, CHR 0x81, CHR 0xAF, CHR 0xE5, CHR 0xBE, CHR 0xA9, CHR 0xE5, CHR 0x85,
     CHR 0x83, CHR 0xE3, CHR 0x81, CHR 0xA7, CHR 0xE3, CHR 0x81, CHR 0x8D, CHR 0xE3, CHR 0x81, CHR 0x9A, CHR 0xE3,
     CHR 0x80, CHR 0x81, CHR 0xE3, CHR 0x81, CHR 0x93, CHR 0xE3, CHR 0x82, CHR 0x8C, CHR 0xE3, CHR 0x81, CHR 0x8C,
     CHR 0xE5, CHR 0x94, CHR 0xAF, CHR 0xE4, CHR 0xB8, CHR 0x80, CHR 0xE3, CHR 0x81, CHR 0xAE, CHR 0xE3, CHR 0x83,
     CHR 0x90, CHR 0xE3, CHR 0x83, CHR 0x83, CHR 0xE3, CHR 0x82, CHR 0xAF, CHR 0xE3, CHR 0x82, CHR 0xA2, CHR 0xE3,
     CHR 0x83, CHR 0x83, CHR 0xE3, CHR 0x83, CHR 0x97, CHR 0xE6, CHR 0x89, CHR 0x8B, CHR 0xE6, CHR 0xAE, CHR 0xB5,
     CHR 0xE3, CHR 0x81, CHR 0xA7, CHR 0xE3, CHR 0x81, CHR 0x99, CHR 0xE3, CHR 0x80, CHR 0x82, CHR 0xE5, CHR 0xAE,
     CHR 0x89, CHR 0xE5, CHR 0x85, CHR 0xA8, CHR 0xE3, CHR 0x81, CHR 0xAA, CHR 0xE5, CHR 0xA0, CHR 0xB4, CHR 0xE6,
     CHR 0x89, CHR 0x80, CHR 0xE3, CHR 0x81, CHR 0xAB, CHR 0xE4, CHR 0xBF, CHR 0x9D, CHR 0xE7, CHR 0xAE, CHR 0xA1,
     CHR 0xE3, CHR 0x81, CHR 0x97, CHR 0xE3, CHR 0x81, CHR 0xA6, CHR 0xE3, CHR 0x81, CHR 0x8F, CHR 0xE3, CHR 0x81,
     CHR 0xA0, CHR 0xE3, CHR 0x81, CHR 0x95, CHR 0xE3, CHR 0x81, CHR 0x84, CHR 0xE3, CHR 0x80, CHR 0x82]"

definition export_persona :: "'k api_env \<Rightarrow> string \<Rightarrow> string \<Rightarrow> handler" where
  "export_persona env pubkey body st = (case identity_of st of
     None \<Rightarrow> (st, no_identity)
   | Some m \<Rightarrow> (case rp_confirm (en_parsers env) body of
       None \<Rightarrow> (st, error_response 400 ''invalid_request'')
     | Some confirm \<Rightarrow>
         if \<not> confirm then (st, error_response 400 ''confirm_required'')
         else (case export_nsec (en_from_slice env) (en_to_bech32 env) pubkey m of
             Inr nsec \<Rightarrow> (st, json_ok 200 (JObj [(''nsec'', JStr nsec), (''warning'', JStr EXPORT_WARNING)]))
           | Inl e \<Rightarrow> (st, identity_err e))))"

subsection \<open>Channels and status\<close>

definition channel_to_json :: "discovered_channel \<Rightarrow> json" where
  "channel_to_json ch = (let l = dc_listing ch; track = (\<lambda>f. JStr (case cl_track_info l of Some t \<Rightarrow> f t | None \<Rightarrow> [])) in
     JObj [(''channel_id'', JStr (dc_channel_id ch)), (''author_pubkey'', JStr (dc_author_pubkey ch)), (''title'', JStr (cl_title l)),
       (''genre'', json_opt JStr (cl_genre l)), (''detail'', json_opt JStr (cl_summary l)), (''tip'', json_opt JStr (cl_tip l)),
       (''contact_url'', json_opt JStr (cl_contact l)), (''url_warning'', JBool (url_needs_warning (unwrap_or [] (cl_contact l)))),
       (''listener_num'', JNum (cl_current_participants l)), (''relay_num'', JNum (cl_relays l)),
       (''bitrate'', json_nat (unwrap_or 0 (cl_bitrate_kbps l))), (''content_type'', json_opt JStr (cl_content_type l)),
       (''comment'', json_opt JStr (cl_comment l)), (''status'', JStr (case cl_status l of Live \<Rightarrow> ''live'' | Ended \<Rightarrow> ''ended'')),
       (''starts'', json_nat (cl_starts l)), (''created_at'', json_nat (dc_created_at ch)),
       (''source_peers'', JArr (map JStr (dc_source_peers ch))), (''track_title'', track tr_title), (''track_artist'', track tr_artist),
       (''track_album'', track tr_album), (''track_contact_url'', track tr_url)])"

definition list_channels :: "'k api_env \<Rightarrow> handler" where
  "list_channels env st = (st, json_ok 200 (JArr (map channel_to_json (unwrap_or [] (en_channels env)))))"

text \<open>\<open>i64\<close> addition, division and \<open>abs\<close>, which wrap around.\<close>

definition clock_skew_status :: "int list \<Rightarrow> int \<Rightarrow> clock_skew" where
  "clock_skew_status samples threshold_sec =
     (if samples = [] then \<lparr>cs_median_sec = None, cs_warning = False\<rparr>
      else let xs = sort samples; n = length xs;
               median = (if n mod 2 = 1 then xs ! (n div 2) else wrap_i64 (xs ! (n div 2 - 1) + xs ! (n div 2)) sdiv 2)
           in \<lparr>cs_median_sec = Some median, cs_warning = (wrap_i64 \<bar>median\<bar> > threshold_sec)\<rparr>)"

definition announced_to_json :: "announced_summary \<Rightarrow> json" where
  "announced_to_json a = JObj [(''channel_id'', JStr (an_channel_id a)), (''name'', JStr (an_name a)), (''genre'', JStr (an_genre a)),
     (''description'', JStr (an_description a)), (''contact_url'', JStr (an_contact_url a)),
     (''bitrate_kbps'', json_nat (an_bitrate_kbps a)), (''content_type'', JStr (an_content_type a)), (''tracker'', JStr (an_tracker a)),
     (''listeners'', JNum (an_listeners a)), (''relays'', JNum (an_relays a)), (''started_at'', json_nat (an_started_at a)),
     (''state'', JStr (an_state a)), (''persona_pubkey'', json_opt JStr (an_persona_pubkey a))]"

definition get_announced :: "'k api_env \<Rightarrow> handler" where
  "get_announced env st = (st, json_ok 200 (JObj [(''channels'', JArr (map announced_to_json (unwrap_or [] (en_announced env)))),
     (''propagation_peers'', json_nat (case en_node_status env of Some s \<Rightarrow> fst (ns_established s) + snd (ns_established s) | None \<Rightarrow> 0))]))"

definition index_txt_lan_json :: "index_lan_status option \<Rightarrow> json" where
  "index_txt_lan_json lan = (case lan of
     None \<Rightarrow> JObj [(''enabled'', JBool False), (''bind'', JNull), (''listening'', JBool False), (''error'', JNull)]
   | Some s \<Rightarrow> JObj [(''enabled'', JBool True), (''bind'', JStr (il_bind s)), (''listening'', JBool (il_listening s)),
       (''error'', json_opt JStr (il_error s))])"

definition default_node_status :: node_status where
  "default_node_status = \<lparr>ns_pcp_listening = False, ns_established = (0, 0), ns_all_peers_unreachable = False,
     ns_clock_skew = \<lparr>cs_median_sec = None, cs_warning = False\<rparr>, ns_inbound_reachable = False\<rparr>"

definition get_status :: "'k api_env \<Rightarrow> handler" where
  "get_status env st =
     (let broadcasting = (case as_broadcast st of Some b \<Rightarrow> is_broadcasting b | None \<Rightarrow> False);
          s = unwrap_or default_node_status (en_node_status env)
      in (st, json_ok 200 (JObj [(''pcp_listening'', JBool (ns_pcp_listening s)),
        (''established'', JObj [(''in'', json_nat (fst (ns_established s))), (''out'', json_nat (snd (ns_established s)))]),
        (''all_peers_unreachable'', JBool (ns_all_peers_unreachable s)),
        (''clock_skew'', JObj [(''median_sec'', json_opt JNum (cs_median_sec (ns_clock_skew s))), (''warning'', JBool (cs_warning (ns_clock_skew s)))]),
        (''inbound_reachable'', JBool (ns_inbound_reachable s)), (''broadcasting'', JBool broadcasting),
        (''index_txt_lan'', index_txt_lan_json (as_index_lan st))])))"

subsection \<open>Routers\<close>

definition token_handler :: handler where
  "token_handler st = (st, json_ok 200 (JObj [(''token'', JStr (as_token st))]))"

definition api_not_found :: handler where
  "api_not_found st = (st, error_response 404 ''not_found'')"

text \<open>The method routers of \<open>api_router\<close>; a \<open>HEAD\<close> request runs the handler of \<open>GET\<close> without its body.\<close>

definition reads :: "http_method \<Rightarrow> bool" where
  "reads m \<longleftrightarrow> m = HttpGet \<or> m = HttpHead"

definition get_route :: "'k api_env \<Rightarrow> api_route \<Rightarrow> handler option" where
  "get_route env r = (case r of
     RouteToken \<Rightarrow> Some token_handler
   | RouteSettings \<Rightarrow> Some get_settings
   | RouteChannels \<Rightarrow> Some (list_channels env)
   | RouteMutes \<Rightarrow> Some web_list_mutes
   | RoutePeers \<Rightarrow> Some web_list_peers
   | RoutePeersExport \<Rightarrow> Some export_peers
   | RoutePersonas \<Rightarrow> Some web_list_personas
   | RouteAnnounced \<Rightarrow> Some (get_announced env)
   | RouteStatus \<Rightarrow> Some (get_status env)
   | _ \<Rightarrow> None)"

definition change_route :: "'k api_env \<Rightarrow> http_method \<Rightarrow> api_route \<Rightarrow> (string \<times> string) list option \<Rightarrow> string \<Rightarrow> handler option" where
  "change_route env m r query body = (let ps = en_parsers env in case (m, r) of
     (HttpPut, RouteSettings) \<Rightarrow> Some (put_settings ps body)
   | (HttpPost, RouteMutes) \<Rightarrow> Some (web_add_mute env body)
   | (HttpDelete, RouteMute (Some i)) \<Rightarrow> Some (web_delete_mute i)
   | (HttpDelete, RouteMute None) \<Rightarrow> Some (\<lambda>st. (st, bad_argument))
   | (HttpPost, RoutePeers) \<Rightarrow> Some (bulk_add env body)
   | (HttpPut, RoutePeer (Some i)) \<Rightarrow> Some (web_set_enabled ps i body)
   | (HttpPut, RoutePeer None) \<Rightarrow> Some (\<lambda>st. (st, bad_argument))
   | (HttpDelete, RoutePeer (Some i)) \<Rightarrow> Some (web_delete_peer i)
   | (HttpDelete, RoutePeer None) \<Rightarrow> Some (\<lambda>st. (st, bad_argument))
   | (HttpPost, RoutePersonas) \<Rightarrow> Some (web_create_persona env body)
   | (HttpPut, RoutePersona pk) \<Rightarrow> Some (web_update_persona ps pk body)
   | (HttpDelete, RoutePersona pk) \<Rightarrow> Some (case query of Some params \<Rightarrow> web_delete_persona pk params | None \<Rightarrow> (\<lambda>st. (st, bad_argument)))
   | (HttpPost, RoutePersonaExport pk) \<Rightarrow> Some (export_persona env pk body)
   | _ \<Rightarrow> None)"

definition without_body :: "http_method \<Rightarrow> http_response \<Rightarrow> http_response" where
  "without_body m r = (if m = HttpHead then r\<lparr>rs_body := EmptyBody\<rparr> else r)"

definition api_dispatch :: "'k api_env \<Rightarrow> http_request \<Rightarrow> api_route \<Rightarrow> string \<Rightarrow> handler" where
  "api_dispatch env req r body st =
     (if r = RouteApiUnknown then (case api_not_found st of (st', resp) \<Rightarrow> (st', without_body (rq_method req) resp))
      else if reads (rq_method req) then
        (case get_route env r of
           Some h \<Rightarrow> (case h st of (st', resp) \<Rightarrow> (st', without_body (rq_method req) resp))
         | None \<Rightarrow> (st, method_not_allowed))
      else (case change_route env (rq_method req) r (rq_query req) body of Some h \<Rightarrow> h st | None \<Rightarrow> (st, method_not_allowed)))"

definition api_router :: "'k api_env \<Rightarrow> nat \<Rightarrow> http_request \<Rightarrow> api_route \<Rightarrow> handler" where
  "api_router env now req r = api_layers now req (api_dispatch env req r)"

text \<open>\<open>html\<close> are the pages built into the program.\<close>

definition static_handler :: "(string \<Rightarrow> string) \<Rightarrow> http_request \<Rightarrow> handler" where
  "static_handler html req st = (st,
     let page = (if rq_path req \<in> {''/'', ''/index.html'', ''/settings.html'', ''/peers.html'', ''/channels.html'', ''/personas.html''}
       then Some (html (if rq_path req = ''/'' then ''/index.html'' else rq_path req)) else None)
     in case page of Some body \<Rightarrow> \<lparr>rs_status = 200, rs_body = TextBody ''text/html; charset=utf-8'' body\<rparr>
        | None \<Rightarrow> \<lparr>rs_status = 404, rs_body = EmptyBody\<rparr>)"

definition web_router :: "(string \<Rightarrow> string) \<Rightarrow> sjis \<Rightarrow> 'k api_env \<Rightarrow> nat \<Rightarrow> http_request \<Rightarrow> handler" where
  "web_router html sj env now req = (case rq_route req of
     RouteApi r \<Rightarrow> api_router env now req r
   | RouteIndexTxt \<Rightarrow> index_routes sj now (en_channels env) req
   | RouteOther \<Rightarrow> static_handler html req)"

end
