(* ===== verification/App_Main.thy ===== *)
theory App_Main
  imports P2p_Runtime Platform_Dirs Event_Publish Pcp_Channel Web_Api
begin

text \<open>
  The program entry (\<open>src/main.rs\<close>) and the port mapping task (\<open>src/p2p/upnp.rs\<close>): the startup sequence up to the
  point where all listeners are bound, the adapters between the components, and the tasks that
  connect the registry of local broadcasts with the publishing engine.

  \<^item> \<open>run_start\<close> is \<open>run\<close> from the parsing of the arguments to the bound listeners. What it reads
    from outside (arguments, environment, outcome of system calls, the \<open>n\<close>-th call of bind) is in
    \<open>startup_env\<close>; an early return is its exit code. Texts for the console are left out.
  \<^item> \<open>wiring\<close> is the state shared by the bridge task, the republication task and the recovery task.
    The notifications of the registry wait in \<open>wi_pending\<close>; a receiver that lags loses the oldest
    ones. The two republishing tasks take a snapshot and then publish its listings one after the
    other, while the other tasks go on.
\<close>

subsection \<open>Startup\<close>

datatype io_error_kind = AddrInUse | PermissionDenied | AddrNotAvailable | OtherKind

fun index_bind_error_code :: "io_error_kind \<Rightarrow> string" where
  "index_bind_error_code AddrInUse = ''addr_in_use''"
| "index_bind_error_code PermissionDenied = ''permission_denied''"
| "index_bind_error_code AddrNotAvailable = ''addr_not_available''"
| "index_bind_error_code OtherKind = ''unknown''"

record startup_env =
  sv_args :: "string list"
  sv_platform :: platform
  sv_lossy :: "string \<Rightarrow> string"
  sv_lookup :: "string \<Rightarrow> string option"
  sv_create_ok :: "string \<Rightarrow> bool"
  sv_open_store :: "string \<Rightarrow> store_error + db"
  sv_log_ok :: "string \<Rightarrow> bool"
  sv_key_fresh :: bytes
  sv_key_io :: "nat \<times> bool"
  sv_key_file :: key_file
  sv_chmod_ok :: "string \<Rightarrow> bool"
  sv_files :: "string \<rightharpoonup> file_meta"
  sv_bind :: "nat \<Rightarrow> socket_addr \<Rightarrow> io_error_kind + socket_addr option"

record started =
  sr_settings :: settings
  sr_keystore :: keystore
  sr_health :: keystore_health
  sr_peer_config :: peer_manager_config
  sr_store_config :: store_config
  sr_verify :: verify_config
  sr_p2p_listeners :: "socket_addr list"
  sr_listen_port :: nat
  sr_use_upnp :: bool
  sr_inbound_reachable :: bool
  sr_pcp_addr :: socket_addr
  sr_http_addr :: socket_addr
  sr_index_lan :: "index_lan_status option"
  sr_index_addr :: "socket_addr option"
  sr_logged :: "(security_category \<times> string \<times> string) list"

text \<open>The loop over the P2P addresses: those that could be bound, and the actual addresses that are known.\<close>

fun bind_all :: "(nat \<Rightarrow> socket_addr \<Rightarrow> io_error_kind + socket_addr option) \<Rightarrow> nat \<Rightarrow> socket_addr list \<Rightarrow> socket_addr list \<times> socket_addr list" where
  "bind_all bind i [] = ([], [])"
| "bind_all bind i (a # as) = (case bind_all bind (Suc i) as of (listeners, bound) \<Rightarrow>
     case bind i a of
       Inl e \<Rightarrow> (listeners, bound)
     | Inr None \<Rightarrow> (a # listeners, bound)
     | Inr (Some b) \<Rightarrow> (a # listeners, b # bound))"

fun is_ipv4 :: "socket_addr \<Rightarrow> bool" where
  "is_ipv4 (SocketV4 os port) \<longleftrightarrow> True"
| "is_ipv4 (SocketV6 gs scope port) \<longleftrightarrow> False"

definition decide_initial :: "bool \<Rightarrow> bool \<Rightarrow> bool" where
  "decide_initial has_listener upnp_enabled \<longleftrightarrow> has_listener \<and> \<not> upnp_enabled"

definition announced_port :: "socket_addr list \<Rightarrow> nat" where
  "announced_port bound = (case bound of [] \<Rightarrow> 0 | a # _ \<Rightarrow> socket_port a)"

definition use_upnp :: "settings \<Rightarrow> socket_addr list \<Rightarrow> bool" where
  "use_upnp s bound \<longleftrightarrow> se_upnp_enabled s \<and> (\<exists>a \<in> set bound. is_ipv4 a)"

text \<open>One renewal of the port mapping. \<open>gateway\<close> is the answer of the search for a router, the function that
  asks it for a mapping of an external port to a local address; \<open>ip\<close> is the estimated local address.\<close>

definition try_map :: "(nat \<Rightarrow> socket_addr \<Rightarrow> bool) option \<Rightarrow> ip_addr option \<Rightarrow> nat \<Rightarrow> unit + unit" where
  "try_map gateway ip listen_port = (case gateway of None \<Rightarrow> Inl ()
   | Some add_port \<Rightarrow> (case ip of None \<Rightarrow> Inl ()
       | Some ip \<Rightarrow>
           let local_addr = (case ip of V4 os \<Rightarrow> SocketV4 os listen_port | V6 gs \<Rightarrow> SocketV6 gs 0 listen_port) in
           if add_port listen_port local_addr then Inr () else Inl ()))"

definition upnp_tick :: "(nat \<Rightarrow> socket_addr \<Rightarrow> bool) option \<Rightarrow> ip_addr option \<Rightarrow> nat \<Rightarrow> bool \<Rightarrow> bool" where
  "upnp_tick gateway ip listen_port reachable =
     (if listen_port = 0 then reachable else case try_map gateway ip listen_port of Inr _ \<Rightarrow> True | Inl _ \<Rightarrow> False)"

text \<open>The second listener, for the channel list: a failure is recorded and does not end the program.\<close>

definition index_lan_start :: "(socket_addr \<Rightarrow> io_error_kind + socket_addr option) \<Rightarrow> string \<Rightarrow> index_lan_status option \<times> socket_addr option" where
  "index_lan_start bind index_bind =
     (if index_bind = [] then (None, None)
      else case parse_socket_addr index_bind of
        Some addr \<Rightarrow> (case bind addr of
            Inr _ \<Rightarrow> (Some \<lparr>il_bind = index_bind, il_listening = True, il_error = None\<rparr>, Some addr)
          | Inl e \<Rightarrow> (Some \<lparr>il_bind = index_bind, il_listening = False, il_error = Some (index_bind_error_code e)\<rparr>, Some addr))
      | None \<Rightarrow> (Some \<lparr>il_bind = index_bind, il_listening = False, il_error = Some ''unknown''\<rparr>, None))"

definition exposure_log :: "settings \<Rightarrow> index_lan_status option \<Rightarrow> socket_addr option \<Rightarrow> (security_category \<times> string \<times> string) list" where
  "exposure_log s status addr = (case (status, addr) of
     (Some st, Some a) \<Rightarrow> if il_listening st \<and> \<not> is_loopback (to_canonical (socket_ip a))
        then [(IndexTxtLanExposed, se_index_bind s, ''index.txt is exposed to LAN'')] else []
   | _ \<Rightarrow> [])"

definition exit_with :: "nat \<Rightarrow> 'e + 'a \<Rightarrow> nat + 'a" where
  "exit_with code r = map_sum (\<lambda>_. code) id r"

text \<open>Steps 11 to 15b: the listeners, in the order in which they are bound.\<close>

definition bind_listeners ::
  "startup_env \<Rightarrow> settings \<Rightarrow> keystore \<Rightarrow> keystore_health \<Rightarrow> (security_category \<times> string \<times> string) list \<Rightarrow>
     socket_addr list \<Rightarrow> socket_addr \<Rightarrow> socket_addr \<Rightarrow> nat + started" where
  "bind_listeners env s ks health logged p2p http pcp =
     (case bind_all (sv_bind env) 0 p2p of (listeners, bound) \<Rightarrow>
      let n = length p2p in
      if p2p \<noteq> [] \<and> listeners = [] then Inl 1
      else and_then (exit_with 1 (sv_bind env n pcp)) (\<lambda>_.
        and_then (exit_with 1 (sv_bind env (n + 1) http)) (\<lambda>_.
        case index_lan_start (sv_bind env (n + 2)) (se_index_bind s) of (status, addr) \<Rightarrow>
        Inr \<lparr>sr_settings = s, sr_keystore = ks, sr_health = health,
          sr_peer_config = default_peer_manager_config\<lparr>outbound_target := se_p2p_outbound_target s, inbound_max := se_p2p_inbound_max s\<rparr>,
          sr_store_config = default_store_config\<lparr>freshness_window_sec := se_freshness_window_sec s, event_store_max := se_event_store_max s\<rparr>,
          sr_verify = \<lparr>max_clock_skew_sec = se_max_clock_skew_sec s, min_pow_bits = min (se_min_pow_bits s) 255\<rparr>,
          sr_p2p_listeners = listeners, sr_listen_port = announced_port bound, sr_use_upnp = use_upnp s bound,
          sr_inbound_reachable = decide_initial (listeners \<noteq> []) (use_upnp s bound), sr_pcp_addr = pcp, sr_http_addr = http,
          sr_index_lan = status, sr_index_addr = addr, sr_logged = logged @ exposure_log s status addr\<rparr>)))"

text \<open>\<open>None\<close> is the successful end after the help text.\<close>

definition run_start :: "startup_env \<Rightarrow> nat + started option" where
  "run_start env =
     (if ''--help'' \<in> set (sv_args env) \<or> ''-h'' \<in> set (sv_args env) then Inr None
      else and_then (exit_with 2 (cli_parse (sv_args env))) (\<lambda>overrides.
        and_then (exit_with 2 (ensure_data_dir (sv_platform env) (sv_lossy env) (sv_lookup env) (sv_create_ok env) (co_data_dir overrides))) (\<lambda>dir.
        and_then (exit_with 1 (sv_open_store env dir)) (\<lambda>d.
        let s = apply_overrides overrides (settings_load d) in
        and_then (exit_with 2 (settings_validate s)) (\<lambda>_.
        if \<not> sv_log_ok env dir then Inl 1
        else let has_encrypted = (\<exists>p \<in> set (list_personas d). is_current_scheme (sv_platform env) (ps_secret_enc p)) in
          and_then (exit_with 1 (snd (keystore_open (sv_platform env) (sv_key_fresh env) (sv_key_io env) has_encrypted (sv_key_file env)))) (\<lambda>(ks, init).
          let permission = enforce_permissions (sv_platform env) (sv_chmod_ok env) (sv_files env);
              health = health_evaluate (is_healthy (pr_check permission)) init
          in and_then (exit_with 2 (p2p_addr s)) (\<lambda>p2p.
             and_then (exit_with 2 (http_addr s)) (\<lambda>http.
             and_then (exit_with 2 (pcp_addr s)) (\<lambda>pcp.
             and_then (bind_listeners env s ks health (pr_logged permission) p2p http pcp) (\<lambda>st. Inr (Some st)))))))))))"

subsection \<open>Adapters\<close>

definition hub_sink :: "(event \<Rightarrow> 'v option) \<Rightarrow> 'v \<Rightarrow> event \<Rightarrow> nat \<Rightarrow> nat \<Rightarrow> 'v gossip_hub \<Rightarrow> 'v gossip_hub \<times> bool" where
  "hub_sink to_value null ev td ts h = (case hub_publish_local to_value null ev td ts h of (h', outcome) \<Rightarrow> (h', should_propagate outcome))"

fun state_text :: "channel_state \<Rightarrow> string" where
  "state_text ChAnnounced = ''announced''"
| "state_text ChUpdating = ''updating''"
| "state_text ChEnded = ''ended''"

definition announced_list :: "channel_registry \<Rightarrow> identity_manager \<Rightarrow> announced_summary list" where
  "announced_list r identity = map (\<lambda>ch. let cid = channel_id_hex (ac_channel_id ch) in
     \<lparr>an_channel_id = cid, an_name = ac_name ch, an_genre = ac_genre ch, an_description = ac_description ch, an_contact_url = ac_contact_url ch,
      an_bitrate_kbps = ac_bitrate_kbps ch, an_content_type = ac_content_type ch, an_tracker = unwrap_or [] (ac_tracker ch),
      an_listeners = ac_listeners ch, an_relays = ac_relays_cnt ch, an_started_at = ac_started_at ch, an_state = state_text (ac_state ch),
      an_persona_pubkey = persona_for_channel cid identity\<rparr>) (reg_snapshot r)"

definition status_adapter :: "'v gossip_hub \<Rightarrow> reachability_state \<Rightarrow> bool \<Rightarrow> bool \<Rightarrow> nat \<Rightarrow> node_status" where
  "status_adapter h reach inbound pcp max_skew = \<lparr>ns_pcp_listening = pcp, ns_established = established_counts h,
     ns_all_peers_unreachable = rs_all_unreachable reach, ns_clock_skew = clock_skew_status (clock_skew_samples h) (u64_as_i64 max_skew),
     ns_inbound_reachable = inbound\<rparr>"

subsection \<open>The tasks around the publishing engine\<close>

record wiring =
  wi_registry :: channel_registry
  wi_pending :: "channel_change list"
  wi_engine :: publish_engine
  wi_republish :: "channel_listing list"
  wi_recovery :: "channel_listing list"

definition wiring_new :: "publish_engine \<Rightarrow> wiring" where
  "wiring_new engine = \<lparr>wi_registry = registry_new, wi_pending = [], wi_engine = engine, wi_republish = [], wi_recovery = []\<rparr>"

definition live_listings :: "channel_registry \<Rightarrow> channel_listing list" where
  "live_listings r = map to_listing (filter (\<lambda>c. ac_state c \<noteq> ChEnded) (reg_snapshot r))"

fun bridge_recv :: "'k nostr \<Rightarrow> (bytes \<Rightarrow> 'k option) \<Rightarrow> nat \<times> nat \<Rightarrow> channel_change \<Rightarrow> publish_engine \<Rightarrow> publish_engine" where
  "bridge_recv ns kd nows (ChangeAnnounced c) e = fst (publish_listing ns kd nows (to_listing c) e)"
| "bridge_recv ns kd nows (ChangeUpdated c) e = fst (publish_listing ns kd nows (to_listing c) e)"
| "bridge_recv ns kd nows (ChangeEnded c) e = fst (publish_ended ns kd (fst nows) (to_listing c) e)"

datatype wiring_step =
  Registry registry_op | BridgeRecv "nat \<times> nat" | BridgeLagged nat | RepublishTick | RepublishNext "nat \<times> nat"
| Recovered | RecoveryNext "nat \<times> nat"

text \<open>A tick or a recovery only starts a pass when the former one is finished.\<close>

fun wiring_run :: "'k nostr \<Rightarrow> (bytes \<Rightarrow> 'k option) \<Rightarrow> wiring_step \<Rightarrow> wiring \<Rightarrow> wiring" where
  "wiring_run ns kd (Registry x) w = (let r = registry_step x (wi_registry w) in
     w\<lparr>wi_registry := r, wi_pending := wi_pending w @ drop (length (reg_sent (wi_registry w))) (reg_sent r)\<rparr>)"
| "wiring_run ns kd (BridgeRecv nows) w = (case wi_pending w of [] \<Rightarrow> w
     | ch # rest \<Rightarrow> w\<lparr>wi_pending := rest, wi_engine := bridge_recv ns kd nows ch (wi_engine w)\<rparr>)"
| "wiring_run ns kd (BridgeLagged n) w = w\<lparr>wi_pending := drop n (wi_pending w)\<rparr>"
| "wiring_run ns kd RepublishTick w = (if wi_republish w = [] then w\<lparr>wi_republish := live_listings (wi_registry w)\<rparr> else w)"
| "wiring_run ns kd (RepublishNext nows) w = (case wi_republish w of [] \<Rightarrow> w
     | l # ls \<Rightarrow> w\<lparr>wi_republish := ls, wi_engine := fst (publish_listing ns kd nows l (wi_engine w))\<rparr>)"
| "wiring_run ns kd Recovered w = (if wi_recovery w = [] then w\<lparr>wi_recovery := live_listings (wi_registry w)\<rparr> else w)"
| "wiring_run ns kd (RecoveryNext nows) w = (case wi_recovery w of [] \<Rightarrow> w
     | l # ls \<Rightarrow> w\<lparr>wi_recovery := ls, wi_engine := fst (publish_listing ns kd nows l (wi_engine w))\<rparr>)"

end
