(* ===== verification/Web_Safety.thy ===== *)
theory Web_Safety
  imports Web_Api Event_Publish
begin

text \<open>
  What the local HTTP service guarantees: which requests can change anything, what they can do to
  settings and to the selected persona, what the listener on the local network can reveal, and the
  behaviour of the bulk registration of peers and of the clock diagnosis.

  The effect of every request on the shared state is one of four kinds (\<open>web_effect\<close>); the properties
  that hold over runs of requests are shown on these kinds.
\<close>

subsection \<open>Effects of a request\<close>

text \<open>Parts of the state that no request changes, and the parts that only limiters and log use.\<close>

definition same_service :: "app_state \<Rightarrow> app_state \<Rightarrow> bool" where
  "same_service st st' \<longleftrightarrow> as_token st' = as_token st \<and> as_allowed_hosts st' = as_allowed_hosts st \<and>
     as_broadcast st' = as_broadcast st \<and> as_index_lan st' = as_index_lan st"

definition safe_update :: "identity_manager \<Rightarrow> identity_manager \<Rightarrow> bool" where
  "safe_update m m' \<longleftrightarrow> im_broadcast m' = im_broadcast m \<and>
     (\<forall>pk. is_broadcasting (im_broadcast m) \<and> selected m = Some pk \<longrightarrow> selected m' = Some pk) \<and>
     (\<forall>k. k \<noteq> SELECTED_PERSONA_KEY \<longrightarrow> get_setting k (im_db m') = get_setting k (im_db m))"

lemma safe_update_refl [simp]: "safe_update m m"
  by (simp add: safe_update_def)

lemma safe_update_trans: "safe_update m m' \<Longrightarrow> safe_update m' m'' \<Longrightarrow> safe_update m m''"
  by (simp add: safe_update_def)

lemma get_setting_other: "k \<noteq> k' \<Longrightarrow> get_setting k (set_setting k' v d) = get_setting k d"
  by (simp add: get_setting_def set_setting_def update_conv')

lemma methods_other_settings:
  assumes "k \<noteq> SELECTED_PERSONA_KEY"
  shows "get_setting k (im_db (fst (set_label pk label m))) = get_setting k (im_db m)"
    "get_setting k (im_db (fst (set_state pk st m))) = get_setting k (im_db m)"
    "get_setting k (im_db (fst (select_persona pk m))) = get_setting k (im_db m)"
    "get_setting k (im_db (fst (delete_persona pk m))) = get_setting k (im_db m)"
    "get_setting k (im_db (fst (assign_channel c pk m))) = get_setting k (im_db m)"
proof -
  have "get_setting k (im_db (fst (store_state pk st m))) = get_setting k (im_db m)" for st by (simp add: method_db)
  then show "get_setting k (im_db (fst (set_state pk st m))) = get_setting k (im_db m)"
    by (simp add: set_state_def guard_selected_mutation_def)
  have d: "get_setting k (fst (delete_persona_row pk (im_db m))) = get_setting k (im_db m)" by simp
  show "get_setting k (im_db (fst (delete_persona pk m))) = get_setting k (im_db m)"
    using d by (simp add: delete_persona_def delete_guarded_def guard_selected_mutation_def split_beta)
qed (use assms in \<open>auto simp: method_db select_persona_def select_commit_def guard_selected_mutation_def get_setting_other untouched_db
  split: option.splits\<close>)

lemma methods_safe:
  "safe_update m (fst (set_label pk label m))" "safe_update m (fst (set_state pk st m))" "safe_update m (fst (select_persona pk m))"
  "safe_update m (fst (delete_persona pk m))" "safe_update m (fst (assign_channel c pk m))"
  by (simp_all add: safe_update_def identity_methods_broadcast method_frozen methods_other_settings)

lemma create_safe: "safe_update m (fst (identity_create now rowid nonce keys label m))"
proof -
  have i: "safe_update m (m\<lparr>im_db := fst (insert_persona now rowid pk enc label (im_db m))\<rparr>)" for pk enc
    by (simp add: safe_update_def method_frozen)
  show ?thesis
    using create_result [of now rowid nonce keys label m] i safe_update_trans [OF i methods_safe(3)] by auto
qed

lemma persona_call_safe: "(\<And>m. safe_update m (fst (f m))) \<Longrightarrow> safe_update m (fst (persona_call f m))"
  by (simp add: persona_call_def split_beta)

lemma run_persona_ops_safe:
  "(\<And>f m. f \<in> set fl \<Longrightarrow> safe_update m (fst (f m))) \<Longrightarrow> safe_update m (fst (run_persona_ops fl m))"
proof (induction fl arbitrary: m)
  case (Cons f fl)
  obtain m' r where r: "f m = (m', r)" by fastforce
  have "safe_update m m'" using Cons.prems [of f m] r by simp
  moreover have "safe_update m' (fst (run_persona_ops fl m'))" using Cons by simp
  ultimately show ?case using r by (auto split: sum.splits intro: safe_update_trans)
qed simp

lemma update_persona_safe: "safe_update m (fst (run_persona_ops (update_persona_ops pk req) m))"
  by (rule run_persona_ops_safe)
    (auto simp: update_persona_ops_def persona_skip_def methods_safe intro!: persona_call_safe split: option.splits if_splits)

text \<open>The kinds of effect of a handler on the database and the identity manager.\<close>

inductive web_effect :: "request_parsers \<Rightarrow> app_state \<Rightarrow> app_state \<Rightarrow> bool" for ps where
  eff_none: "as_db st' = as_db st \<Longrightarrow> as_identity st' = as_identity st \<Longrightarrow> same_service st st' \<Longrightarrow> web_effect ps st st'"
| eff_rows: "db_personas (as_db st') = db_personas (as_db st) \<Longrightarrow> db_settings (as_db st') = db_settings (as_db st) \<Longrightarrow>
    as_identity st' = as_identity st \<Longrightarrow> same_service st st' \<Longrightarrow> web_effect ps st st'"
| eff_settings: "as_db st' = settings_save (apply_to u (settings_load (as_db st))) (as_db st) \<Longrightarrow> rp_settings ps body = Some u \<Longrightarrow>
    settings_validate (apply_to u (settings_load (as_db st))) = Inr () \<Longrightarrow>
    as_identity st' = as_identity st \<Longrightarrow> same_service st st' \<Longrightarrow> web_effect ps st st'"
| eff_identity: "identity_of st = Some m \<Longrightarrow> safe_update m m' \<Longrightarrow> as_db st' = im_db m' \<Longrightarrow> as_identity st' = Some m' \<Longrightarrow>
    same_service st st' \<Longrightarrow> web_effect ps st st'"

lemma effect_limiter: "web_effect ps (st\<lparr>as_rate_limiter := l\<rparr>) st' \<Longrightarrow> web_effect ps st st'"
  by (erule web_effect.cases) (auto simp: same_service_def identity_of_def intro: web_effect.intros)

lemma effect_id [simp]: "web_effect ps st st"
  by (rule eff_none) (simp_all add: same_service_def)

lemma effect_identity: "identity_of st = Some m \<Longrightarrow> safe_update m m' \<Longrightarrow> web_effect ps st (put_identity m' st)"
  by (erule eff_identity) (simp_all add: put_identity_def same_service_def)

lemma effect_rows: "db_personas d = db_personas (as_db st) \<Longrightarrow> db_settings d = db_settings (as_db st) \<Longrightarrow> web_effect ps st (st\<lparr>as_db := d\<rparr>)"
  by (rule eff_rows) (simp_all add: same_service_def)

lemma store_rows:
  "db_personas (fst (insert_mute now rowid k v d)) = db_personas d" "db_settings (fst (insert_mute now rowid k v d)) = db_settings d"
  "db_personas (fst (delete_mute i d)) = db_personas d" "db_settings (fst (delete_mute i d)) = db_settings d"
  "db_personas (fst (upsert_peer now rowid a src d)) = db_personas d" "db_settings (fst (upsert_peer now rowid a src d)) = db_settings d"
  "db_personas (fst (set_peer_enabled a b d)) = db_personas d" "db_settings (fst (set_peer_enabled a b d)) = db_settings d"
  "db_personas (fst (delete_peer a d)) = db_personas d" "db_settings (fst (delete_peer a d)) = db_settings d"
  by (simp_all add: insert_mute_def delete_mute_def upsert_peer_def enforce_peer_limit_def set_peer_enabled_def update_peers_def
      delete_peer_def sql_update_def sql_delete_def Let_def split: option.splits)

lemma bulk_loop_rows:
  "db_personas (fst (bulk_loop now rowid i raws d)) = db_personas d \<and> db_settings (fst (bulk_loop now rowid i raws d)) = db_settings d"
proof (induction raws arbitrary: i d)
  case (Cons raw raws)
  have u: "db_personas d1 = db_personas d \<and> db_settings d1 = db_settings d" if "upsert_peer n r a Manual d = (d1, x)" for n r a d1 x
    using store_rows(5,6) [of n r a Manual d] that by simp
  show ?case using Cons.IH by (auto split: sum.splits prod.splits dest!: u) (metis fst_conv)+
qed simp

lemma add_mute_effect: "web_effect ps st (fst (web_add_mute env body st))"
proof -
  have "web_effect ps st (st\<lparr>as_db := d\<rparr>)" if "insert_mute n r k v (as_db st) = (d, x)" for n r k v d x
    using store_rows(1,2) [of n r k v "as_db st"] that by (intro effect_rows) simp_all
  then show ?thesis by (auto simp: web_add_mute_def split: option.splits prod.splits sum.splits)
qed

lemma row_effects:
  "web_effect ps st (fst (web_delete_mute i st))" "web_effect ps st (fst (bulk_add env body st))"
  "web_effect ps st (fst (web_set_enabled qs i body st))" "web_effect ps st (fst (web_delete_peer i st))"
  by (auto simp: web_delete_mute_def bulk_add_def web_set_enabled_def web_delete_peer_def store_rows bulk_loop_rows split_beta
      intro!: effect_rows split: option.splits)

lemma put_settings_effect: "web_effect ps st (fst (put_settings ps body st))"
  by (auto simp: put_settings_def Let_def same_service_def split: option.splits sum.splits intro: eff_settings)

lemma identity_effects:
  "web_effect ps st (fst (web_create_persona env body st))" "web_effect ps st (fst (web_update_persona qs pk body st))"
  "web_effect ps st (fst (web_delete_persona pk params st))" "web_effect ps st (fst (export_persona env pk body st))"
proof -
  have c: "web_effect ps st (put_identity m' st)"
    if "identity_of st = Some m" "identity_create n r nonce keys label m = (m', x)" for m n r nonce keys label m' x
    using create_safe [of m n r nonce keys label] that by (intro effect_identity) simp_all
  have u: "web_effect ps st (put_identity m' st)"
    if "identity_of st = Some m" "run_persona_ops (update_persona_ops pk req) m = (m', x)" for m req m' x
    using update_persona_safe [of m pk req] that by (intro effect_identity) simp_all
  have d: "web_effect ps st (put_identity m' st)" if "identity_of st = Some m" "delete_persona pk m = (m', x)" for m m' x
    using methods_safe(4) [of m pk] that by (intro effect_identity) simp_all
  show "web_effect ps st (fst (web_create_persona env body st))" using c
    by (auto simp: web_create_persona_def split: option.splits prod.splits sum.splits)
  show "web_effect ps st (fst (web_update_persona qs pk body st))" using u
    by (auto simp: web_update_persona_def split: option.splits prod.splits sum.splits)
  show "web_effect ps st (fst (web_delete_persona pk params st))" using d
    by (auto simp: web_delete_persona_def split: option.splits prod.splits sum.splits)
  show "web_effect ps st (fst (export_persona env pk body st))"
    by (auto simp: export_persona_def split: option.splits sum.splits)
qed

lemma change_effect: "change_route env m r query body = Some h \<Longrightarrow> web_effect (en_parsers env) st (fst (h st))"
  by (auto simp: change_route_def Let_def add_mute_effect row_effects put_settings_effect identity_effects
      split: http_method.splits api_route.splits option.splits)

text \<open>Reading requests change nothing.\<close>

lemma get_no_effect: "get_route env r = Some h \<Longrightarrow> fst (h st) = st"
  by (auto simp: get_route_def token_handler_def get_settings_def list_channels_def web_list_mutes_def web_list_peers_def export_peers_def
      web_list_personas_def get_announced_def get_status_def Let_def split: api_route.splits option.splits)

lemma dispatch_effect: "web_effect (en_parsers env) st (fst (api_dispatch env req r body st))"
  using get_no_effect [of env r _ st] change_effect [of env "rq_method req" r "rq_query req" body _ st]
  by (auto simp: api_dispatch_def api_not_found_def split_beta split: option.splits)

text \<open>The layers in closed form: a request is refused with nothing but the limiter and the log changed,
  or it satisfies the conditions of all four layers and the handler runs.\<close>

definition admissible :: "nat \<Rightarrow> http_request \<Rightarrow> app_state \<Rightarrow> bool" where
  "admissible now req st \<longleftrightarrow> (\<exists>h. header_str ''host'' req = Some h \<and> h \<in> as_allowed_hosts st) \<and>
     snd (limiter_check now (unwrap_or LOCALHOST (rq_peer_ip req)) (as_rate_limiter st)) \<and>
     (needs_token (rq_method req) \<longrightarrow> header_str ''x-api-token'' req = Some (as_token st)) \<and>
     (\<exists>b. rq_body req = Some b \<and> length b \<le> MAX_BODY_BYTES)"

lemma layers_admissible:
  assumes "admissible now req st"
  shows "api_layers now req inner st = inner (the (rq_body req))
    (st\<lparr>as_rate_limiter := fst (limiter_check now (unwrap_or LOCALHOST (rq_peer_ip req)) (as_rate_limiter st))\<rparr>)"
  using assms by (auto simp: admissible_def api_layers_def host_guard_def rate_limit_def require_token_def body_limit_def Let_def split_beta)

lemma layers_refused:
  assumes "\<not> admissible now req st"
  shows "as_db (fst (api_layers now req inner st)) = as_db st" "as_identity (fst (api_layers now req inner st)) = as_identity st"
    "same_service st (fst (api_layers now req inner st))"
    "\<exists>code. snd (api_layers now req inner st) \<in> {error_response 403 code, error_response 429 code, error_response 401 code, error_response 413 code}"
  using assms
  by (auto simp: admissible_def api_layers_def host_guard_def rate_limit_def require_token_def body_limit_def log_call_def same_service_def
      Let_def split_beta split: option.splits)

lemma index_no_effect:
  "as_db (fst (index_routes sj now dir req st)) = as_db st" "as_identity (fst (index_routes sj now dir req st)) = as_identity st"
  "same_service st (fst (index_routes sj now dir req st))"
  by (auto simp: index_routes_def index_handler_def log_call_def same_service_def Let_def split_beta)

lemma web_router_effect: "web_effect (en_parsers env) st (fst (web_router html sj env now req st))"
proof (cases "rq_route req")
  case (RouteApi r)
  show ?thesis
  proof (cases "admissible now req st")
    case True
    then show ?thesis using RouteApi effect_limiter [OF dispatch_effect]
      by (simp add: web_router_def api_router_def layers_admissible)
  next
    case False
    then show ?thesis using RouteApi by (auto simp: web_router_def api_router_def layers_refused intro: eff_none)
  qed
qed (auto simp: web_router_def index_no_effect static_handler_def intro: eff_none)

subsection \<open>Who can change anything\<close>

definition gives_secret :: "http_response \<Rightarrow> bool" where
  "gives_secret resp \<longleftrightarrow> (\<exists>n w. rs_body resp = JsonBody (JObj [(''nsec'', n), w]))"

lemma get_gives_no_secret: "get_route env r = Some h \<Longrightarrow> \<not> gives_secret (snd (h st))"
  by (auto simp: gives_secret_def get_route_def token_handler_def get_settings_def list_channels_def web_list_mutes_def web_list_peers_def
      export_peers_def web_list_personas_def get_announced_def get_status_def json_ok_def no_identity_def error_response_def settings_to_json_def
      Let_def split: api_route.splits option.splits)

lemma refusals_give_no_secret [simp]:
  "\<not> gives_secret (error_response n code)" "\<not> gives_secret method_not_allowed"
  by (auto simp: gives_secret_def error_response_def method_not_allowed_def)

lemma without_body_secret: "\<not> gives_secret resp \<Longrightarrow> \<not> gives_secret (without_body m resp)"
  by (auto simp: gives_secret_def without_body_def)

lemma index_gives_no_secret: "\<not> gives_secret (snd (index_routes sj now dir req st))"
  by (auto simp: gives_secret_def index_routes_def index_handler_def error_response_def method_not_allowed_def Let_def split_beta split: if_splits)

lemma static_no_effect: "fst (static_handler html req st) = st" "\<not> gives_secret (snd (static_handler html req st))"
  by (auto simp: static_handler_def gives_secret_def Let_def)

lemma dispatch_reading:
  assumes "reads (rq_method req) \<or> r = RouteApiUnknown"
  shows "fst (api_dispatch env req r body st) = st" "\<not> gives_secret (snd (api_dispatch env req r body st))"
  using assms get_no_effect [of env r _ st] get_gives_no_secret [of env r _ st]
  by (auto simp: api_dispatch_def api_not_found_def split_beta without_body_secret split: option.splits)

text \<open>C4: Nothing of the node can be changed, and no secret key leaves it, through the HTTP service without
  the session token. Whatever the request and whatever the state, if the response carries a secret key
  or the database or the identity manager is different afterwards, then the request was sent to
  the API with a host name of the loopback whitelist, with the session token of this run, with a
  changing method, a body of at most 64 KB and within the rate limit; requests for pages and for the
  channel list and all reading requests change nothing.\<close>

theorem api_change_authorised:
  assumes "web_router html sj env now req st = (st', resp)"
    and "as_db st' \<noteq> as_db st \<or> identity_of st' \<noteq> identity_of st \<or> gives_secret resp"
  shows "(\<exists>r. rq_route req = RouteApi r) \<and> (\<exists>h. header_str ''host'' req = Some h \<and> h \<in> as_allowed_hosts st) \<and>
    header_str ''x-api-token'' req = Some (as_token st) \<and> rq_method req \<in> {HttpPost, HttpPut, HttpDelete} \<and>
    (\<exists>b. rq_body req = Some b \<and> length b \<le> 65536) \<and>
    snd (limiter_check now (unwrap_or LOCALHOST (rq_peer_ip req)) (as_rate_limiter st))"
proof -
  have st': "st' = fst (web_router html sj env now req st)" "resp = snd (web_router html sj env now req st)" using assms(1) by simp_all
  obtain r where r: "rq_route req = RouteApi r"
    using assms(2) unfolding st'
    by (cases "rq_route req") (auto simp: web_router_def identity_of_def index_no_effect index_gives_no_secret static_no_effect)
  have adm: "admissible now req st"
  proof (rule ccontr)
    assume n: "\<not> admissible now req st"
    note l = layers_refused [OF n, of "api_dispatch env req r"]
    have "\<not> gives_secret (snd (api_layers now req (api_dispatch env req r) st))" using l(4) by fastforce
    moreover have "web_router html sj env now req st = api_layers now req (api_dispatch env req r) st"
      using r by (simp add: web_router_def api_router_def)
    ultimately show False using assms(2) l(1,2) unfolding st' by (simp add: identity_of_def)
  qed
  let ?st = "st\<lparr>as_rate_limiter := fst (limiter_check now (unwrap_or LOCALHOST (rq_peer_ip req)) (as_rate_limiter st))\<rparr>"
  have d: "(st', resp) = api_dispatch env req r (the (rq_body req)) ?st"
    using assms(1) r layers_admissible [OF adm] by (simp add: web_router_def api_router_def)
  have "\<not> reads (rq_method req)" "r \<noteq> RouteApiUnknown"
    using assms(2) dispatch_reading [of req r env "the (rq_body req)" ?st] d [symmetric] by (auto simp: identity_of_def)
  then have "change_route env (rq_method req) r (rq_query req) (the (rq_body req)) \<noteq> None"
    using assms(2) d [symmetric] by (auto simp: api_dispatch_def identity_of_def split: option.splits)
  then have "rq_method req \<in> {HttpPost, HttpPut, HttpDelete}"
    by (auto simp: change_route_def Let_def split: http_method.splits api_route.splits option.splits)
  then show ?thesis using r adm by (auto simp: admissible_def needs_token_def MAX_BODY_BYTES_def)
qed

subsection \<open>Runs of requests\<close>

fun web_run :: "(string \<Rightarrow> string) \<Rightarrow> sjis \<Rightarrow> ('k api_env \<times> nat \<times> http_request) list \<Rightarrow> app_state \<Rightarrow> app_state" where
  "web_run html sj [] st = st"
| "web_run html sj (c # calls) st =
     web_run html sj calls (fst (web_router html sj (fst c) (fst (snd c)) (snd (snd c)) st))"

text \<open>The numbers of a settings update are of the types \<open>u32\<close> and \<open>u64\<close>.\<close>

definition update_typed :: "settings_update \<Rightarrow> bool" where
  "update_typed u \<longleftrightarrow> (\<forall>v \<in> {su_p2p_outbound_target u, su_p2p_inbound_max u, su_min_pow_bits u}. pred_option (\<lambda>n. n \<le> u32_max) v) \<and>
     (\<forall>v \<in> {su_freshness_window_sec u, su_republish_interval_sec u, su_max_clock_skew_sec u, su_event_store_max u}.
        pred_option (\<lambda>n. n \<le> u64_max) v)"

definition parsers_typed :: "request_parsers \<Rightarrow> bool" where
  "parsers_typed ps \<longleftrightarrow> (\<forall>body u. rp_settings ps body = Some u \<longrightarrow> update_typed u)"

lemma parse_or_le: "dflt \<le> hi \<Longrightarrow> parse_or hi stored key dflt \<le> hi"
  by (auto simp: parse_or_def unwrap_or_def bind_eq_Some_conv intro: parse_uint_le split: option.splits)

lemma settings_load_wf: "settings_wf (settings_load d)"
  by (auto simp: settings_wf_def settings_load_def Let_def settings_default_def u32_max_def u64_max_def DEFAULT_P2P_OUTBOUND_TARGET_def
      DEFAULT_P2P_INBOUND_MAX_def DEFAULT_MIN_POW_BITS_def Config_Settings.DEFAULT_FRESHNESS_WINDOW_SEC_def DEFAULT_REPUBLISH_INTERVAL_SEC_def
      Config_Settings.DEFAULT_MAX_CLOCK_SKEW_SEC_def Config_Settings.DEFAULT_EVENT_STORE_MAX_def intro!: parse_or_le)

lemma apply_to_wf: "settings_wf s \<Longrightarrow> update_typed u \<Longrightarrow> settings_wf (apply_to u s)"
  by (auto simp: settings_wf_def apply_to_def update_typed_def unwrap_or_def split: option.splits)

lemma settings_load_cong:
  assumes "\<And>k. k \<noteq> SELECTED_PERSONA_KEY \<Longrightarrow> get_setting k d' = get_setting k d"
  shows "settings_load d' = settings_load d"
proof -
  have "map_of (all_settings d') k = map_of (all_settings d) k" if "k \<in> set (map fst (settings_rows settings_default))" for k
  proof -
    have "k \<noteq> SELECTED_PERSONA_KEY" using that by (auto simp: settings_rows_def key_defs SELECTED_PERSONA_KEY_def)
    with assms show ?thesis by (simp add: all_settings_def get_setting_def)
  qed
  then show ?thesis by (simp add: settings_load_def Let_def parse_or_def parse_bool_or_def settings_rows_def)
qed

lemma effect_settings_valid:
  assumes "web_effect ps st st'" "parsers_typed ps" "settings_validate (settings_load (as_db st)) = Inr ()"
  shows "settings_validate (settings_load (as_db st')) = Inr ()"
  using assms(1)
proof cases
  case eff_rows
  then have "settings_load (as_db st') = settings_load (as_db st)" by (intro settings_load_cong) (simp add: get_setting_def)
  with assms(3) show ?thesis by simp
next
  case (eff_settings u body)
  then have "settings_wf (apply_to u (settings_load (as_db st)))"
    using assms(2) by (intro apply_to_wf settings_load_wf) (auto simp: parsers_typed_def)
  with eff_settings show ?thesis by (simp add: load_saved)
next
  case (eff_identity m m')
  then have "as_db st = im_db m" by (auto simp: identity_of_def)
  then have "settings_load (as_db st') = settings_load (as_db st)"
    using eff_identity by (intro settings_load_cong) (simp add: safe_update_def)
  with assms(3) show ?thesis by simp
qed (use assms(3) in simp)

text \<open>C8: No sequence of HTTP requests can bind a local service to the network. If the stored settings are
  valid (the PCP and HTTP services on loopback, the channel list on loopback or private addresses, a
  known encoding), they are valid after any requests, in any order, whoever sends them.\<close>

theorem settings_stay_valid:
  assumes "settings_validate (settings_load (as_db st)) = Inr ()" and "\<forall>c \<in> set calls. parsers_typed (en_parsers (fst c))"
  shows "settings_validate (settings_load (as_db (web_run html sj calls st))) = Inr ()"
  using assms
proof (induction calls arbitrary: st)
  case (Cons c calls)
  then show ?case using effect_settings_valid [OF web_router_effect [of "fst c"]] by simp
qed simp

lemma saved_personas: "db_personas (settings_save s d) = db_personas d"
proof -
  have "db_personas (fold (\<lambda>(k, v). set_setting k v) rows d) = db_personas d" for rows
    by (induction rows arbitrary: d) (auto simp: set_setting_def)
  then show ?thesis by (simp add: settings_save_def)
qed

lemma saved_selection: "get_setting SELECTED_PERSONA_KEY (settings_save s d) = get_setting SELECTED_PERSONA_KEY d"
  by (simp add: get_saved settings_rows_def key_defs SELECTED_PERSONA_KEY_def)

lemma selected_cong:
  assumes "db_personas d = db_personas (im_db m)" "get_setting SELECTED_PERSONA_KEY d = get_setting SELECTED_PERSONA_KEY (im_db m)"
  shows "selected (m\<lparr>im_db := d\<rparr>) = selected m"
  using assms by (cases "get_setting SELECTED_PERSONA_KEY (im_db m)") (simp_all add: selected_core persona_core_def get_persona_by_pubkey_def split: option.split)

lemma effect_selected:
  assumes "web_effect ps st st'" "identity_of st = Some m" "is_broadcasting (im_broadcast m)" "selected m = Some pk"
  obtains m' where "identity_of st' = Some m'" "im_broadcast m' = im_broadcast m" "selected m' = Some pk"
  using assms(1)
proof cases
  case eff_none
  then show ?thesis using assms that by (simp add: identity_of_def)
next
  case eff_rows
  obtain m0 where m: "as_identity st = Some m0" "m = m0\<lparr>im_db := as_db st\<rparr>" using assms(2) by (auto simp: identity_of_def)
  have "selected (m\<lparr>im_db := as_db st'\<rparr>) = selected m" using eff_rows m by (intro selected_cong) (simp_all add: get_setting_def)
  then show ?thesis using eff_rows m assms(4) by (intro that [of "m\<lparr>im_db := as_db st'\<rparr>"]) (simp_all add: identity_of_def)
next
  case (eff_settings u body)
  obtain m0 where m: "as_identity st = Some m0" "m = m0\<lparr>im_db := as_db st\<rparr>" using assms(2) by (auto simp: identity_of_def)
  have "selected (m\<lparr>im_db := as_db st'\<rparr>) = selected m"
    using eff_settings m by (intro selected_cong) (simp_all add: saved_personas saved_selection)
  then show ?thesis using eff_settings m assms(4) by (intro that [of "m\<lparr>im_db := as_db st'\<rparr>"]) (simp_all add: identity_of_def)
next
  case (eff_identity m1 m')
  then show ?thesis using assms by (intro that [of m']) (auto simp: identity_of_def safe_update_def)
qed

text \<open>C19: The HTTP service cannot change the persona under which the node is broadcasting. While a channel
  is on the air and a persona is selected, no sequence of requests, not even authorised ones
  that archive, delete or select personas or rewrite the settings, changes the selection.\<close>

theorem web_keeps_selection_on_air:
  assumes "identity_of st = Some m" and "is_broadcasting (im_broadcast m)" and "selected m = Some pk"
  shows "\<exists>m'. identity_of (web_run html sj calls st) = Some m' \<and> selected m' = Some pk"
  using assms
proof (induction calls arbitrary: st m)
  case (Cons c calls)
  obtain m' where "identity_of (fst (web_router html sj (fst c) (fst (snd c)) (snd (snd c)) st)) = Some m'"
    "im_broadcast m' = im_broadcast m" "selected m' = Some pk"
    using effect_selected [OF web_router_effect Cons.prems] by metis
  then show ?case using Cons.IH [of _ m'] Cons.prems(2) by simp
qed simp

subsection \<open>The listener on the local network\<close>

text \<open>C30: The second listener reveals the channel list and nothing else. Its responses depend only on the
  request, the channel list, the stored encoding and its own rate limiter: two nodes that agree on these
  answer alike, whatever personas, peers, settings and tokens they have. A response with content is a
  channel list, and a request changes only the limiter and the log.\<close>

theorem lan_listener_isolated:
  assumes "as_index_txt_rate_limiter st1 = as_index_txt_rate_limiter st2"
    and "index_encoding_of (settings_load (as_db st1)) = index_encoding_of (settings_load (as_db st2))"
  shows "snd (index_router sj now dir req st1) = snd (index_router sj now dir req st2) \<and>
    as_index_txt_rate_limiter (fst (index_router sj now dir req st1)) = as_index_txt_rate_limiter (fst (index_router sj now dir req st2)) \<and>
    fst (index_router sj now dir req st1) = st1\<lparr>as_index_txt_rate_limiter := as_index_txt_rate_limiter (fst (index_router sj now dir req st1)),
      as_logged := as_logged (fst (index_router sj now dir req st1))\<rparr> \<and>
    (rs_status (snd (index_router sj now dir req st1)) = 200 \<longrightarrow> rq_route req = RouteIndexTxt \<and>
       (\<exists>ct enc. rs_body (snd (index_router sj now dir req st1)) =
          TextBody ct (if rq_method req = HttpHead then [] else generate sj (unwrap_or [] dir) enc now)))"
proof (cases "rq_route req = RouteIndexTxt \<and> (rq_method req = HttpGet \<or> rq_method req = HttpHead)")
  case True
  show ?thesis using True assms
    by (auto simp: index_router_def index_routes_def index_handler_def log_call_def error_response_def Let_def split_beta split: if_splits)
next
  case False
  show ?thesis using False assms
    by (auto simp: index_router_def index_routes_def method_not_allowed_def error_response_def split: http_route.splits)
qed

subsection \<open>Settings by HTTP\<close>

lemma changed_keys:
  "set (changed_bind_keys old new) \<subseteq> {''pcp_bind'', ''http_bind'', ''p2p_bind'', ''index_bind''}"
  "''pcp_bind'' \<in> set (changed_bind_keys old new) \<longleftrightarrow> se_pcp_bind old \<noteq> se_pcp_bind new"
  "''http_bind'' \<in> set (changed_bind_keys old new) \<longleftrightarrow> se_http_bind old \<noteq> se_http_bind new"
  "''p2p_bind'' \<in> set (changed_bind_keys old new) \<longleftrightarrow> se_p2p_bind old \<noteq> se_p2p_bind new"
  "''index_bind'' \<in> set (changed_bind_keys old new) \<longleftrightarrow> se_index_bind old \<noteq> se_index_bind new"
  by (simp add: changed_bind_keys_def BIND_KEYS_def numeral_3_eq_3, blast) (simp_all add: changed_bind_keys_def BIND_KEYS_def numeral_3_eq_3)

text \<open>What a settings request does, on every branch. A body that is not a settings update is refused;
  an update whose result is not valid is refused with the code of the first violation; in both cases the
  state is unchanged. Otherwise the settings are stored completely: loading them gives exactly the
  updated settings, all other rows (such as the selected persona) stay, and the response asks for
  a restart exactly for the addresses that changed.\<close>

theorem put_settings_exact:
  assumes "parsers_typed ps"
  shows "case rp_settings ps body of
      None \<Rightarrow> put_settings ps body st = (st, error_response 400 ''invalid_request'')
    | Some u \<Rightarrow> (let old = settings_load (as_db st); new = apply_to u old in
        (case settings_validate new of
           Inl e \<Rightarrow> put_settings ps body st = (st, validation_error_response e)
         | Inr _ \<Rightarrow> \<exists>keys. snd (put_settings ps body st) = json_ok 200 (JObj [(''restart_required'', JBool (keys \<noteq> [])), (''restart_keys'', JArr (map JStr keys))]) \<and>
             set keys \<subseteq> {''pcp_bind'', ''http_bind'', ''p2p_bind'', ''index_bind''} \<and>
             (''pcp_bind'' \<in> set keys \<longleftrightarrow> se_pcp_bind old \<noteq> se_pcp_bind new) \<and> (''http_bind'' \<in> set keys \<longleftrightarrow> se_http_bind old \<noteq> se_http_bind new) \<and>
             (''p2p_bind'' \<in> set keys \<longleftrightarrow> se_p2p_bind old \<noteq> se_p2p_bind new) \<and> (''index_bind'' \<in> set keys \<longleftrightarrow> se_index_bind old \<noteq> se_index_bind new) \<and>
             settings_load (as_db (fst (put_settings ps body st))) = new \<and>
             (\<forall>k. k \<notin> set (map fst (settings_rows new)) \<longrightarrow>
                get_setting k (as_db (fst (put_settings ps body st))) = get_setting k (as_db st))))"
proof (cases "rp_settings ps body")
  case None
  then show ?thesis by (simp add: put_settings_def)
next
  case (Some u)
  let ?old = "settings_load (as_db st)" and ?new = "apply_to u (settings_load (as_db st))"
  have wf: "settings_wf ?new" using assms Some by (intro apply_to_wf settings_load_wf) (auto simp: parsers_typed_def)
  have other: "get_setting k (settings_save ?new (as_db st)) = get_setting k (as_db st)" if "k \<notin> set (map fst (settings_rows ?new))" for k
  proof -
    have "map_of (settings_rows ?new) k = None" using that by (simp add: map_of_eq_None_iff)
    then show ?thesis by (simp add: get_saved)
  qed
  show ?thesis
  proof (cases "settings_validate ?new")
    case (Inl e)
    then show ?thesis using Some by (simp add: put_settings_def Let_def)
  next
    case (Inr v)
    then show ?thesis using Some changed_keys [of ?old ?new] other load_saved [OF wf]
      by (simp add: put_settings_def Let_def) (rule exI [of _ "changed_bind_keys ?old ?new"], simp)
  qed
qed

subsection \<open>Bulk registration of peers\<close>

definition has_manual :: "db \<Rightarrow> string \<Rightarrow> bool" where
  "has_manual d a \<longleftrightarrow> (\<exists>p \<in> set (db_peers d). pe_addr p = a \<and> pe_source p = Manual)"

lemma query_in_keys: "peer_keys d \<Longrightarrow> p \<in> set (db_peers d) \<Longrightarrow> query_peer (pe_addr p) d = Some p"
proof -
  assume k: "peer_keys d" and p: "p \<in> set (db_peers d)"
  then obtain q where q: "query_peer (pe_addr p) d = Some q" using query_peer_None [of "pe_addr p" d] by fastforce
  then show ?thesis using k p query_peer_Some [OF q] by (auto simp: peer_keys_def distinct_map inj_on_def)
qed

lemma promoted_row:
  assumes "p \<in> set rows" "pe_addr p = a" "rows' = fst (sql_update (\<lambda>p. pe_addr p = a) (pe_source_update (\<lambda>_. Manual)) rows)"
  shows "p\<lparr>pe_source := Manual\<rparr> \<in> set rows'"
  using assms by (auto simp: sql_update_def image_iff intro!: bexI [of _ p])

lemma manual_kept:
  assumes "distinct (map pe_id (db_peers d))" "q \<in> set (db_peers d)" "pe_source q = Manual"
  shows "q \<in> set (db_peers (enforce_peer_limit d))"
proof -
  from enforce_peer_limit_rows [OF assms(1)] obtain vs
    where "db_peers (enforce_peer_limit d) = filter (\<lambda>p. p \<notin> set vs) (db_peers d)" "\<forall>v \<in> set vs. pe_source v \<noteq> Manual" by metis
  with assms show ?thesis by auto
qed

lemma upsert_manual:
  assumes inv: "peers_inv d" and ids: "ids_below (rowid, d)" and a: "a \<noteq> []" "length a \<le> ADDR_MAX_LEN"
  obtains d' p where "upsert_peer now rowid a Manual d = (d', Inr p)" "pe_addr p = a" "has_manual d' a" "\<And>b. has_manual d b \<Longrightarrow> has_manual d' b"
proof (cases "query_peer a d")
  case None
  define p where "p = \<lparr>pe_id = rowid, pe_addr = a, pe_source = Manual, pe_verified = False, pe_enabled = True, pe_added_at = now,
    pe_last_ok_at = None, pe_fail_count = 0, pe_resolved_ip = None\<rparr>"
  define d1 where "d1 = d\<lparr>db_peers := db_peers d @ [p]\<rparr>"
  have p: "pe_id p = rowid" "pe_addr p = a" "pe_source p = Manual" by (simp_all add: p_def)
  have d1: "db_peers d1 = db_peers d @ [p]" by (simp add: d1_def)
  have k: "peer_keys d1" using inv ids None p by (fastforce simp: d1 peers_inv_def peer_keys_def ids_below_def query_peer_None)
  have m: "q \<in> set (db_peers (enforce_peer_limit d1))" if "q \<in> set (db_peers d1)" "pe_source q = Manual" for q
    using manual_kept [OF _ that] k by (simp add: peer_keys_def)
  have "peer_keys (enforce_peer_limit d1)" using enforce_peer_limit_inv [OF k] by (simp add: peers_inv_def)
  with m [of p] have "query_peer a (enforce_peer_limit d1) = Some p" using query_in_keys p d1 by fastforce
  then have u: "upsert_peer now rowid a Manual d = (enforce_peer_limit d1, Inr p)" using None a by (simp add: upsert_peer_def Let_def d1_def p_def)
  have "has_manual (enforce_peer_limit d1) b" if "has_manual d b \<or> b = a" for b
    using that m p d1 by (auto simp: has_manual_def)
  then show ?thesis by (intro that [OF u p(2)]) simp_all
next
  case (Some q)
  have q: "q \<in> set (db_peers d)" "pe_addr q = a" using query_peer_Some [OF Some] by auto
  show ?thesis
  proof (cases "pe_source q = Manual")
    case True
    show ?thesis by (rule that [of d q]) (use True Some a q in \<open>auto simp: upsert_peer_def has_manual_def\<close>)
  next
    case False
    define rows where "rows = fst (sql_update (\<lambda>p. pe_addr p = a) (pe_source_update (\<lambda>_. Manual)) (db_peers d))"
    let ?d = "d\<lparr>db_peers := rows\<rparr>" and ?q = "q\<lparr>pe_source := Manual\<rparr>"
    have r: "?q \<in> set rows" by (rule promoted_row [OF q rows_def])
    have "peer_keys ?d" using update_peers_inv [OF inv, of "pe_source_update (\<lambda>_. Manual)" "\<lambda>p. pe_addr p = a"]
      by (simp add: peers_inv_def rows_def)
    with r have "query_peer a ?d = Some ?q" using query_in_keys [of ?d ?q] q by simp
    with False Some a have u: "upsert_peer now rowid a Manual d = (?d, Inr ?q)" by (simp add: upsert_peer_def Let_def rows_def)
    have keep: "has_manual ?d b" if hb: "has_manual d b" for b
    proof -
      from hb obtain p where p: "p \<in> set (db_peers d)" "pe_addr p = b" "pe_source p = Manual" unfolding has_manual_def by blast
      then have "(if pe_addr p = a then p\<lparr>pe_source := Manual\<rparr> else p) \<in> set rows" by (auto simp: rows_def sql_update_def)
      with p show ?thesis unfolding has_manual_def
        by (intro bexI [where x = "if pe_addr p = a then p\<lparr>pe_source := Manual\<rparr> else p"]) auto
    qed
    have "has_manual ?d a" unfolding has_manual_def using r q by (intro bexI [of _ ?q]) simp_all
    then show ?thesis by (intro that [OF u]) (use q keep in simp_all)
  qed
qed

lemma canonical_fits: "parse_addr raw = Inr p \<Longrightarrow> canonical p \<noteq> [] \<and> length (canonical p) \<le> ADDR_MAX_LEN"
proof (erule parse_addr_cases)
  fix gs port
  assume "wf_segments gs" "0 < port" "port \<le> 65535" "p = \<lparr>pa_host = show_ipv6 gs, pa_port = port, pa_is_ipv6 = True, pa_is_hostname = False\<rparr>"
  then show ?thesis using length_show_ipv6 [of gs] length_show_nat_le [of port 5] by (simp add: canonical_def ADDR_MAX_LEN_def)
next
  fix os port
  assume "wf_octets os" "0 < port" "port \<le> 65535" "p = \<lparr>pa_host = show_ipv4 os, pa_port = port, pa_is_ipv6 = False, pa_is_hostname = False\<rparr>"
  then show ?thesis using length_show_ipv4 [of os] length_show_nat_le [of port 5] by (simp add: canonical_def ADDR_MAX_LEN_def)
qed (simp add: canonical_def)

lemma bulk_loop_result:
  assumes "peers_inv d" "ids_below (rowid i, d)" "\<And>j. rowid j < rowid (Suc j)" "bulk_loop now rowid i raws d = (d', added, errors)"
  shows "map pe_addr added = List.map_filter (\<lambda>raw. case parse_addr raw of Inr p \<Rightarrow> Some (canonical p) | Inl e \<Rightarrow> None) raws"
    and "errors = map (\<lambda>raw. addr_error_json raw ''invalid_addr'') (filter (\<lambda>raw. isl (parse_addr raw)) raws)"
    and "peers_inv d'" and "\<And>a. has_manual d a \<Longrightarrow> has_manual d' a" and "\<And>row. row \<in> set added \<Longrightarrow> has_manual d' (pe_addr row)"
proof -
  have "map pe_addr added = List.map_filter (\<lambda>raw. case parse_addr raw of Inr p \<Rightarrow> Some (canonical p) | Inl e \<Rightarrow> None) raws \<and>
      errors = map (\<lambda>raw. addr_error_json raw ''invalid_addr'') (filter (\<lambda>raw. isl (parse_addr raw)) raws) \<and> peers_inv d' \<and>
      (\<forall>a. has_manual d a \<longrightarrow> has_manual d' a) \<and> (\<forall>row \<in> set added. has_manual d' (pe_addr row))"
    using assms
  proof (induction raws arbitrary: i d added errors)
    case (Cons raw raws)
    show ?case
    proof (cases "parse_addr raw")
      case (Inl e)
      then show ?thesis using Cons.prems Cons.IH [of d i] by (auto simp: List.map_filter_simps split: prod.splits)
    next
      case (Inr p)
      obtain d1 row where u: "upsert_peer (now i) (rowid i) (canonical p) Manual d = (d1, Inr row)" "pe_addr row = canonical p"
          "has_manual d1 (canonical p)" "\<And>b. has_manual d b \<Longrightarrow> has_manual d1 b"
        using upsert_manual [OF Cons.prems(1,2)] canonical_fits [OF Inr] by metis
      have inv: "peers_inv d1" using upsert_peer_inv [OF Cons.prems(1), of "rowid i" "now i" "canonical p" Manual] Cons.prems(2) u(1)
        by (simp add: ids_below_def)
      have "ids_below (rowid i + 1, d1)" using upsert_peer_ids [OF Cons.prems(2), of "now i" "canonical p" Manual] u(1) by simp
      then have ids: "ids_below (rowid (Suc i), d1)" using Cons.prems(3) [of i] by (force simp: ids_below_def)
      obtain d2 ad er where r2: "bulk_loop now rowid (Suc i) raws d1 = (d2, ad, er)" by (metis prod_cases3)
      with Inr u Cons.prems(4) have "d' = d2" "added = row # ad" "errors = er" by simp_all
      moreover from this r2 have rest: "bulk_loop now rowid (Suc i) raws d1 = (d', ad, er)" by simp
      ultimately show ?thesis using Cons.IH [OF inv ids Cons.prems(3) rest] Inr u by (auto simp: List.map_filter_simps)
    qed
  qed (simp add: List.map_filter_simps)
  then show "map pe_addr added = List.map_filter (\<lambda>raw. case parse_addr raw of Inr p \<Rightarrow> Some (canonical p) | Inl e \<Rightarrow> None) raws"
    "errors = map (\<lambda>raw. addr_error_json raw ''invalid_addr'') (filter (\<lambda>raw. isl (parse_addr raw)) raws)"
    "peers_inv d'" "\<And>a. has_manual d a \<Longrightarrow> has_manual d' a" "\<And>row. row \<in> set added \<Longrightarrow> has_manual d' (pe_addr row)"
    by auto
qed

text \<open>The bulk registration of peers. For a request with a list of addresses on a well-formed peer
  table, with new row identifiers: the response names, in order, the canonical form of every address that
  is valid and an error for every address that is not, nothing else; one bad address does not keep the
  others from being registered. Afterwards every named address is a manual peer, all manual peers
  that were there before still are, also when the table was full, and the table keeps its limit.\<close>

theorem bulk_add_complete:
  assumes "rp_addrs (en_parsers env) body = Some raws" and "peers_inv (as_db st)"
    and "\<forall>p \<in> set (db_peers (as_db st)). pe_id p < en_rowid env 0" and "\<forall>i. en_rowid env i < en_rowid env (Suc i)"
  shows "\<exists>d' added. bulk_add env body st = (st\<lparr>as_db := d'\<rparr>, json_ok 200 (JObj [(''added'', JArr (map peer_to_json added)),
      (''errors'', JArr (map (\<lambda>raw. addr_error_json raw ''invalid_addr'') (filter (\<lambda>raw. isl (parse_addr raw)) raws)))])) \<and>
    map pe_addr added = List.map_filter (\<lambda>raw. case parse_addr raw of Inr p \<Rightarrow> Some (canonical p) | Inl e \<Rightarrow> None) raws \<and>
    (\<forall>row \<in> set added. has_manual d' (pe_addr row)) \<and> (\<forall>a. has_manual (as_db st) a \<longrightarrow> has_manual d' a) \<and> peers_inv d'"
proof -
  obtain d' added errors where b: "bulk_loop (en_now env) (en_rowid env) 0 raws (as_db st) = (d', added, errors)" by (metis prod_cases3)
  have "ids_below (en_rowid env 0, as_db st)" using assms(3) by (simp add: ids_below_def)
  note r = bulk_loop_result [OF assms(2) this assms(4) [rule_format] b]
  show ?thesis using assms(1) b r by (intro exI [of _ d'] exI [of _ added]) (auto simp: bulk_add_def)
qed

subsection \<open>Concrete requests\<close>

definition demo_update :: settings_update where
  "demo_update = \<lparr>su_pcp_bind = None, su_http_bind = None, su_p2p_bind = None, su_p2p_outbound_target = None, su_p2p_inbound_max = None,
     su_pex_enabled = None, su_upnp_enabled = None, su_freshness_window_sec = None, su_republish_interval_sec = None,
     su_max_clock_skew_sec = None, su_min_pow_bits = Some 8, su_event_store_max = None, su_index_txt_encoding = None, su_index_bind = Some []\<rparr>"

definition demo_parsers :: request_parsers where
  "demo_parsers = \<lparr>rp_settings = (\<lambda>b. if b = ''pow'' then Some demo_update else None), rp_mute = (\<lambda>b. Some (''channel'', b)),
     rp_addrs = (\<lambda>b. Some [''Yp.:080'', [], ''yp:80'']), rp_enabled = (\<lambda>b. None), rp_label = (\<lambda>b. None), rp_persona = (\<lambda>b. None),
     rp_confirm = (\<lambda>b. None)\<rparr>"

definition demo_env :: "unit api_env" where
  "demo_env = \<lparr>en_parsers = demo_parsers, en_now = (\<lambda>i. 100), en_rowid = int, en_nonce = [], en_keys = ([], []),
     en_from_slice = (\<lambda>b. None), en_to_bech32 = (\<lambda>k. None), en_channels = None, en_announced = None, en_node_status = None\<rparr>"

definition demo_request :: "http_method \<Rightarrow> http_route \<Rightarrow> string \<Rightarrow> http_request" where
  "demo_request m r body = \<lparr>rq_method = m, rq_route = r, rq_path = ''/'', rq_query_text = None, rq_query = Some [(''confirm'', ''true'')],
     rq_headers = [(''host'', ''h''), (''x-api-token'', ''t'')], rq_peer_ip = None, rq_body = Some body\<rparr>"

definition demo_state :: app_state where
  "demo_state = (app_state_new store_open [] 7180)\<lparr>as_allowed_hosts := {''h''}, as_token := ''t''\<rparr>"

definition demo_calls :: "(unit api_env \<times> nat \<times> http_request) list" where
  "demo_calls = [(demo_env, 1, demo_request HttpPut (RouteApi RouteSettings) ''pow''),
     (demo_env, 1, demo_request HttpPost (RouteApi RouteMutes) ''c''),
     (demo_env, 2, demo_request HttpDelete (RouteApi (RoutePersona ''a'')) [])]"

lemmas demo_web_defs = demo_env_def demo_parsers_def demo_request_def demo_state_def app_state_new_def per_second_def

lemma demo_parsers_typed: "parsers_typed demo_parsers"
  by (auto simp: parsers_typed_def demo_parsers_def demo_update_def update_typed_def u32_max_def u64_max_def split: if_splits)

theorem api_change_authorised_witness:
  "as_db (fst (web_router id (\<lambda>g. None) demo_env 1 (demo_request HttpPost (RouteApi RouteMutes) ''c'') demo_state)) \<noteq> as_db demo_state \<and>
   rq_method (demo_request HttpPost (RouteApi RouteMutes) ''c'') \<in> {HttpPost, HttpPut, HttpDelete}"
proof -
  let ?r = "demo_request HttpPost (RouteApi RouteMutes) ''c''"
  have "snd (limiter_check 1 LOCALHOST (as_rate_limiter demo_state))"
    by (simp add: limiter_check_eq swept_def current_count_def RATE_LIMIT_PER_SEC_def RATE_LIMITER_SWEEP_THRESHOLD_def Let_def demo_web_defs)
  then have "admissible 1 ?r demo_state"
    by (simp add: admissible_def header_str_def demo_request_def MAX_BODY_BYTES_def) (simp add: demo_state_def)
  then have "as_db (fst (web_router id (\<lambda>g. None) demo_env 1 ?r demo_state)) = fst (insert_mute 100 0 MuteChannel ''c'' store_open)"
    by (simp add: web_router_def api_router_def layers_admissible api_dispatch_def reads_def change_route_def web_add_mute_def demo_web_defs
        insert_mute_def find_mute_def store_open_def)
  then have d: "as_db (fst (web_router id (\<lambda>g. None) demo_env 1 ?r demo_state)) \<noteq> as_db demo_state"
    by (simp add: demo_state_def app_state_new_def insert_mute_def find_mute_def store_open_def)
  show ?thesis using api_change_authorised [of id "\<lambda>g. None" demo_env 1 ?r demo_state] d by (metis prod.collapse)
qed

definition local_settings :: settings where
  "local_settings = settings_default\<lparr>se_pcp_bind := ''127.0.0.1:1'', se_http_bind := ''127.0.0.1:1'', se_p2p_bind := [], se_index_bind := []\<rparr>"

lemma local_settings_valid: "settings_validate local_settings = Inr ()" "settings_wf local_settings"
proof -
  have t: "''127.0.0.1:1'' = show_socket_addr (SocketV4 [127, 0, 0, 1] 1)"
    by (simp add: show_ipv4_def show_nat.simps digit_char_def char_of_def bit_Suc_0_iff)
  have "parse_socket_addr ''127.0.0.1:1'' = Some (SocketV4 [127, 0, 0, 1] 1)"
    unfolding t by (rule parse_show_socket_v4) (auto simp: wf_octets_def)
  then show "settings_validate local_settings = Inr ()"
    by (simp add: settings_validate_def local_settings_def require_loopback_def parse_bind_def settings_default_def parse_bind_list_def
        index_encoding_of_def DEFAULT_INDEX_TXT_ENCODING_def trim_def p2p_addr_def)
  show "settings_wf local_settings" using settings_load_wf [of store_open]
    by (simp add: settings_wf_def local_settings_def settings_load_def parse_or_def all_settings_def store_open_def Let_def)
qed

theorem settings_stay_valid_witness:
  "settings_validate (settings_load (as_db (web_run id (\<lambda>g. None) demo_calls (demo_state\<lparr>as_db := settings_save local_settings store_open\<rparr>)))) = Inr ()"
  by (rule settings_stay_valid) (simp_all add: load_saved local_settings_valid demo_calls_def demo_env_def demo_parsers_typed)

lemma validate_other_pow: "settings_validate (s\<lparr>se_min_pow_bits := n\<rparr>) = settings_validate s"
  unfolding settings_validate_def index_encoding_of_def by simp

theorem put_settings_exact_witness:
  "settings_load (as_db (fst (put_settings demo_parsers ''pow'' (demo_state\<lparr>as_db := settings_save local_settings store_open\<rparr>)))) =
     local_settings\<lparr>se_min_pow_bits := 8\<rparr>"
proof -
  have "apply_to demo_update local_settings = local_settings\<lparr>se_min_pow_bits := 8\<rparr>"
    by (simp add: apply_to_def demo_update_def local_settings_def)
  moreover have "settings_validate (local_settings\<lparr>se_min_pow_bits := 8\<rparr>) = Inr ()"
    using local_settings_valid(1) validate_other_pow [of 8 local_settings] by simp
  ultimately show ?thesis
    using put_settings_exact [OF demo_parsers_typed, of "''pow''" "demo_state\<lparr>as_db := settings_save local_settings store_open\<rparr>"]
    by (auto simp: load_saved local_settings_valid demo_parsers_def Let_def)
qed

theorem web_keeps_selection_on_air_witness:
  "\<exists>m'. identity_of (web_run id (\<lambda>g. None) demo_calls (demo_state\<lparr>as_db := im_db (demo_manager [''a'', ''b''] {''c''}),
     as_identity := Some (demo_manager [''a'', ''b''] {''c''})\<rparr>)) = Some m' \<and> selected m' = Some ''a''"
  by (rule web_keeps_selection_on_air [of _ "demo_manager [''a'', ''b''] {''c''}"])
    (simp_all add: identity_of_def demo_selected is_broadcasting_def, simp add: demo_manager_def)

theorem lan_listener_isolated_witness:
  "snd (index_router (\<lambda>g. None) 1 (Some []) (demo_request HttpGet RouteIndexTxt []) demo_state) =
   snd (index_router (\<lambda>g. None) 1 (Some []) (demo_request HttpGet RouteIndexTxt [])
     (demo_state\<lparr>as_token := ''secret'', as_identity := Some (demo_manager [''a''] {})\<rparr>))"
  using lan_listener_isolated [of demo_state "demo_state\<lparr>as_token := ''secret'', as_identity := Some (demo_manager [''a''] {})\<rparr>"] by simp

theorem bulk_add_complete_witness:
  "\<exists>d' added. bulk_add demo_env [] demo_state = (demo_state\<lparr>as_db := d'\<rparr>, json_ok 200 (JObj [(''added'', JArr (map peer_to_json added)),
      (''errors'', JArr [addr_error_json [] ''invalid_addr''])])) \<and> map pe_addr added = [''yp:80'', ''yp:80''] \<and> has_manual d' ''yp:80''"
proof -
  have "peers_inv (as_db demo_state)" "db_peers (as_db demo_state) = []"
    by (simp_all add: demo_state_def app_state_new_def store_open_def peers_inv_def peer_keys_def count_peers_def)
  moreover have e: "filter (\<lambda>raw. isl (parse_addr raw)) [''Yp.:080'', [], ''yp:80''] = [[]]"
    "List.map_filter (\<lambda>raw. case parse_addr raw of Inr p \<Rightarrow> Some (canonical p) | Inl e \<Rightarrow> None) [''Yp.:080'', [], ''yp:80''] = [''yp:80'', ''yp:80'']"
    by (auto simp: parse_example parse_yp List.map_filter_simps parse_addr_def [of "[]"])
  ultimately have "\<exists>d' added. bulk_add demo_env [] demo_state = (demo_state\<lparr>as_db := d'\<rparr>, json_ok 200 (JObj [(''added'', JArr (map peer_to_json added)),
      (''errors'', JArr (map (\<lambda>raw. addr_error_json raw ''invalid_addr'') (filter (\<lambda>raw. isl (parse_addr raw)) [''Yp.:080'', [], ''yp:80''])))])) \<and>
    map pe_addr added = List.map_filter (\<lambda>raw. case parse_addr raw of Inr p \<Rightarrow> Some (canonical p) | Inl e \<Rightarrow> None) [''Yp.:080'', [], ''yp:80''] \<and>
    (\<forall>row \<in> set added. has_manual d' (pe_addr row)) \<and> (\<forall>a. has_manual (as_db demo_state) a \<longrightarrow> has_manual d' a) \<and> peers_inv d'"
    by (intro bulk_add_complete) (simp_all add: demo_env_def demo_parsers_def)
  then obtain d' added where b: "bulk_add demo_env [] demo_state = (demo_state\<lparr>as_db := d'\<rparr>, json_ok 200 (JObj [(''added'', JArr (map peer_to_json added)),
      (''errors'', JArr [addr_error_json [] ''invalid_addr''])]))" and a: "map pe_addr added = [''yp:80'', ''yp:80'']"
      and m: "\<forall>row \<in> set added. has_manual d' (pe_addr row)"
    unfolding e list.map by (elim exE conjE) metis
  from a m have "has_manual d' ''yp:80''" by (auto simp: map_eq_Cons_conv)
  with b a show ?thesis by (intro exI conjI)
qed

end
