(* ===== verification/App_Safety.thy ===== *)
theory App_Safety
  imports App_Main Web_Safety
begin

text \<open>
  What the program entry guarantees: the addresses on which a started node listens, the exit codes
  of a failed start, and the agreement between the registry of local broadcasts and the publishing
  engine that the bridge task maintains, with the two situations in which it is lost.
\<close>

subsection \<open>Startup\<close>

lemma exit_with_Inr_iff [simp]: "exit_with code r = Inr x \<longleftrightarrow> r = Inr x"
  by (cases r) (auto simp: exit_with_def)

lemma exit_with_Inl_iff [simp]: "exit_with code r = Inl c \<longleftrightarrow> c = code \<and> (\<exists>e. r = Inl e)"
  by (cases r) (auto simp: exit_with_def)

lemma bind_all_subset: "set (fst (bind_all bind i as)) \<subseteq> set as"
proof (induction as arbitrary: i)
  case (Cons a as)
  from Cons.IH [of "Suc i"] show ?case by (auto split: prod.splits sum.splits option.splits)
qed simp

lemma permission_logs:
  "(cat, src, detail) \<in> set (pr_logged (enforce_permissions pf ok files)) \<Longrightarrow> cat \<in> {KeyPermissionFixed, KeyPermissionUnfixable}"
proof -
  have "\<forall>(cat, _) \<in> set (pr_logged r). cat \<in> {KeyPermissionFixed, KeyPermissionUnfixable} \<Longrightarrow>
      \<forall>(cat, _) \<in> set (pr_logged (fold (enforce_target ok) ts r)). cat \<in> {KeyPermissionFixed, KeyPermissionUnfixable}" for ts r
  proof (induction ts arbitrary: r)
    case (Cons t ts)
    from Cons.prems have "\<forall>(cat, _) \<in> set (pr_logged (enforce_target ok t r)). cat \<in> {KeyPermissionFixed, KeyPermissionUnfixable}"
      by (auto simp: enforce_target_def Let_def split: prod.splits enforce_outcome.splits)
    from Cons.IH [OF this] show ?case by simp
  qed simp
  then show "(cat, src, detail) \<in> set (pr_logged (enforce_permissions pf ok files)) \<Longrightarrow> cat \<in> {KeyPermissionFixed, KeyPermissionUnfixable}"
    by (force simp: enforce_permissions_def Let_def split: platform.splits)
qed

text \<open>A validated configuration parses, and its addresses are in the permitted ranges.\<close>

lemma validated_addresses:
  assumes "settings_validate s = Inr ()"
  shows "\<exists>p2p. p2p_addr s = Inr p2p" "\<exists>a. http_addr s = Inr a \<and> loopback_ip (socket_ip a)"
    "\<exists>a. pcp_addr s = Inr a \<and> loopback_ip (socket_ip a)"
    "se_index_bind s = [] \<or> (\<exists>a. parse_socket_addr (se_index_bind s) = Some a \<and> lan_ip (socket_ip a))"
  using assms parse_bind_wf is_loopback_iff parse_socket_wf [of "se_index_bind s"] lan_allowed_iff
  by (auto simp: settings_validate_def and_then_Inr_iff p2p_addr_def http_addr_def pcp_addr_def require_loopback_def
      require_lan_or_loopback_def parse_bind_def ok_or_Inr_iff split: if_splits)

text \<open>The listeners are bound from validated settings.\<close>

lemma bind_listeners_Inr:
  assumes "bind_listeners env s ks health logged p2p http pcp = Inr st"
  shows "sr_settings st = s" "sr_http_addr st = http" "sr_pcp_addr st = pcp" "set (sr_p2p_listeners st) \<subseteq> set p2p"
    "p2p = [] \<or> sr_p2p_listeners st \<noteq> []"
    "\<exists>bind. index_lan_start bind (se_index_bind s) = (sr_index_lan st, sr_index_addr st)"
    "sr_logged st = logged @ exposure_log s (sr_index_lan st) (sr_index_addr st)"
  using assms bind_all_subset [of "sv_bind env" 0 p2p]
  by (auto simp: bind_listeners_def Let_def and_then_Inr_iff split: prod.splits if_splits)

lemma run_start_listeners:
  assumes "run_start env = Inr (Some st)"
  obtains ks health logged p2p http pcp where "settings_validate (sr_settings st) = Inr ()"
    "p2p_addr (sr_settings st) = Inr p2p" "http_addr (sr_settings st) = Inr http" "pcp_addr (sr_settings st) = Inr pcp"
    "\<forall>(cat, _) \<in> set logged. cat \<noteq> IndexTxtLanExposed"
    "bind_listeners env (sr_settings st) ks health logged p2p http pcp = Inr st"
proof -
  from assms obtain s ks health p2p http pcp where v: "settings_validate s = Inr ()"
    "p2p_addr s = Inr p2p" "http_addr s = Inr http" "pcp_addr s = Inr pcp" and
    b: "bind_listeners env s ks health (pr_logged (enforce_permissions (sv_platform env) (sv_chmod_ok env) (sv_files env))) p2p http pcp = Inr st"
    by (auto simp: run_start_def Let_def and_then_Inr_iff split: if_splits)
  have l: "\<forall>(cat, _) \<in> set (pr_logged (enforce_permissions (sv_platform env) (sv_chmod_ok env) (sv_files env))). cat \<noteq> IndexTxtLanExposed"
    by (auto dest: permission_logs)
  show thesis using that l v b unfolding bind_listeners_Inr(1) [OF b] by blast
qed

text \<open>C7: a started node is only reachable where the user allowed it. After a successful start the page
  and its API and the PCP service listen on loopback addresses only, the second listener for the
  channel list (if any) on a loopback, private or link-local address, and the gossip listeners are
  a part of the configured addresses, not empty when any are configured. The security log has an
  entry about the exposed list exactly when that listener runs on an address that is not loopback.\<close>

theorem startup_listeners_confined:
  assumes "run_start env = Inr (Some st)"
  shows "loopback_ip (socket_ip (sr_http_addr st)) \<and> loopback_ip (socket_ip (sr_pcp_addr st)) \<and>
    (\<forall>a. sr_index_addr st = Some a \<longrightarrow> lan_ip (socket_ip a)) \<and>
    (\<exists>p2p. p2p_addr (sr_settings st) = Inr p2p \<and> set (sr_p2p_listeners st) \<subseteq> set p2p \<and> (p2p \<noteq> [] \<longrightarrow> sr_p2p_listeners st \<noteq> [])) \<and>
    ((\<exists>src detail. (IndexTxtLanExposed, src, detail) \<in> set (sr_logged st)) \<longleftrightarrow>
       (\<exists>a i. sr_index_addr st = Some a \<and> sr_index_lan st = Some i \<and> il_listening i \<and> \<not> is_loopback (to_canonical (socket_ip a))))"
proof -
  from assms obtain ks health logged p2p http pcp where v: "settings_validate (sr_settings st) = Inr ()"
    and p: "p2p_addr (sr_settings st) = Inr p2p" "http_addr (sr_settings st) = Inr http" "pcp_addr (sr_settings st) = Inr pcp"
    and l: "\<forall>(cat, _) \<in> set logged. cat \<noteq> IndexTxtLanExposed"
    and b: "bind_listeners env (sr_settings st) ks health logged p2p http pcp = Inr st"
    by (rule run_start_listeners)
  note b = bind_listeners_Inr [OF b]
  have "loopback_ip (socket_ip http)" "loopback_ip (socket_ip pcp)" using validated_addresses(2,3) [OF v] p by auto
  moreover have "lan_ip (socket_ip a)" if "sr_index_addr st = Some a" for a
    using b(6) validated_addresses(4) [OF v] that by (auto simp: index_lan_start_def split: if_splits sum.splits)
  moreover have "(\<exists>src detail. (IndexTxtLanExposed, src, detail) \<in> set (sr_logged st)) \<longleftrightarrow>
       (\<exists>a i. sr_index_addr st = Some a \<and> sr_index_lan st = Some i \<and> il_listening i \<and> \<not> is_loopback (to_canonical (socket_ip a)))"
    using l unfolding b(7) by (force simp: exposure_log_def split: option.splits)
  ultimately show ?thesis using b p by auto
qed

text \<open>The port that is mapped for IPv4 is the one of the first bound address, which may be an IPv6 one.\<close>

lemma upnp_port_without_listener:
  assumes "se_upnp_enabled s" "p \<noteq> q"
  shows "let bound = [SocketV6 gs scope p, SocketV4 os q] in
    use_upnp s bound \<and> (\<forall>a \<in> set bound. is_ipv4 a \<longrightarrow> socket_port a \<noteq> announced_port bound)"
  using assms by (simp add: use_upnp_def announced_port_def)

text \<open>The start is refused for its configuration: the arguments, the data directory or the effective settings.\<close>

definition configuration_refused :: "startup_env \<Rightarrow> bool" where
  "configuration_refused env \<longleftrightarrow> (case cli_parse (sv_args env) of Inl _ \<Rightarrow> True
   | Inr overrides \<Rightarrow> case ensure_data_dir (sv_platform env) (sv_lossy env) (sv_lookup env) (sv_create_ok env) (co_data_dir overrides) of
       Inl _ \<Rightarrow> True
     | Inr dir \<Rightarrow> case sv_open_store env dir of Inl _ \<Rightarrow> False
       | Inr d \<Rightarrow> settings_validate (apply_overrides overrides (settings_load d)) \<noteq> Inr ())"

lemma bind_listeners_Inl: "bind_listeners env s ks health logged p2p http pcp = Inl c \<Longrightarrow> c = 1"
  by (auto simp: bind_listeners_def Let_def and_then_Inl_iff split: prod.splits if_splits)


text \<open>A start on Windows with the channel list offered to the local network.\<close>

definition lan_socket :: socket_addr where
  "lan_socket = SocketV4 [10, 0, 0, 1] 8"

definition lan_settings :: settings where
  "lan_settings = local_settings\<lparr>se_index_bind := show_socket_addr lan_socket\<rparr>"

definition start_env :: startup_env where
  "start_env = \<lparr>sv_args = [], sv_platform = Windows, sv_lossy = id, sv_lookup = (\<lambda>_. Some ''d''), sv_create_ok = (\<lambda>_. True),
     sv_open_store = (\<lambda>_. Inr (settings_save lan_settings store_open)), sv_log_ok = (\<lambda>_. True), sv_key_fresh = [], sv_key_io = (0, True),
     sv_key_file = \<lparr>kf_content = None, kf_readable = True, kf_creatable = True\<rparr>, sv_chmod_ok = (\<lambda>_. True), sv_files = Map.empty, sv_bind = (\<lambda>_ a. Inr (Some a))\<rparr>"

lemma lan_socket_parsed: "parse_socket_addr (show_socket_addr lan_socket) = Some lan_socket" "show_socket_addr lan_socket \<noteq> []"
proof -
  show p: "parse_socket_addr (show_socket_addr lan_socket) = Some lan_socket"
    unfolding lan_socket_def by (rule parse_show_socket_v4) (auto simp: wf_octets_def)
  show "show_socket_addr lan_socket \<noteq> []" by (simp add: lan_socket_def)
qed

lemma lan_settings_valid: "settings_validate lan_settings = Inr ()" "settings_wf lan_settings"
proof -
  have "lan_allowed (socket_ip lan_socket)" by (simp add: lan_socket_def lan_allowed_def v4_is_private_def)
  then show "settings_validate lan_settings = Inr ()" using local_settings_valid(1) lan_socket_parsed
    by (auto simp: settings_validate_def lan_settings_def and_then_Inr_iff require_lan_or_loopback_def parse_bind_def index_encoding_of_def split: if_splits)
  show "settings_wf lan_settings" using local_settings_valid(2) by (simp add: settings_wf_def lan_settings_def)
qed

lemma start_run: "\<exists>st. run_start start_env = Inr (Some st) \<and> sr_settings st = lan_settings \<and> sr_index_addr st = Some lan_socket"
proof -
  have "settings_load (settings_save lan_settings store_open) = lan_settings" by (rule load_saved [OF lan_settings_valid(2)])
  moreover have "apply_overrides cli_default lan_settings = lan_settings" by (simp add: apply_overrides_def cli_default_def)
  moreover obtain http pcp where "http_addr lan_settings = Inr http" "pcp_addr lan_settings = Inr pcp"
    using validated_addresses(2,3) [OF lan_settings_valid(1)] by auto
  moreover have "p2p_addr lan_settings = Inr []"
    by (simp add: p2p_addr_def lan_settings_def local_settings_def parse_bind_list_def trim_def)
  moreover have "se_index_bind lan_settings = show_socket_addr lan_socket" by (simp add: lan_settings_def)
  ultimately show ?thesis
    by (simp add: run_start_def start_env_def cli_parse_def ensure_data_dir_def resolve_data_dir_def resolve_with_windows_def
        lan_settings_valid exit_with_def keystore_open_def bind_listeners_def index_lan_start_def lan_socket_parsed cli_default_def Let_def)
qed

theorem startup_listeners_confined_witness:
  "\<exists>st. run_start start_env = Inr (Some st) \<and> sr_index_addr st = Some lan_socket \<and> loopback_ip (socket_ip (sr_http_addr st)) \<and> lan_ip (socket_ip lan_socket)"
  using start_run startup_listeners_confined by blast


subsection \<open>The bridge from the registry to the publishing engine\<close>

lemma hex_lower [simp]: "to_ascii_lowercase (channel_id_hex cid) = channel_id_hex cid"
proof -
  have "ascii_lower (hex_digit k) = hex_digit k" if "k < 16" for k
    using that byte_hex_digit [OF that] by (auto simp: ascii_lower_def less_eq_char_def)
  moreover have "unat b div 16 < 16" for b :: u8 using unat_less_exp [of b] by (simp add: less_mult_imp_div_less)
  ultimately show ?thesis by (induction cid) (auto simp: channel_id_hex_def to_ascii_lowercase_map)
qed

lemma to_listing_id [simp]: "cl_channel_id (to_listing c) = channel_id_hex (ac_channel_id c)"
  by (simp add: to_listing_def Let_def)

lemma registry_step_sent: "\<exists>new. reg_sent (registry_step x r) = reg_sent r @ new"
  by (cases x) (auto simp: reg_upsert_def reg_end_def Let_def split: option.splits)

lemma publish_dom: "dom (pg_states (fst (publish_listing ns kd nows l e))) \<subseteq> insert (cl_channel_id l) (dom (pg_states e))"
proof (cases "pg_states e (cl_channel_id l)")
  case None
  then show ?thesis by (auto simp: publish_first sign_and_send_states release_channel_def split: option.splits)
next
  case (Some st)
  then show ?thesis by (auto simp: publish_again after_switch_def sign_and_send_states split: option.splits if_splits)
qed

lemma ended_dom: "dom (pg_states (fst (publish_ended ns kd now l e))) \<subseteq> dom (pg_states e) - {cl_channel_id l}"
  by (auto simp: ended_result release_channel_def drop_state_def sign_and_send_states split: option.splits if_splits)

text \<open>\<open>follows w\<close>: the bridge has replayed a prefix of the notifications, and every published channel is one of those it has learnt there.\<close>

definition follows :: "wiring \<Rightarrow> bool" where
  "follows w \<longleftrightarrow> registry_ok (wi_registry w) \<and> on_air_exact (wi_engine w) \<and>
     (\<exists>received known. reg_sent (wi_registry w) = received @ wi_pending w \<and> replay received Map.empty = Some known \<and>
        dom (pg_states (wi_engine w)) \<subseteq> channel_id_hex ` dom known)"

lemma publish_follows:
  assumes "dom (pg_states e) \<subseteq> channel_id_hex ` D" "on_air_exact e"
  shows "dom (pg_states (fst (publish_listing ns kd nows (to_listing c) e))) \<subseteq> channel_id_hex ` insert (ac_channel_id c) D"
    "on_air_exact (fst (publish_listing ns kd nows (to_listing c) e))"
  using publish_dom [of ns kd nows "to_listing c" e] assms(1) publish_on_air [OF assms(2), of "to_listing c" ns kd nows] by auto

lemma bridge_recv_follows:
  assumes "apply_change ch known = Some known'" "dom (pg_states e) \<subseteq> channel_id_hex ` dom known" "on_air_exact e"
  shows "dom (pg_states (bridge_recv ns kd nows ch e)) \<subseteq> channel_id_hex ` dom known' \<and> on_air_exact (bridge_recv ns kd nows ch e)"
proof (cases ch)
  case (ChangeAnnounced c)
  from assms(1) ChangeAnnounced have "dom known' = insert (ac_channel_id c) (dom known)" by (auto split: if_splits)
  then show ?thesis using publish_follows [OF assms(2,3), of ns kd nows c] ChangeAnnounced by simp
next
  case (ChangeUpdated c)
  from assms(1) ChangeUpdated have "dom known' = insert (ac_channel_id c) (dom known)" by (auto split: if_splits)
  then show ?thesis using publish_follows [OF assms(2,3), of ns kd nows c] ChangeUpdated by simp
next
  case (ChangeEnded c)
  from assms(1) ChangeEnded have "dom known' = dom known - {ac_channel_id c}" by (auto split: option.splits if_splits)
  moreover have "dom (pg_states (bridge_recv ns kd nows ch e)) \<subseteq> channel_id_hex ` dom known - {channel_id_hex (ac_channel_id c)}"
    using assms(2) ended_dom [of ns kd "fst nows" "to_listing c" e] ChangeEnded by force
  moreover have "channel_id_hex ` dom known - {channel_id_hex (ac_channel_id c)} \<subseteq> channel_id_hex ` (dom known - {ac_channel_id c})" by auto
  ultimately have "dom (pg_states (bridge_recv ns kd nows ch e)) \<subseteq> channel_id_hex ` dom known'" by simp
  then show ?thesis using ended_on_air [OF assms(3), of "to_listing c" ns kd "fst nows"] ChangeEnded by simp
qed

fun bridge_only :: "wiring_step \<Rightarrow> bool" where
  "bridge_only (Registry x) = True"
| "bridge_only (BridgeRecv nows) = True"
| "bridge_only _ = False"

lemma follows_step:
  assumes "follows w" "bridge_only x"
  shows "follows (wiring_run ns kd x w)"
proof (cases x)
  case (Registry op)
  obtain new where "reg_sent (registry_step op (wi_registry w)) = reg_sent (wi_registry w) @ new" using registry_step_sent by blast
  with assms Registry show ?thesis by (auto simp: follows_def Let_def registry_step_ok)
next
  case (BridgeRecv nows)
  show ?thesis
  proof (cases "wi_pending w")
    case Nil
    with assms BridgeRecv show ?thesis by simp
  next
    case (Cons ch rest)
    from assms(1) obtain received known where f: "registry_ok (wi_registry w)" "on_air_exact (wi_engine w)"
      "reg_sent (wi_registry w) = received @ ch # rest" "replay received Map.empty = Some known" "dom (pg_states (wi_engine w)) \<subseteq> channel_id_hex ` dom known"
      unfolding follows_def Cons by blast
    from f(1,3,4) obtain known' where s: "apply_change ch known = Some known'"
      by (auto simp: registry_ok_def replay_append Option.bind_eq_Some_conv)
    with f(4) have "replay (received @ [ch]) Map.empty = Some known'" by (simp add: replay_append)
    moreover have "reg_sent (wi_registry w) = (received @ [ch]) @ rest" using f(3) by simp
    ultimately show ?thesis using bridge_recv_follows [OF s f(5) f(2), of ns kd nows] f(1) BridgeRecv Cons
      unfolding follows_def by auto
  qed
qed (use assms in auto)

interpretation bridge_steps: guarded_steps "wiring_run ns kd" bridge_only follows for ns kd
  by unfold_locales (rule follows_step)


text \<open>A channel that can be published: it has a persona whose key signs its listing at any time.\<close>

definition can_publish :: "'k nostr \<Rightarrow> (bytes \<Rightarrow> 'k option) \<Rightarrow> announced_channel \<Rightarrow> identity_manager \<Rightarrow> bool" where
  "can_publish ns kd c m \<longleftrightarrow> (\<exists>pk keys. persona_for_channel (channel_id_hex (ac_channel_id c)) m = Some pk \<and>
     signing_keys kd pk m = Inr keys \<and> (\<forall>t. \<exists>ev. sign_listing ns (to_listing (c\<lparr>ac_state := ChAnnounced\<rparr>)) keys t 0 = Inr ev))"

lemma can_publish_lock [simp]: "can_publish ns kd c (m\<lparr>im_broadcast := b\<rparr>) = can_publish ns kd c m"
proof -
  have "persona_for_channel cid (m\<lparr>im_broadcast := b\<rparr>) = persona_for_channel cid m" for cid
    by (simp add: persona_for_channel_def split: option.splits)
  then show ?thesis by (simp add: can_publish_def signing_keys_def)
qed

lemma publish_new_on_air:
  assumes "can_publish ns kd c (pg_identity e)" "pg_states e (channel_id_hex (ac_channel_id c)) = None" "pg_pow_bits e = 0"
  shows "im_broadcast (pg_identity (fst (publish_listing ns kd nows (to_listing (c\<lparr>ac_state := ChAnnounced\<rparr>)) e))) =
    insert (channel_id_hex (ac_channel_id c)) (im_broadcast (pg_identity e))"
proof -
  let ?c = "channel_id_hex (ac_channel_id c)" and ?l = "to_listing (c\<lparr>ac_state := ChAnnounced\<rparr>)"
  let ?e = "e\<lparr>pg_identity := fst (reserve ?c (pg_identity e))\<rparr>"
  from assms(1) obtain pk keys where p: "persona_for_channel ?c (pg_identity e) = Some pk" "signing_keys kd pk (pg_identity e) = Inr keys"
    "\<forall>t. \<exists>ev. sign_listing ns ?l keys t 0 = Inr ev"
    unfolding can_publish_def by blast
  have "signing_keys kd pk (pg_identity ?e) = Inr keys" using p(2) by (auto simp: reserve_effect signing_keys_def split: if_splits)
  with p(3) assms(3) have "\<not> isl (snd (sign_and_send ns kd (snd nows) pk ?l ?e))"
    by (auto simp: sign_and_send_def Let_def split: sum.splits) (metis Inl_Inr_False)
  with p(1) assms(2) show ?thesis by (simp add: publish_first) (simp add: reserve_effect)
qed

lemma publish_pow:
  "pg_pow_bits (fst (publish_listing ns kd nows l e)) = pg_pow_bits e" "pg_pow_bits (fst (publish_ended ns kd now l e)) = pg_pow_bits e"
proof -
  have s: "pg_pow_bits (fst (sign_and_send ns kd t pk l' e')) = pg_pow_bits e'" for t pk l' e'
    by (simp add: sign_and_send_def Let_def split: sum.splits)
  show "pg_pow_bits (fst (publish_listing ns kd nows l e)) = pg_pow_bits e"
    by (cases "pg_states e (cl_channel_id l)")
      (auto simp: publish_first publish_again after_switch_def release_channel_def s split: option.splits)
  show "pg_pow_bits (fst (publish_ended ns kd now l e)) = pg_pow_bits e"
    by (simp add: ended_result release_channel_def drop_state_def s split: option.splits)
qed

text \<open>A registration that the bridge has received, and an end that follows it.\<close>

lemma first_announcement:
  fixes c defines "c1 \<equiv> c\<lparr>ac_state := ChAnnounced\<rparr>"
  shows "fold (wiring_run ns kd) [Registry (OpUpsert c), BridgeRecv t] (wiring_new e) =
    \<lparr>wi_registry = \<lparr>reg_inner = [(ac_channel_id c, c1)], reg_sent = [ChangeAnnounced c1]\<rparr>, wi_pending = [],
     wi_engine = fst (publish_listing ns kd t (to_listing c1) e), wi_republish = [], wi_recovery = []\<rparr>"
  by (simp add: wiring_new_def registry_new_def reg_upsert_def reg_contains_def Let_def c1_def)

fun no_registry :: "wiring_step \<Rightarrow> bool" where
  "no_registry (Registry x) = False"
| "no_registry _ = True"

definition settled :: "wiring \<Rightarrow> bool" where
  "settled w \<longleftrightarrow> reg_is_empty (wi_registry w) \<and> wi_pending w = [] \<and> wi_republish w = [] \<and> wi_recovery w = []"

lemma settled_stays: "settled w \<Longrightarrow> \<forall>x \<in> set xs. no_registry x \<Longrightarrow> fold (wiring_run ns kd) xs w = w"
proof (induction xs)
  case (Cons x xs)
  then have "wiring_run ns kd x w = w" by (cases x) (simp_all add: settled_def live_listings_def reg_snapshot_def reg_is_empty_def)
  with Cons show ?case by simp
qed simp

text \<open>C39: a republishing pass can put an ended broadcast on air again. The pass works on a snapshot. When a
  broadcast ends after the snapshot and its end is published before the pass comes to the channel,
  the pass publishes the channel as live again and takes the lock on the selected persona. The
  registry is empty then and nothing is waiting, so whatever the bridge and the republishing
  tasks do later, the lock stays until a broadcasting program registers something new.\<close>

theorem stale_republish_relocks:
  assumes "can_publish ns kd c identity" and "\<forall>x \<in> set later. no_registry x"
  shows "let w = fold (wiring_run ns kd) ([Registry (OpUpsert c), BridgeRecv t1, RepublishTick, Registry (OpEnd (ac_channel_id c)), BridgeRecv t2,
       RepublishNext t3] @ later) (wiring_new (publish_engine_new identity interval))
     in reg_is_empty (wi_registry w) \<and> wi_pending w = [] \<and> is_broadcasting (im_broadcast (pg_identity (wi_engine w)))"
proof -
  let ?c = "c\<lparr>ac_state := ChAnnounced\<rparr>" and ?e = "publish_engine_new identity interval"
  let ?e1 = "fst (publish_listing ns kd t1 (to_listing ?c) ?e)"
  let ?e2 = "fst (publish_ended ns kd (fst t2) (to_listing (c\<lparr>ac_state := ChEnded\<rparr>)) ?e1)"
  let ?e3 = "fst (publish_listing ns kd t3 (to_listing ?c) ?e2)"
  let ?w = "\<lparr>wi_registry = \<lparr>reg_inner = [], reg_sent = [ChangeAnnounced ?c, ChangeEnded (c\<lparr>ac_state := ChEnded\<rparr>)]\<rparr>, wi_pending = [],
     wi_engine = ?e3, wi_republish = [], wi_recovery = []\<rparr>"
  have "fold (wiring_run ns kd) [Registry (OpUpsert c), BridgeRecv t1, RepublishTick, Registry (OpEnd (ac_channel_id c)), BridgeRecv t2, RepublishNext t3]
      (wiring_new ?e) = ?w"
    using first_announcement [of ns kd c t1 ?e] by (simp add: live_listings_def reg_snapshot_def reg_end_def)
  moreover have "fold (wiring_run ns kd) later ?w = ?w" using assms(2) by (intro settled_stays) (simp_all add: settled_def reg_is_empty_def)
  ultimately have run: "fold (wiring_run ns kd) ([Registry (OpUpsert c), BridgeRecv t1, RepublishTick, Registry (OpEnd (ac_channel_id c)), BridgeRecv t2,
       RepublishNext t3] @ later) (wiring_new ?e) = ?w"
    unfolding fold_append comp_def by (simp only:)
  have e: "pg_identity ?e = identity" "pg_pow_bits ?e = 0" "pg_states ?e = Map.empty" by (simp_all add: publish_engine_new_def)
  have "can_publish ns kd c (pg_identity ?e2)"
    using assms(1) publish_identity(1) [of ns kd t1 "to_listing ?c" ?e] publish_identity(2) [of ns kd "fst t2" "to_listing (c\<lparr>ac_state := ChEnded\<rparr>)" ?e1] e(1)
    by auto
  moreover have "pg_states ?e2 (channel_id_hex (ac_channel_id c)) = None"
    using ended_dom [of ns kd "fst t2" "to_listing (c\<lparr>ac_state := ChEnded\<rparr>)" ?e1] by auto
  moreover have "pg_pow_bits ?e2 = 0" by (simp add: publish_pow e)
  ultimately show ?thesis using publish_new_on_air [of ns kd c ?e2 t3] unfolding run Let_def
    by (simp add: reg_is_empty_def is_broadcasting_def)
qed

text \<open>An end that the bridge misses is not made up for. When the bridge lags behind and the notification of
  an end is among those it loses, the lock on the selected persona stays: the republishing tasks only
  publish what is registered, so the ended channel is never released by them.\<close>

theorem lagged_end_keeps_lock:
  assumes "can_publish ns kd c identity" and "\<forall>x \<in> set later. no_registry x"
  shows "let w = fold (wiring_run ns kd) ([Registry (OpUpsert c), BridgeRecv t1, Registry (OpEnd (ac_channel_id c)), BridgeLagged 1] @ later)
       (wiring_new (publish_engine_new identity interval))
     in reg_is_empty (wi_registry w) \<and> wi_pending w = [] \<and> is_broadcasting (im_broadcast (pg_identity (wi_engine w)))"
proof -
  let ?c = "c\<lparr>ac_state := ChAnnounced\<rparr>" and ?e = "publish_engine_new identity interval"
  let ?e1 = "fst (publish_listing ns kd t1 (to_listing ?c) ?e)"
  let ?w = "\<lparr>wi_registry = \<lparr>reg_inner = [], reg_sent = [ChangeAnnounced ?c, ChangeEnded (c\<lparr>ac_state := ChEnded\<rparr>)]\<rparr>, wi_pending = [],
     wi_engine = ?e1, wi_republish = [], wi_recovery = []\<rparr>"
  have "fold (wiring_run ns kd) [Registry (OpUpsert c), BridgeRecv t1, Registry (OpEnd (ac_channel_id c)), BridgeLagged 1] (wiring_new ?e) = ?w"
    using first_announcement [of ns kd c t1 ?e] by (simp add: reg_end_def)
  moreover have "fold (wiring_run ns kd) later ?w = ?w" using assms(2) by (intro settled_stays) (simp_all add: settled_def reg_is_empty_def)
  ultimately have run: "fold (wiring_run ns kd) ([Registry (OpUpsert c), BridgeRecv t1, Registry (OpEnd (ac_channel_id c)), BridgeLagged 1] @ later)
      (wiring_new ?e) = ?w"
    unfolding fold_append comp_def by (simp only:)
  show ?thesis using publish_new_on_air [of ns kd c ?e t1] assms(1) unfolding run Let_def
    by (simp add: reg_is_empty_def is_broadcasting_def publish_engine_new_def)
qed

text \<open>A broadcast of the persona \<open>a\<close>.\<close>

definition air_channel :: announced_channel where
  "air_channel = \<lparr>ac_channel_id = replicate 16 2, ac_name = ''n'', ac_genre = [], ac_description = [], ac_comment = [], ac_contact_url = [],
     ac_bitrate_kbps = 500, ac_content_type = ''FLV'', ac_track = \<lparr>ti_title = [], ti_creator = [], ti_album = []\<rparr>, ac_tracker = None,
     ac_listeners = 3, ac_relays_cnt = 1, ac_started_at = 50, ac_state = ChAnnounced\<rparr>"

lemma air_can_publish: "can_publish air_nostr Some air_channel (demo_manager [''a'', ''b''] {})"
proof -
  have "persona_for_channel cid (demo_manager [''a'', ''b''] {}) = Some ''a''" for cid
    using demo_selected [of "{}"] by (simp add: persona_for_channel_def demo_defs)
  moreover have "signing_keys Some ''a'' (demo_manager [''a'', ''b''] {}) = Inr [7]"
    by (simp add: signing_keys_def is_unavailable_def get_persona_by_pubkey_def unprotect_def demo_defs)
  ultimately show ?thesis by (simp add: can_publish_def air_sign)
qed

theorem stale_republish_relocks_witness:
  "let w = fold (wiring_run air_nostr Some) ([Registry (OpUpsert air_channel), BridgeRecv (1, 1), RepublishTick,
       Registry (OpEnd (ac_channel_id air_channel)), BridgeRecv (2, 2), RepublishNext (3, 3)] @ [RepublishTick, RepublishNext (4, 4)])
       (wiring_new (publish_engine_new (demo_manager [''a'', ''b''] {}) 60))
   in reg_is_empty (wi_registry w) \<and> wi_pending w = [] \<and> is_broadcasting (im_broadcast (pg_identity (wi_engine w)))"
  by (rule stale_republish_relocks [OF air_can_publish]) simp

theorem lagged_end_keeps_lock_witness:
  "let w = fold (wiring_run air_nostr Some) ([Registry (OpUpsert air_channel), BridgeRecv (1, 1), Registry (OpEnd (ac_channel_id air_channel)),
       BridgeLagged 1] @ [RepublishTick, Recovered]) (wiring_new (publish_engine_new (demo_manager [''a'', ''b''] {}) 60))
   in reg_is_empty (wi_registry w) \<and> wi_pending w = [] \<and> is_broadcasting (im_broadcast (pg_identity (wi_engine w)))"
  by (rule lagged_end_keeps_lock [OF air_can_publish]) simp


end
