(* ===== verification/Spec2Isabelle.thy ===== *)
theory Spec2Isabelle
  imports Pcp_Session P2p_Accounts App_Safety
begin

text \<open>
  A verification of \<open>peca-p2p-yp\<close>, a directory of PeerCast channels that is kept by a network of equal
  nodes instead of a server. This theory imports the whole development and holds the property that
  spans the way of a listing from a broadcasting program to another node.

  \<^bold>\<open>The program and how its parts interact.\<close> A broadcasting program announces its channels over PCP to
  the node on the same machine; the registry keeps them and notifies the publishing engine, which
  signs a listing as an event with the key of the selected persona and hands it to the gossip hub.
  The hub stores events, suppresses duplicates and relays new ones to the connected peers. Peers are
  found by exchange, dialled by the connection runtime, and synchronised when a connection is
  established. Viewers see the aggregated list through the local HTTP service or as the traditional
  text format, which can be offered to the local network by a second listener. Settings, personas,
  peers and mutes are in a database; every abuse is recorded in a bounded security log.

  \<^bold>\<open>Which theory models what.\<close> Paths are below \<open>src/src\<close>. A definition has the name of the Rust item it
  translates, with a prefix where names repeat; fields of a record carry a two-letter prefix.

  \<^item> \<open>Rust_Prelude\<close>, \<open>Rust_Str\<close>, \<open>Std_Net\<close>: what the sources use of the language and its standard
    library (results, integer arithmetic, byte strings and UTF-8, sorting, socket addresses with their
    parser and printer). \<open>Time_Windows\<close>: the interfaces of components that act on time windows.
  \<^item> \<open>Yp_Security\<close> (\<open>security/mod.rs\<close>): input checks and the rotating log with its aggregation.
    No security event is lost, and the disk space is bounded.
  \<^item> \<open>Event_Schema\<close> (\<open>event/schema.rs\<close>): listings as events, signing, reception checks. The checks
    accept exactly what satisfies the rules, and what a node signs is accepted and restored.
  \<^item> \<open>Event_Store\<close> (\<open>event/store.rs\<close>): the bounded store and the duplicate cache. The store is a
    last-writer-wins replica: nodes that receive the same events converge.
  \<^item> \<open>Event_View\<close> (\<open>event/view.rs\<close>), \<open>Yp_Index_Txt\<close> (\<open>yp/index_txt.rs\<close>): the viewer's list and the text
    format, which no received text can break.
  \<^item> \<open>Store_Db\<close> (\<open>store/mod.rs\<close>), \<open>Config_Settings\<close> (\<open>config.rs\<close>): tables and settings with their
    validation.
  \<^item> \<open>Identity_Keystore\<close>, \<open>Identity_Manager\<close> (\<open>identity/\<close>, \<open>broadcast.rs\<close>), \<open>Event_Publish\<close>
    (\<open>event/publish.rs\<close>): protected keys, personas under the broadcast lock, the engine. A broadcast is
    signed by one persona, and the lock is held exactly while something is published.
  \<^item> \<open>P2p_Frame\<close>, \<open>P2p_Session\<close>, \<open>P2p_Ingest\<close>, \<open>P2p_Hub\<close>, \<open>P2p_Sync\<close>, \<open>P2p_Peers\<close>, \<open>P2p_Pex\<close> (the files of
    the same names in \<open>p2p/\<close>): framing, handshake and limits, reception pipeline, relaying,
    synchronisation, peer management and exchange.
  \<^item> \<open>P2p_Runtime\<close>, \<open>P2p_Accounts\<close> (\<open>p2p/runtime.rs\<close>): the tasks that drive the connections, as steps in
    any order. Slots and links are exactly those of the running connections.
  \<^item> \<open>Pcp_Atom\<close>, \<open>Pcp_Channel\<close>, \<open>Pcp_Session\<close> (\<open>pcp/\<close>): the codec, validation of announced channels, the
    registry, and the sessions with their byte pump.
  \<^item> \<open>Web_Guard\<close>, \<open>Web_Api\<close>, \<open>Web_Safety\<close> (\<open>web/\<close>): protection layers, handlers, and what no request can do.
  \<^item> \<open>Platform_Dirs\<close> (\<open>platform/mod.rs\<close>), \<open>App_Main\<close>, \<open>App_Safety\<close> (\<open>main.rs\<close>, \<open>p2p/upnp.rs\<close>): data directory
    and permissions, startup, adapters, and the tasks between registry and engine.

  \<^bold>\<open>How the code is modelled.\<close> A struct is a record, an enum a datatype, a method a function on the
  record that returns it updated; \<open>Result\<close> is a sum. A mutex makes a section one step; concurrency is
  a sequence of such steps in any order (\<open>section_step\<close> for the persona lock, \<open>node_step\<close> for the
  connection tasks, \<open>wiring_run\<close> for the publishing tasks). Clock readings, new row identifiers,
  random values and the outcome of system calls are arguments, one for each use, so that the
  theorems hold for all of them. \<open>u64\<close> and \<open>i64\<close> are \<open>nat\<close> and \<open>int\<close> with wrapping or saturation
  written out where the code can leave the range; bytes, masks and permission bits are words. Seconds
  in \<open>f64\<close> are exact rationals. All loops are total functions with a termination proof; there is no
  fuel. Conditions such as "fewer than \<open>2 ^ 64 - 1\<close> steps" exclude the wrap of a connection counter.

  \<^bold>\<open>Code outside the repository\<close> is a parameter: the event library (the record \<open>nostr\<close>, with its
  documented behaviour as \<open>nostr_contract\<close>), JSON conversion, the ciphers and the data protection
  calls of the operating system, the Shift_JIS table, the path matching of the web framework, the
  router found by UPnP.

  \<^bold>\<open>Interfaces.\<close> The locales state what components promise to those that use them and are interpreted on
  the model: \<open>stream_codec\<close> (gossip frames, PCP atoms), \<open>suppression\<close> and \<open>fixed_window_limiter\<close> (log,
  duplicate cache, dials, keepalive, the limiters), \<open>monotone_slots\<close> (event store), \<open>guarded_steps\<close>
  (registry, peer table, publishing engine, bridge).

  \<^bold>\<open>What the code does not do as meant\<close> is proved as well: a future-dated event can be relayed twice, a
  paced answer can exceed the limit of its receiver, a partly received frame can be lost together with
  the connection, a republishing pass can put an ended broadcast on air again, and a lost
  notification of an end keeps the persona locked.

  \<^bold>\<open>Not modelled\<close>: socket options, the spawning and joining of tasks and the serving of connections by the
  framework; the foreign calls of the Windows key protection; the notification of systemd and signals;
  console and trace output; the SQL text, the migration of the schema and failures of the
  database engine. They have no logic of their own or belong to other software.
\<close>

subsection \<open>From the broadcasting software to the other nodes\<close>

text \<open>C12: what a broadcaster announces reaches the network. Whatever a local broadcasting program
  sends over PCP, every channel it has put into the registry has a listing that this node can
  sign, and the signed event passes all reception checks of another node, which restores the same
  listing from it, provided the serialised event is within the size limit, the clocks agree within
  the tolerated skew and the difficulty is sufficient.\<close>

theorem announced_channel_accepted:
  assumes "\<forall>n. clk n \<le> u64_max"
    and "(k, c) \<in> set (reg_inner (cn_registry (pump_chunks node_id clk wr_ok chunks (conn_start source registry_new))))"
    and "nostr_contract ns keys" and "sign_listing ns (to_listing c) keys created_at pow_bits = Inr ev"
    and "length (nostr_as_json ns ev) \<le> MAX_EVENT_BYTES"
    and "created_at \<le> saturating_add_u64 now (max_clock_skew_sec config)"
    and "min_pow_bits config \<le> pow_bits"
  shows "verify_incoming ns (nostr_as_json ns ev) config now = Inr \<lparr>vl_event = ev, vl_listing = to_listing c\<rparr>"
proof -
  have "reg_publishable registry_new" by (simp add: reg_publishable_def reg_snapshot_def registry_new_def)
  with assms(1) have "reg_publishable (cn_registry (pump_chunks node_id clk wr_ok chunks (conn_start source registry_new)))"
    by (intro pcp_conn_publishable) auto
  with assms(2) have "publishable c" by (auto simp: reg_publishable_def reg_snapshot_def list_all_iff)
  then show ?thesis using signed_accepted [OF assms(3,4) _ _ _ assms(5-7)] by (simp add: publishable_def)
qed

definition one_builder :: "channel_listing \<Rightarrow> nat \<Rightarrow> event_builder" where
  "one_builder l t = \<lparr>eb_kind = CHANNEL_KIND, eb_content = [], eb_tags = raw_tags l t, eb_created_at = t, eb_pow = None\<rparr>"

definition one_nostr :: "channel_listing \<Rightarrow> nat \<Rightarrow> unit nostr" where
  "one_nostr l t = \<lparr>nostr_from_json = (\<lambda>s. if s = ''x'' then Some (listing_event ''a'' t l) else None),
     nostr_as_json = (\<lambda>e. ''x''), nostr_verify = (\<lambda>e. True), nostr_check_pow = (\<lambda>n e. True), nostr_tag_parse = Inr,
     nostr_sign_with_keys = (\<lambda>keys b. if b = one_builder l t then Inr (listing_event ''a'' t l) else Inl ''refused'')\<rparr>"

lemma one_contract: "nostr_contract (one_nostr l t) ()"
  using listing_event_tags [of "''a''" t l]
  by (auto simp: nostr_contract_def one_nostr_def one_builder_def listing_event_def CHANNEL_KIND_def split: if_splits
      intro!: exI [of _ None])

lemma one_signed: "sign_listing (one_nostr l t) l () t 0 = Inr (listing_event ''a'' t l)"
  unfolding sign_listing_def to_tags_def parse_tags_contract [OF one_contract raw_tags_nonempty]
  by (simp add: one_nostr_def one_builder_def Let_def)

theorem announced_channel_accepted_witness:
  "\<exists>c. (replicate 16 2, c) \<in> set (reg_inner (cn_registry (pump_chunks [] (\<lambda>_. 5) (\<lambda>_. True) demo_chunks (conn_start ''p'' registry_new)))) \<and>
     verify_incoming (one_nostr (to_listing c) 5) ''x'' default_verify_config 5 =
       Inr \<lparr>vl_event = listing_event ''a'' 5 (to_listing c), vl_listing = to_listing c\<rparr>"
proof -
  obtain e where e: "cn_registry (pump_chunks [] (\<lambda>_. 5) (\<lambda>_. True) demo_chunks (conn_start ''p'' registry_new)) =
      fst (reg_upsert (from_raw e ChAnnounced) registry_new)" "rc_channel_id e = replicate 16 2"
    by (rule demo_run)
  let ?c = "(from_raw e ChAnnounced)\<lparr>ac_state := ChAnnounced\<rparr>"
  have m: "(replicate 16 2, ?c) \<in> set (reg_inner (cn_registry (pump_chunks [] (\<lambda>_. 5) (\<lambda>_. True) demo_chunks (conn_start ''p'' registry_new))))"
    unfolding e(1) using e(2) by (simp add: reg_upsert_def reg_contains_def registry_new_def Let_def from_raw_def)
  have "verify_incoming (one_nostr (to_listing ?c) 5) (nostr_as_json (one_nostr (to_listing ?c) 5) (listing_event ''a'' 5 (to_listing ?c)))
      default_verify_config 5 = Inr \<lparr>vl_event = listing_event ''a'' 5 (to_listing ?c), vl_listing = to_listing ?c\<rparr>"
    by (rule announced_channel_accepted [OF _ m one_contract one_signed])
      (simp_all add: u64_max_def one_nostr_def MAX_EVENT_BYTES_def default_verify_config_def saturating_add_u64_def)
  with m show ?thesis by (intro exI [of _ ?c]) (simp add: one_nostr_def)
qed

end
